(* ===== verification/Prelude.thy ===== *)
theory Prelude
  imports Main "HOL-Library.Word" "HOL-Library.List_Lexorder" "HOL-Library.Sublist"
begin

text \<open>
  Shared vocabulary of the development: the machine integers and byte strings the storage code is
  written over, finite maps as sorted association lists (the representation chosen for every Rust
  \<open>HashMap\<close>, so that equal maps are equal lists), checked slicing, big-endian encodings, and the
  generic list lemmas the components share.
\<close>

section \<open>Types\<close>

type_synonym u8 = "8 word"
type_synonym u32 = "32 word"
type_synonym u64 = "64 word"
type_synonym bytes = "u8 list"

named_theorems hm_simps \<open>sorted association lists used as hash maps\<close>
named_theorems be_simps \<open>big-endian encodings\<close>
named_theorems key_layout \<open>database key layouts\<close>

section \<open>Finite maps as sorted association lists\<close>

text \<open>
  \<open>HashMap::insert\<close>, \<open>HashMap::remove\<close> and \<open>HashMap::get\<close> (\<^const>\<open>map_of\<close>). Insertion keeps the keys
  ascending.
\<close>

fun hm_insert :: "'k::linorder \<Rightarrow> 'v \<Rightarrow> ('k \<times> 'v) list \<Rightarrow> ('k \<times> 'v) list" where
  "hm_insert k v [] = [(k, v)]"
| "hm_insert k v ((k', v') # m) =
     (if k < k' then (k, v) # (k', v') # m
      else if k = k' then (k, v) # m
      else (k', v') # hm_insert k v m)"

definition hm_remove :: "'k \<Rightarrow> ('k \<times> 'v) list \<Rightarrow> ('k \<times> 'v) list" where
  "hm_remove k m = filter (\<lambda>(k', _). k' \<noteq> k) m"

definition hm_ok :: "('k::linorder \<times> 'v) list \<Rightarrow> bool" where
  "hm_ok m \<longleftrightarrow> sorted_wrt (<) (map fst m)"

lemma hm_ok_Nil [simp, hm_simps]: "hm_ok []"
  by (simp add: hm_ok_def)

lemma hm_ok_Cons [hm_simps]: "hm_ok ((k, v) # m) \<longleftrightarrow> (\<forall>x\<in>fst ` set m. k < x) \<and> hm_ok m"
  by (auto simp: hm_ok_def)

lemma hm_ok_distinct: "hm_ok m \<Longrightarrow> distinct (map fst m)"
  by (simp add: hm_ok_def strict_sorted_iff)

lemma map_of_hm_insert [simp, hm_simps]: "map_of (hm_insert k v m) = (map_of m)(k \<mapsto> v)"
  by (induction k v m rule: hm_insert.induct) (auto simp: fun_eq_iff)

lemma keys_hm_insert [simp, hm_simps]: "fst ` set (hm_insert k v m) = insert k (fst ` set m)"
  by (induction k v m rule: hm_insert.induct) auto

lemma hm_ok_hm_insert [simp, intro]: "hm_ok m \<Longrightarrow> hm_ok (hm_insert k v m)"
  by (induction k v m rule: hm_insert.induct) (auto simp: hm_ok_Cons)

lemma map_of_hm_remove [simp, hm_simps]: "map_of (hm_remove k m) = (map_of m)(k := None)"
  by (induction m) (auto simp: hm_remove_def fun_eq_iff)

lemma keys_hm_remove [simp, hm_simps]: "fst ` set (hm_remove k m) = fst ` set m - {k}"
  by (auto simp: hm_remove_def image_iff)

lemma map_fst_hm_remove: "map fst (hm_remove k m) = filter (\<lambda>x. x \<noteq> k) (map fst m)"
  by (induction m) (auto simp: hm_remove_def)

lemma hm_ok_hm_remove [simp, intro]: "hm_ok m \<Longrightarrow> hm_ok (hm_remove k m)"
  by (simp add: hm_ok_def map_fst_hm_remove sorted_wrt_filter)

lemma hm_ok_map_fst_cong: "map fst m = map fst m' \<Longrightarrow> hm_ok m = hm_ok m'"
  by (simp add: hm_ok_def)

lemma map_fst_hm_insert_cong:
  "map fst m = map fst m' \<Longrightarrow> map fst (hm_insert k v m) = map fst (hm_insert k v' m')"
  by (induction m arbitrary: m') (auto simp: Cons_eq_map_conv split: if_splits)

lemma map_fst_hm_remove_cong:
  "map fst m = map fst m' \<Longrightarrow> map fst (hm_remove k m) = map fst (hm_remove k m')"
  by (simp add: map_fst_hm_remove)

lemma hm_insert_same: "hm_ok m \<Longrightarrow> map_of m k = Some v \<Longrightarrow> hm_insert k v m = m"
proof (induction m)
  case (Cons kv m)
  obtain k' v' where kv: "kv = (k', v')" by (cases kv)
  show ?case
  proof (cases "k = k'")
    case True
    with Cons.prems kv show ?thesis by simp
  next
    case False
    with Cons.prems kv have m: "map_of m k = Some v" by simp
    then have "k \<in> fst ` set m" by (force dest: map_of_SomeD)
    with Cons.prems(1) kv have "k' < k" by (auto simp: hm_ok_Cons)
    with False m Cons kv show ?thesis by (simp add: hm_ok_Cons)
  qed
qed simp

lemma hm_insert_insert [simp]: "hm_insert k v (hm_insert k v' m) = hm_insert k v m"
  by (induction m) auto

lemma hm_remove_absent: "map_of m k = None \<Longrightarrow> hm_remove k m = m"
  by (induction m) (auto simp: hm_remove_def split: if_splits)

lemma hm_remove_insert: "map_of m k = None \<Longrightarrow> hm_remove k (hm_insert k v m) = m"
  using hm_remove_absent[of m k] by (induction m) (auto simp: hm_remove_def split: if_splits)

lemma hm_eqI:
  "hm_ok m \<Longrightarrow> hm_ok m' \<Longrightarrow> map_of m = map_of m' \<Longrightarrow> m = m'"
proof (induction m arbitrary: m')
  case Nil
  then show ?case by (cases m') (auto simp: fun_eq_iff split: if_splits)
next
  case (Cons kv m)
  obtain k v where kv: "kv = (k, v)" by (cases kv)
  from Cons.prems(3) kv have "m' \<noteq> []" by (auto simp: fun_eq_iff split: if_splits)
  then obtain k' v' m'' where m': "m' = (k', v') # m''" by (cases m') auto
  note prems = Cons.prems[unfolded kv m']
  have lt: "\<forall>x\<in>fst ` set m. k < x" and lt': "\<forall>x\<in>fst ` set m''. k' < x"
    using prems by (auto simp: hm_ok_Cons)
  have kk: "k = k'"
  proof (rule ccontr)
    assume ne: "k \<noteq> k'"
    with prems(3) have "map_of m'' k = Some v" "map_of m k' = Some v'"
      by (auto simp: fun_eq_iff split: if_splits)
    with lt lt' show False by (metis image_eqI fst_conv map_of_SomeD less_asym)
  qed
  have "map_of m x = map_of m'' x" for x
  proof (cases "x = k")
    case True
    with lt lt' kk have "map_of m x = None" "map_of m'' x = None"
      by (auto simp: map_of_eq_None_iff)
    then show ?thesis by simp
  next
    case False
    with prems(3) kk show ?thesis by (auto simp: fun_eq_iff split: if_splits dest: spec[of _ x])
  qed
  then have "m = m''"
    using Cons.IH[of m''] prems by (auto simp: hm_ok_Cons fun_eq_iff)
  moreover have "v = v'" using fun_cong[OF prems(3), of k] kk by simp
  ultimately show ?case using kk kv m' by simp
qed

section \<open>Checked slicing and indexing\<close>

text \<open>\<open>v[..n]\<close> and \<open>v[i]\<close>: out of range they panic, here \<^const>\<open>None\<close>.\<close>

definition slice_to :: "'a list \<Rightarrow> nat \<Rightarrow> 'a list option" where
  "slice_to xs n = (if n \<le> length xs then Some (take n xs) else None)"

definition index_at :: "'a list \<Rightarrow> nat \<Rightarrow> 'a option" where
  "index_at xs i = (if i < length xs then Some (xs ! i) else None)"

lemma slice_to_Some_iff: "slice_to xs n = Some ys \<longleftrightarrow> n \<le> length xs \<and> ys = take n xs"
  by (auto simp: slice_to_def)

lemma index_at_Some_iff: "index_at xs i = Some y \<longleftrightarrow> i < length xs \<and> y = xs ! i"
  by (auto simp: index_at_def)

section \<open>Lists\<close>

lemma sum_list_map_of_bool: "length (filter P xs) = sum_list (map (\<lambda>x. of_bool (P x)) xs)"
  by (induction xs) auto

lemma take_Suc_nth: "n < length xs \<Longrightarrow> take (Suc n) xs = take n xs @ [xs ! n]"
  by (simp add: take_Suc_conv_app_nth)

lemma take_append_nth_iff:
  "n < length k \<Longrightarrow> take (Suc n) k = p @ [c] \<longleftrightarrow> take n k = p \<and> k ! n = c"
  by (auto simp: take_Suc_nth)

definition prefix_free :: "'a list set \<Rightarrow> bool" where
  "prefix_free S \<longleftrightarrow> (\<forall>x\<in>S. \<forall>y\<in>S. prefix x y \<longrightarrow> x = y)"

lemma prefix_free_mono: "prefix_free T \<Longrightarrow> S \<subseteq> T \<Longrightarrow> prefix_free S"
  by (auto simp: prefix_free_def)

lemma prefix_free_same_length:
  assumes "\<And>x y. x \<in> S \<Longrightarrow> y \<in> S \<Longrightarrow> length x = length y"
  shows "prefix_free S"
  unfolding prefix_free_def
proof (intro ballI impI)
  fix x y assume "x \<in> S" "y \<in> S" "prefix x y"
  moreover from this have "length x = length y" using assms by blast
  ultimately show "x = y" by (auto simp: prefix_def)
qed

text \<open>Two different members of a prefix-free set that agree on their first \<open>n\<close> letters go on.\<close>

lemma prefix_free_longer:
  assumes "prefix_free S" "x \<in> S" "y \<in> S" "x \<noteq> y" "take n x = take n y" "n \<le> length x"
  shows "n < length x"
proof (rule ccontr)
  assume "\<not> n < length x"
  with assms(5,6) have "x = take n y" by simp
  then have "prefix x y" by (simp add: take_is_prefix)
  with assms show False by (auto simp: prefix_free_def)
qed

section \<open>Big-endian encodings\<close>

text \<open>\<open>uN::to_be_bytes\<close> and \<open>uN::from_be_bytes\<close>.\<close>

fun be_bytes :: "nat \<Rightarrow> nat \<Rightarrow> bytes" where
  "be_bytes 0 n = []"
| "be_bytes (Suc l) n = be_bytes l (n div 256) @ [of_nat n]"

definition from_be :: "bytes \<Rightarrow> nat" where
  "from_be bs = foldl (\<lambda>acc b. acc * 256 + unat b) 0 bs"

definition u32_to_be :: "u32 \<Rightarrow> bytes" where
  "u32_to_be w = be_bytes 4 (unat w)"

definition u64_to_be :: "u64 \<Rightarrow> bytes" where
  "u64_to_be w = be_bytes 8 (unat w)"

definition u32_from_be :: "bytes \<Rightarrow> u32" where
  "u32_from_be bs = of_nat (from_be bs)"

lemma length_be_bytes [simp, be_simps]: "length (be_bytes l n) = l"
  by (induction l arbitrary: n) auto

lemma length_u32_to_be [simp, be_simps]: "length (u32_to_be w) = 4"
  by (simp add: u32_to_be_def)

lemma length_u64_to_be [simp, be_simps]: "length (u64_to_be w) = 8"
  by (simp add: u64_to_be_def)

lemma from_be_snoc [simp]: "from_be (bs @ [b]) = from_be bs * 256 + unat b"
  by (simp add: from_be_def)

lemma from_be_Nil [simp]: "from_be [] = 0"
  by (simp add: from_be_def)

lemma unat_of_nat_byte [simp]: "unat (of_nat n :: u8) = n mod 256"
  by (simp add: unat_of_nat)

lemma from_be_be_bytes [be_simps]: "from_be (be_bytes l n) = n mod 256 ^ l"
proof (induction l arbitrary: n)
  case (Suc l)
  have "from_be (be_bytes (Suc l) n) = (n div 256 mod 256 ^ l) * 256 + n mod 256"
    by (simp add: Suc.IH)
  also have "\<dots> = n mod (256 * 256 ^ l)"
    by (simp add: mod_mult2_eq)
  finally show ?case by simp
qed simp

lemma from_be_less: "from_be bs < 256 ^ length bs"
proof (induction bs rule: rev_induct)
  case (snoc b bs)
  have "unat b < 256" using unsigned_less[of b] by simp
  with snoc.IH show ?case by simp
qed simp

lemma be_bytes_from_be [be_simps]: "be_bytes (length bs) (from_be bs) = bs"
proof (induction bs rule: rev_induct)
  case (snoc b bs)
  have b: "unat b < 256" using unsigned_less[of b] by simp
  have "(of_nat (from_be bs * 256 + unat b) :: u8) = b"
    by (rule word_unat_eq_iff[THEN iffD2]) (simp only: unat_of_nat_byte, use b in simp)
  moreover have "(from_be bs * 256 + unat b) div 256 = from_be bs" using b by simp
  ultimately show ?case using snoc.IH by simp
qed simp

lemma u32_from_to_be [simp, be_simps]: "u32_from_be (u32_to_be w) = w"
proof -
  have "unat w < 2 ^ 32" using unsigned_less[of w] by simp
  then show ?thesis by (simp add: u32_from_be_def u32_to_be_def from_be_be_bytes)
qed

lemma u32_to_be_inject [simp, be_simps]: "u32_to_be v = u32_to_be w \<longleftrightarrow> v = w"
  by (metis u32_from_to_be)

lemma u64_to_be_inject [simp, be_simps]: "u64_to_be v = u64_to_be w \<longleftrightarrow> v = w"
proof
  assume "u64_to_be v = u64_to_be w"
  then have "unat v mod 256 ^ 8 = unat w mod 256 ^ 8"
    by (metis u64_to_be_def from_be_be_bytes)
  moreover have "unat v < 256 ^ 8" "unat w < 256 ^ 8"
    using unsigned_less[of v] unsigned_less[of w] by simp_all
  ultimately show "v = w" by (simp add: word_unat_eq_iff)
qed simp

lemma u32_to_from_be [be_simps]: "length bs = 4 \<Longrightarrow> u32_to_be (u32_from_be bs) = bs"
proof -
  assume len: "length bs = 4"
  have "from_be bs < 2 ^ 32" using from_be_less[of bs] len by simp
  then have "unat (u32_from_be bs) = from_be bs"
    by (simp add: u32_from_be_def unat_of_nat)
  with len show ?thesis using be_bytes_from_be[of bs] by (simp add: u32_to_be_def)
qed

text \<open>Big-endian encodings of equal width are ordered as byte strings the way the numbers are.\<close>

lemma list_less_append_same_length:
  fixes xs ys :: "'a::linorder list"
  assumes "length xs = length ys"
  shows "xs @ us < ys @ vs \<longleftrightarrow> xs < ys \<or> xs = ys \<and> us < vs"
  using assms by (induction xs ys rule: list_induct2) auto

lemma less_div_mod_iff:
  "(m::nat) < n \<longleftrightarrow> m div d < n div d \<or> m div d = n div d \<and> m mod d < n mod d"
proof (cases "m div d = n div d")
  case True
  have "m = m div d * d + m mod d" "n = n div d * d + n mod d" by simp_all
  with True show ?thesis by (metis nat_add_left_cancel_less less_irrefl)
next
  case False
  then show ?thesis
    by (metis div_le_mono linorder_not_less nat_less_le less_imp_le_nat)
qed

lemma be_bytes_less:
  assumes "m < 256 ^ l" "n < 256 ^ l"
  shows "be_bytes l m < be_bytes l n \<longleftrightarrow> m < n"
  using assms
proof (induction l arbitrary: m n)
  case (Suc l)
  let ?m = "m div 256" and ?n = "n div 256"
  have bound: "?m < 256 ^ l" "?n < 256 ^ l"
    using Suc.prems by (auto simp: less_mult_imp_div_less mult.commute)
  have eq: "be_bytes l ?m = be_bytes l ?n \<longleftrightarrow> ?m = ?n"
    using bound by (metis from_be_be_bytes mod_less)
  have low: "(of_nat m :: u8) < of_nat n \<longleftrightarrow> m mod 256 < n mod 256"
    by (simp add: word_less_nat_alt)
  have "be_bytes (Suc l) m < be_bytes (Suc l) n
      \<longleftrightarrow> ?m < ?n \<or> ?m = ?n \<and> m mod 256 < n mod 256"
    by (simp add: list_less_append_same_length Suc.IH[OF bound] eq low)
  also have "\<dots> \<longleftrightarrow> m < n"
    by (rule less_div_mod_iff[symmetric])
  finally show ?case .
qed simp

lemma u32_to_be_less [be_simps]: "u32_to_be v < u32_to_be w \<longleftrightarrow> v < w"
proof -
  have "unat v < 256 ^ 4" "unat w < 256 ^ 4"
    using unsigned_less[of v, where 'a = nat] unsigned_less[of w, where 'a = nat] by simp_all
  then show ?thesis by (simp add: u32_to_be_def be_bytes_less word_less_nat_alt)
qed

end
