(* ===== verification/Byte_Utils.thy ===== *)
theory Byte_Utils
  imports Prelude
begin

unbundle bit_operations_syntax

text \<open>
  The byte-string helpers of \<open>src/storage/util.rs\<close> and \<open>src/storage/trie/util.rs\<close>: lexicographic
  comparison, the big-endian increment and decrement that bound every prefix scan, truncated hashes,
  the nibble expansion of trie keys, and the page tokens of the trie iterator.

  \<open>blake3\<close> and \<open>base64\<close> are third-party crates; they enter as function arguments.
\<close>

section \<open>storage/util.rs\<close>

definition BLAKE3_HASH_LEN :: nat where
  "BLAKE3_HASH_LEN = 20"

definition blake3_20 :: "(bytes \<Rightarrow> bytes) \<Rightarrow> bytes \<Rightarrow> bytes" where
  "blake3_20 blake3 input = take BLAKE3_HASH_LEN (blake3 input)"

fun bytes_compare :: "bytes \<Rightarrow> bytes \<Rightarrow> int" where
  "bytes_compare [] [] = 0"
| "bytes_compare [] (b # bs) = -1"
| "bytes_compare (a # as) [] = 1"
| "bytes_compare (a # as) (b # bs) =
     (if a < b then -1 else if a > b then 1 else bytes_compare as bs)"

text \<open>The loops of \<open>increment_vec_u8\<close> and \<open>decrement_vec_u8\<close> run from the last byte to the first.\<close>

fun increment_loop :: "bytes \<Rightarrow> bytes \<times> bool" where
  "increment_loop [] = ([], True)"
| "increment_loop (b # bs) =
     (if b = 255 then (let (r, carry) = increment_loop bs in (0 # r, carry))
      else ((b + 1) # bs, False))"

definition increment_vec_u8 :: "bytes \<Rightarrow> bytes" where
  "increment_vec_u8 v =
     (let (r, carry) = increment_loop (rev v) in if carry then 1 # rev r else rev r)"

fun decrement_loop :: "bytes \<Rightarrow> bytes \<times> bool" where
  "decrement_loop [] = ([], True)"
| "decrement_loop (b # bs) =
     (if b = 0 then (let (r, borrow) = decrement_loop bs in (255 # r, borrow))
      else ((b - 1) # bs, False))"

definition decrement_vec_u8 :: "bytes \<Rightarrow> bytes" where
  "decrement_vec_u8 v =
     (let (r, borrow) = decrement_loop (rev v) in if borrow then butlast (rev r) else rev r)"

lemma bytes_compare_0_iff [simp]: "bytes_compare a b = 0 \<longleftrightarrow> a = b"
  by (induction a b rule: bytes_compare.induct) auto

lemma bytes_compare_neg_iff [simp]: "bytes_compare a b = -1 \<longleftrightarrow> a < b"
  by (induction a b rule: bytes_compare.induct) auto

lemma bytes_compare_pos_iff [simp]: "bytes_compare a b = 1 \<longleftrightarrow> b < a"
  by (induction a b rule: bytes_compare.induct) auto

lemma bytes_compare_range: "bytes_compare a b \<in> {-1, 0, 1}"
  by (induction a b rule: bytes_compare.induct) auto

lemma bytes_compare_gt_0 [simp]: "bytes_compare a b > 0 \<longleftrightarrow> b < a"
  by (induction a b rule: bytes_compare.induct) auto

lemma bytes_compare_lt_0 [simp]: "bytes_compare a b < 0 \<longleftrightarrow> a < b"
  by (induction a b rule: bytes_compare.induct) auto

lemma bytes_compare_swap: "bytes_compare b a = - bytes_compare a b"
  by (induction a b rule: bytes_compare.induct) auto

text \<open>The increment of a string that is not all 255: a common stem, one byte raised, zeros after it.\<close>

lemma increment_loop_cases:
  "increment_loop v = (r, c) \<Longrightarrow>
     (if c then v = replicate (length v) 255 \<and> r = replicate (length v) 0
      else \<exists>m b s. v = replicate m 255 @ b # s \<and> b \<noteq> 255 \<and> r = replicate m 0 @ (b + 1) # s)"
proof (induction v arbitrary: r c rule: increment_loop.induct)
  case (2 b bs)
  show ?case
  proof (cases "b = 255")
    case True
    obtain r' c' where rc: "increment_loop bs = (r', c')" by force
    with "2.prems" True have r: "r = 0 # r'" "c = c'" by auto
    from "2.IH"[OF True rc] show ?thesis
    proof (cases c')
      case c: False
      with "2.IH"[OF True rc] obtain m b' s where
        "bs = replicate m 255 @ b' # s" "b' \<noteq> 255" "r' = replicate m 0 @ (b' + 1) # s" by auto
      with True r c have "b # bs = replicate (Suc m) 255 @ b' # s \<and> b' \<noteq> 255 \<and>
        r = replicate (Suc m) 0 @ (b' + 1) # s" by simp
      then show ?thesis
        unfolding r(2) if_not_P[OF c] by (intro exI)
    qed (use True r in auto)
  next
    case False
    with "2.prems" have "b # bs = replicate 0 255 @ b # bs \<and> b \<noteq> 255 \<and>
      r = replicate 0 0 @ (b + 1) # bs" and c: "\<not> c" by auto
    then show ?thesis unfolding if_not_P[OF c] by (intro exI)
  qed
qed auto

lemma increment_vec_u8_cases:
  obtains (overflow) "v = replicate (length v) 255" "increment_vec_u8 v = 1 # replicate (length v) 0"
  | (stem) s b m where "v = s @ b # replicate m 255" "b \<noteq> 255"
      "increment_vec_u8 v = s @ (b + 1) # replicate m 0"
proof -
  obtain r c where rc: "increment_loop (rev v) = (r, c)" by force
  show thesis
  proof (cases c)
    case True
    with increment_loop_cases[OF rc] have "rev v = replicate (length v) 255"
      "r = replicate (length v) 0" by auto
    then have "v = replicate (length v) 255" by (metis rev_replicate rev_rev_ident)
    with True rc \<open>r = _\<close> show thesis
      by (intro overflow) (auto simp: increment_vec_u8_def)
  next
    case False
    with increment_loop_cases[OF rc] obtain m b s where *: "rev v = replicate m 255 @ b # s"
      "b \<noteq> 255" "r = replicate m 0 @ (b + 1) # s" by auto
    have "v = rev s @ b # replicate m 255"
      using arg_cong[OF *(1), of rev] by simp
    with * False rc show thesis
      by (intro stem[of "rev s" b m]) (auto simp: increment_vec_u8_def)
  qed
qed

lemma unat_byte_less: "unat (b :: u8) < 256"
  using unsigned_less[of b, where 'a = nat] by simp

lemma byte_le_255: "(b :: u8) \<le> 255"
  using unat_byte_less[of b] by (simp add: word_le_nat_alt)

lemma unat_byte_Suc: "b \<noteq> (255 :: u8) \<Longrightarrow> unat (b + 1) = Suc (unat b)"
proof -
  assume ne: "b \<noteq> 255"
  then have "unat b \<noteq> unat (255 :: u8)" by (simp only: word_unat_eq_iff not_False_eq_True)
  with unat_byte_less[of b] show ?thesis by (simp add: unat_word_ariths)
qed

lemma byte_less_Suc: "b \<noteq> (255 :: u8) \<Longrightarrow> b < b + 1 \<and> (\<forall>x. x < b + 1 \<longleftrightarrow> x \<le> b)"
  by (auto simp: word_less_nat_alt word_le_nat_alt unat_byte_Suc)

lemma replicate_0_le: "length ys \<ge> m \<Longrightarrow> \<not> ys < replicate m (0 :: u8)"
proof (induction m arbitrary: ys)
  case (Suc m)
  then obtain y zs where "ys = y # zs" by (cases ys) auto
  with Suc show ?case by auto
qed simp

lemma replicate_255_le: "length ys \<ge> m \<Longrightarrow> \<not> ys < replicate m (255 :: u8) \<longleftrightarrow> prefix (replicate m 255) ys"
proof (induction m arbitrary: ys)
  case (Suc m)
  then obtain y zs where ys: "ys = y # zs" by (cases ys) auto
  have "y < 255 \<longleftrightarrow> y \<noteq> 255"
    using byte_le_255[of y] by (auto simp: order_less_le)
  with Suc ys show ?case by auto
qed simp

text \<open>
  A scan from \<open>p\<close> to \<open>increment_vec_u8 p\<close> visits exactly the keys that extend \<open>p\<close>, among keys at
  least as long as \<open>p\<close> and for a \<open>p\<close> with a byte below 255.
\<close>

lemma lex_window:
  fixes s k1 :: "'a::linorder" and b k2 :: "'b::linorder"
  shows "(s < k1 \<or> s = k1 \<and> (b < k2 \<or> b = k2 \<and> P)) \<and> (k1 < s \<or> k1 = s \<and> k2 \<le> b)
     \<longleftrightarrow> s = k1 \<and> b = k2 \<and> P"
  by auto

lemma increment_range_iff_prefix:
  assumes len: "length p \<le> length k" and ne: "p \<noteq> replicate (length p) 255"
  shows "p \<le> k \<and> k < increment_vec_u8 p \<longleftrightarrow> prefix p k"
proof (cases rule: increment_vec_u8_cases[of p])
  case overflow
  with ne show ?thesis by simp
next
  case (stem s b m)
  define k1 k2 k3 where "k1 = take (length s) k" and "k2 = k ! length s"
    and "k3 = drop (Suc (length s)) k"
  have k: "k = k1 @ k2 # k3" and lk1: "length k1 = length s" and lk3: "m \<le> length k3"
    using len stem(1) by (simp_all add: k1_def k2_def k3_def id_take_nth_drop)
  note bs = byte_less_Suc[OF stem(2)]
  have le: "p \<le> k \<longleftrightarrow> \<not> k < p" by auto
  have lower: "\<not> k < p \<longleftrightarrow> s < k1 \<or> s = k1 \<and> (b < k2 \<or> b = k2 \<and> prefix (replicate m 255) k3)"
    using lk1 replicate_255_le[OF lk3] unfolding stem(1) k
    by (auto simp: list_less_append_same_length)
  have upper: "k < increment_vec_u8 p \<longleftrightarrow> k1 < s \<or> k1 = s \<and> k2 < b + 1"
    using lk1 replicate_0_le[OF lk3] unfolding stem(3) k
    by (auto simp: list_less_append_same_length)
  have "prefix p k \<longleftrightarrow> s = k1 \<and> b = k2 \<and> prefix (replicate m 255) k3"
    unfolding stem(1) k using lk1 by (auto simp: prefix_def)
  moreover have "k2 < b + 1 \<longleftrightarrow> k2 \<le> b" using bs by blast
  ultimately show ?thesis
    unfolding le lower upper by (simp only: lex_window)
qed

lemma from_be_append: "from_be (xs @ ys) = from_be xs * 256 ^ length ys + from_be ys"
proof (induction ys rule: rev_induct)
  case (snoc y ys)
  have "from_be (xs @ ys @ [y]) = from_be (xs @ ys) * 256 + unat y"
    using from_be_snoc[of "xs @ ys" y] by simp
  with snoc.IH show ?case by (simp add: algebra_simps)
qed simp

lemma from_be_replicate_255: "Suc (from_be (replicate m 255)) = 256 ^ m"
  by (induction m) (simp_all add: replicate_append_same[symmetric] del: replicate_append_same)

lemma from_be_replicate_0: "from_be (replicate m 0) = 0"
  by (induction m) (simp_all add: replicate_append_same[symmetric] del: replicate_append_same)

lemma from_be_Cons: "from_be (x # xs) = unat x * 256 ^ length xs + from_be xs"
  using from_be_append[of "[x]" xs] by (simp add: from_be_def)

lemma increment_vec_u8_value: "from_be (increment_vec_u8 v) = Suc (from_be v)"
proof (cases rule: increment_vec_u8_cases[of v])
  case overflow
  have "from_be v = from_be (replicate (length v) 255)" using overflow(1) by simp
  then have "Suc (from_be v) = 256 ^ length v" by (simp only: from_be_replicate_255)
  then show ?thesis
    by (simp add: overflow(2) from_be_Cons from_be_replicate_0)
next
  case (stem s b m)
  have "unat (b + 1) = Suc (unat b)" by (rule unat_byte_Suc[OF stem(2)])
  then show ?thesis
    unfolding stem(3) unfolding stem(1)
    using from_be_replicate_255[of m] by (simp add: from_be_append from_be_Cons from_be_replicate_0)
qed

section \<open>trie/util.rs: nibbles\<close>

definition expand_nibbles :: "bytes \<Rightarrow> bytes" where
  "expand_nibbles input = concat (map (\<lambda>byte. [drop_bit 4 byte, byte AND 0x0F]) input)"

fun combine_chunks :: "bytes \<Rightarrow> bytes" where
  "combine_chunks (a # b # rest) = (push_bit 4 a OR (b AND 0x0F)) # combine_chunks rest"
| "combine_chunks _ = []"

text \<open>\<^const>\<open>None\<close> is the failed assertion that the input length is even.\<close>

definition combine_nibbles :: "bytes \<Rightarrow> bytes option" where
  "combine_nibbles input =
     (if even (length input) then Some (combine_chunks input) else None)"

lemma expand_nibbles_Nil [simp]: "expand_nibbles [] = []"
  by (simp add: expand_nibbles_def)

lemma expand_nibbles_Cons [simp]:
  "expand_nibbles (b # bs) = drop_bit 4 b # (b AND 0x0F) # expand_nibbles bs"
  by (simp add: expand_nibbles_def)

lemma length_expand_nibbles [simp]: "length (expand_nibbles bs) = 2 * length bs"
  by (induction bs) auto

lemma and_15_take_bit: "(b :: u8) AND 0x0F = take_bit 4 b"
proof -
  have "(0x0F :: u8) = mask 4" by (simp add: mask_eq_exp_minus_1)
  then show ?thesis by (simp only: take_bit_eq_mask)
qed

lemma nibbles_of_byte: "push_bit 4 (drop_bit 4 b) OR ((b AND 0x0F) AND 0x0F) = (b :: u8)"
proof -
  have "(b AND 0x0F) AND 0x0F = take_bit 4 b" by (simp only: and_15_take_bit take_bit_take_bit min.idem)
  moreover have "push_bit 4 (drop_bit 4 b) AND take_bit 4 b = 0"
    by (rule bit_word_eqI) (simp add: bit_simps)
  ultimately show ?thesis by (simp only: disjunctive_add_eq_or[symmetric] bits_ident)
qed

lemma combine_chunks_expand [simp]: "combine_chunks (expand_nibbles bs) = bs"
proof (induction bs)
  case (Cons b bs)
  show ?case
    unfolding expand_nibbles_Cons combine_chunks.simps(1) nibbles_of_byte Cons.IH ..
qed simp

lemma combine_expand_nibbles: "combine_nibbles (expand_nibbles bs) = Some bs"
  by (simp add: combine_nibbles_def)

lemma expand_nibbles_inject [simp]: "expand_nibbles xs = expand_nibbles ys \<longleftrightarrow> xs = ys"
  by (metis combine_chunks_expand)

lemma drop_bit_4_less: "drop_bit 4 (b :: u8) < 16"
  using unat_byte_less[of b]
  by (simp add: word_less_nat_alt drop_bit_eq_div unat_div less_mult_imp_div_less)

lemma and_15_less: "(b :: u8) AND 0x0F < 16"
proof -
  have "unat (b AND 0x0F) \<le> unat (0x0F :: u8)"
    by (rule word_and_le1 [THEN word_le_nat_alt [THEN iffD1]])
  then show ?thesis by (simp add: word_less_nat_alt)
qed

lemma expand_nibbles_less: "n \<in> set (expand_nibbles bs) \<Longrightarrow> n < 16"
  by (induction bs) (auto simp: drop_bit_4_less and_15_less)

lemma expand_nibbles_append: "expand_nibbles (xs @ ys) = expand_nibbles xs @ expand_nibbles ys"
  by (simp add: expand_nibbles_def)

lemma prefix_expand_nibbles: "prefix (expand_nibbles xs) (expand_nibbles ys) \<longleftrightarrow> prefix xs ys"
proof (induction xs arbitrary: ys)
  case (Cons x xs)
  show ?case
  proof (cases ys)
    case (Cons y zs)
    have "drop_bit 4 x = drop_bit 4 y \<and> x AND 0x0F = y AND 0x0F \<longleftrightarrow> x = y"
      by (metis expand_nibbles_Cons expand_nibbles_Nil expand_nibbles_inject list.inject)
    with Cons.IH Cons show ?thesis by (auto simp: Cons.IH)
  qed simp
qed simp

section \<open>trie/util.rs: page tokens\<close>

text \<open>The error of a token is the text of its \<open>TokenDecodeError\<close>.\<close>

type_synonym token_error = string

definition encode_parts :: "bytes list \<Rightarrow> bytes" where
  "encode_parts parts = concat (map (\<lambda>part. u32_to_be (of_nat (length part)) @ part) parts)"

definition encode_trie_page_token :: "(bytes \<Rightarrow> string) \<Rightarrow> bytes list option \<Rightarrow> string" where
  "encode_trie_page_token b64 token =
     (case token of
        None \<Rightarrow> []
      | Some parts \<Rightarrow>
          if parts = [] then []
          else b64 (u32_to_be (of_nat (length parts)) @ encode_parts parts))"

text \<open>The loop \<open>for _ in 0..count\<close>, with the read offset and the segments read so far.\<close>

fun decode_loop :: "nat \<Rightarrow> bytes \<Rightarrow> nat \<Rightarrow> bytes list \<Rightarrow> token_error + (bytes list \<times> nat)" where
  "decode_loop 0 buf offset out = Inr (out, offset)"
| "decode_loop (Suc n) buf offset out =
     (if offset + 4 > length buf then Inl ''Unexpected EOF reading length''
      else let len = unat (u32_from_be (take 4 (drop offset buf))); offset' = offset + 4 in
        if offset' + len > length buf then Inl ''Unexpected EOF reading segment''
        else decode_loop n buf (offset' + len) (out @ [take len (drop offset' buf)]))"

definition decode_trie_page_token ::
  "(string \<Rightarrow> string + bytes) \<Rightarrow> string \<Rightarrow> token_error + bytes list option" where
  "decode_trie_page_token unb64 encoded =
     (if encoded = [] then Inr None
      else case unb64 encoded of
        Inl e \<Rightarrow> Inl e
      | Inr buf \<Rightarrow>
          if length buf < 4 then Inl ''Too short''
          else case decode_loop (unat (u32_from_be (take 4 buf))) buf 4 [] of
            Inl e \<Rightarrow> Inl e
          | Inr (out, offset) \<Rightarrow>
              if offset \<noteq> length buf then Inl ''Extra bytes at end''
              else if out = [] then Inr None else Inr (Some out))"

lemma length_encode_parts_Cons [simp]:
  "encode_parts (p # ps) = u32_to_be (of_nat (length p)) @ p @ encode_parts ps"
  by (simp add: encode_parts_def)

lemma encode_parts_Nil [simp]: "encode_parts [] = []"
  by (simp add: encode_parts_def)

lemma decode_loop_encode_parts:
  assumes "\<forall>p\<in>set parts. length p < 2 ^ 32"
  shows "decode_loop (length parts) (pre @ encode_parts parts) (length pre) out
       = Inr (out @ parts, length (pre @ encode_parts parts))"
  using assms
proof (induction parts arbitrary: pre out)
  case (Cons p ps)
  let ?l = "u32_to_be (of_nat (length p))"
  have len: "unat (of_nat (length p) :: u32) = length p"
    using Cons.prems by (simp add: unat_of_nat)
  have "decode_loop (length ps) ((pre @ ?l @ p) @ encode_parts ps) (length (pre @ ?l @ p)) (out @ [p])
      = Inr ((out @ [p]) @ ps, length ((pre @ ?l @ p) @ encode_parts ps))"
    by (rule Cons.IH) (use Cons.prems in simp)
  then show ?case by (simp add: Let_def len add.assoc)
qed simp

text \<open>Decoding never yields more segments than the announced count, and never an empty token.\<close>

lemma decode_loop_length:
  "decode_loop n buf offset out = Inr (out', offset') \<Longrightarrow>
     length out' = length out + n \<and> offset' \<ge> offset + 4 * n"
proof (induction n buf offset out rule: decode_loop.induct)
  case (2 n buf offset out)
  let ?len = "unat (u32_from_be (take 4 (drop offset buf)))"
  from "2.prems" have "\<not> offset + 4 > length buf" "\<not> offset + 4 + ?len > length buf"
    "decode_loop n buf (offset + 4 + ?len) (out @ [take ?len (drop (offset + 4) buf)])
       = Inr (out', offset')"
    by (auto simp: Let_def split: if_splits)
  from "2.IH"[OF this(1) refl refl this(2,3)] show ?case by simp
qed simp

lemma snoc_0_le_iff: "t @ [0] \<le> k \<longleftrightarrow> t < (k :: bytes)"
proof (induction t arbitrary: k)
  case Nil
  then show ?case by (cases k) (auto simp: word_gt_0)
next
  case (Cons a t)
  then show ?case by (cases k) auto
qed

end
