(* ===== verification/Kv_Store.thy ===== *)
theory Kv_Store
  imports Byte_Utils
begin

text \<open>
  \<open>src/storage/db/rocksdb.rs\<close>: transaction batches, the wrapper around the key-value engine, ordered
  iteration with page options, and the bulk deletes built on it. The engine itself (the \<open>rocksdb\<close>
  crate) is a parameter: a record of its operations on a state of any type, with the laws the wrapper
  relies on stated by \<open>engine_laws\<close>.
\<close>

section \<open>Errors\<close>

record hub_error =
  he_code :: string
  he_message :: string

datatype rocksdb_error = InternalError string | DecodeError | DbNotOpen | BackupError string | ReadOnly

definition hub_error_from_rocksdb :: "rocksdb_error \<Rightarrow> hub_error" where
  "hub_error_from_rocksdb e =
     \<lparr>he_code = ''db.internal_error'',
      he_message = (case e of InternalError m \<Rightarrow> m | DecodeError \<Rightarrow> ''Unable to decode message''
        | DbNotOpen \<Rightarrow> ''DB is not open'' | BackupError m \<Rightarrow> m | ReadOnly \<Rightarrow> ''DB is read only'')\<rparr>"

definition validation_failure :: "string \<Rightarrow> hub_error" where
  "validation_failure m = \<lparr>he_code = ''bad_request.validation_failure'', he_message = m\<rparr>"

definition invalid_parameter :: "string \<Rightarrow> hub_error" where
  "invalid_parameter m = \<lparr>he_code = ''bad_request.invalid_param'', he_message = m\<rparr>"

definition not_found :: "string \<Rightarrow> hub_error" where
  "not_found m = \<lparr>he_code = ''not_found'', he_message = m\<rparr>"

definition duplicate_error :: "string \<Rightarrow> hub_error" where
  "duplicate_error m = \<lparr>he_code = ''bad_request.duplicate'', he_message = m\<rparr>"

definition map_err :: "('e \<Rightarrow> 'f) \<Rightarrow> 'e + 'a \<Rightarrow> 'f + 'a" where
  "map_err f r = (case r of Inl e \<Rightarrow> Inl (f e) | Inr x \<Rightarrow> Inr x)"

lemma map_err_simps [simp]: "map_err f (Inl e) = Inl (f e)" "map_err f (Inr x) = Inr x"
  by (simp_all add: map_err_def)

section \<open>Transaction batches\<close>

text \<open>\<open>RocksDbTransactionBatch\<close>: pending writes, \<^const>\<open>None\<close> for a delete.\<close>

type_synonym txn_batch = "(bytes \<times> bytes option) list"

definition txn_new :: txn_batch where
  "txn_new = []"

definition txn_put :: "txn_batch \<Rightarrow> bytes \<Rightarrow> bytes \<Rightarrow> txn_batch" where
  "txn_put txn k v = hm_insert k (Some v) txn"

definition txn_delete :: "txn_batch \<Rightarrow> bytes \<Rightarrow> txn_batch" where
  "txn_delete txn k = hm_insert k None txn"

definition txn_merge :: "txn_batch \<Rightarrow> txn_batch \<Rightarrow> txn_batch" where
  "txn_merge txn other = foldl (\<lambda>t (k, v). hm_insert k v t) txn other"

lemma map_of_txn_put [simp]: "map_of (txn_put txn k v) = (map_of txn)(k \<mapsto> Some v)"
  by (simp add: txn_put_def)

lemma map_of_txn_delete [simp]: "map_of (txn_delete txn k) = (map_of txn)(k \<mapsto> None)"
  by (simp add: txn_delete_def)

lemma map_of_txn_new [simp]: "map_of txn_new = Map.empty"
  by (simp add: txn_new_def)

lemma hm_ok_txn [simp, intro]:
  "hm_ok txn_new" "hm_ok txn \<Longrightarrow> hm_ok (txn_put txn k v)" "hm_ok txn \<Longrightarrow> hm_ok (txn_delete txn k)"
  by (auto simp: txn_new_def txn_put_def txn_delete_def)

lemma map_of_txn_merge:
  "distinct (map fst other) \<Longrightarrow> map_of (txn_merge txn other) = map_of txn ++ map_of other"
proof (induction other arbitrary: txn)
  case (Cons kv other)
  obtain k v where kv: "kv = (k, v)" by (cases kv)
  with Cons.prems have k: "map_of other k = None"
    by (force simp: map_of_eq_None_iff image_iff)
  have "map_of (txn_merge txn (kv # other)) = map_of (hm_insert k v txn) ++ map_of other"
    using Cons by (simp add: txn_merge_def kv)
  also have "\<dots> = map_of txn ++ map_of (kv # other)"
    using k by (auto simp: kv fun_eq_iff map_add_def split: option.splits)
  finally show ?case .
qed (simp add: txn_merge_def)

lemma hm_ok_txn_merge [simp, intro]: "hm_ok txn \<Longrightarrow> hm_ok (txn_merge txn other)"
  by (induction other arbitrary: txn) (auto simp: txn_merge_def)

text \<open>What a reader sees through a batch laid over the committed rows.\<close>

definition overlay :: "(bytes \<rightharpoonup> bytes) \<Rightarrow> txn_batch \<Rightarrow> (bytes \<rightharpoonup> bytes)" where
  "overlay m txn = (\<lambda>k. case map_of txn k of Some v \<Rightarrow> v | None \<Rightarrow> m k)"

lemma overlay_new [simp]: "overlay m txn_new = m"
  by (simp add: overlay_def)

lemma overlay_put [simp]: "overlay m (txn_put txn k v) = (overlay m txn)(k \<mapsto> v)"
  by (simp add: overlay_def fun_eq_iff)

lemma overlay_delete [simp]: "overlay m (txn_delete txn k) = (overlay m txn)(k := None)"
  by (simp add: overlay_def fun_eq_iff)

lemma overlay_merge: "distinct (map fst t') \<Longrightarrow> overlay m (txn_merge t t') = overlay (overlay m t) t'"
  by (auto simp: overlay_def fun_eq_iff map_of_txn_merge map_add_def split: option.splits)

section \<open>The engine as a parameter\<close>

text \<open>
  \<open>raw_range\<close> is a raw iterator with its lower (inclusive) and upper (exclusive) bound set, run from
  first to last. \<open>raw_put\<close>, \<open>raw_delete\<close> act on an open engine transaction, \<open>raw_commit\<close> closes it.
\<close>

record 'e engine_ops =
  raw_get :: "'e \<Rightarrow> bytes \<Rightarrow> string + bytes option"
  raw_put :: "'e \<Rightarrow> bytes \<Rightarrow> bytes \<Rightarrow> string + 'e"
  raw_delete :: "'e \<Rightarrow> bytes \<Rightarrow> string + 'e"
  raw_commit :: "'e \<Rightarrow> string + 'e"
  raw_range :: "'e \<Rightarrow> bytes \<Rightarrow> bytes \<Rightarrow> (bytes \<times> bytes) list"

definition engine_laws :: "'e engine_ops \<Rightarrow> ('e \<Rightarrow> bytes \<rightharpoonup> bytes) \<Rightarrow> ('e \<Rightarrow> bool) \<Rightarrow> bool" where
  "engine_laws ops rows einv \<longleftrightarrow>
     (\<forall>e k. einv e \<longrightarrow> raw_get ops e k = Inr (rows e k)) \<and>
     (\<forall>e k v. einv e \<longrightarrow> (\<exists>e'. raw_put ops e k v = Inr e' \<and> einv e' \<and> rows e' = (rows e)(k \<mapsto> v))) \<and>
     (\<forall>e k. einv e \<longrightarrow> (\<exists>e'. raw_delete ops e k = Inr e' \<and> einv e' \<and> rows e' = (rows e)(k := None))) \<and>
     (\<forall>e. einv e \<longrightarrow> (\<exists>e'. raw_commit ops e = Inr e' \<and> einv e' \<and> rows e' = rows e)) \<and>
     (\<forall>e lo hi. einv e \<longrightarrow> hm_ok (raw_range ops e lo hi) \<and>
        set (raw_range ops e lo hi) = {(k, v). rows e k = Some v \<and> lo \<le> k \<and> k < hi})"

lemma engine_lawsD:
  assumes "engine_laws ops rows einv" "einv e"
  shows engine_get: "raw_get ops e k = Inr (rows e k)"
    and engine_put: "\<exists>e'. raw_put ops e k v = Inr e' \<and> einv e' \<and> rows e' = (rows e)(k \<mapsto> v)"
    and engine_delete: "\<exists>e'. raw_delete ops e k = Inr e' \<and> einv e' \<and> rows e' = (rows e)(k := None)"
    and engine_commit: "\<exists>e'. raw_commit ops e = Inr e' \<and> einv e' \<and> rows e' = rows e"
    and engine_range_ok: "hm_ok (raw_range ops e lo hi)"
    and engine_range: "set (raw_range ops e lo hi) = {(k, v). rows e k = Some v \<and> lo \<le> k \<and> k < hi}"
  using assms by (simp_all add: engine_laws_def)

text \<open>An engine that satisfies the laws: the rows as a sorted list.\<close>

definition list_engine :: "(bytes \<times> bytes) list engine_ops" where
  "list_engine =
     \<lparr>raw_get = (\<lambda>e k. Inr (map_of e k)),
      raw_put = (\<lambda>e k v. Inr (hm_insert k v e)),
      raw_delete = (\<lambda>e k. Inr (hm_remove k e)),
      raw_commit = Inr,
      raw_range = (\<lambda>e lo hi. filter (\<lambda>(k, v). lo \<le> k \<and> k < hi) e)\<rparr>"

lemma list_engine_laws: "engine_laws list_engine map_of hm_ok"
  unfolding engine_laws_def list_engine_def
proof (intro conjI allI impI)
  fix e :: "(bytes \<times> bytes) list" and lo hi
  assume ok: "hm_ok e"
  let ?f = "filter (\<lambda>(k, v). lo \<le> k \<and> k < hi) e"
  have eq: "map fst ?f = filter (\<lambda>k. lo \<le> k \<and> k < hi) (map fst e)"
    by (induction e) auto
  have "hm_ok ?f" unfolding hm_ok_def eq using ok by (simp add: hm_ok_def sorted_wrt_filter)
  moreover have "set ?f = {(k, v). map_of e k = Some v \<and> lo \<le> k \<and> k < hi}"
    using hm_ok_distinct[OF ok] by auto
  ultimately show "hm_ok (raw_range \<lparr>raw_get = \<lambda>e k. Inr (map_of e k), raw_put = \<lambda>e k v. Inr (hm_insert k v e),
      raw_delete = \<lambda>e k. Inr (hm_remove k e), raw_commit = Inr,
      raw_range = \<lambda>e lo hi. filter (\<lambda>(k, v). lo \<le> k \<and> k < hi) e\<rparr> e lo hi)"
    and "set (raw_range \<lparr>raw_get = \<lambda>e k. Inr (map_of e k), raw_put = \<lambda>e k v. Inr (hm_insert k v e),
      raw_delete = \<lambda>e k. Inr (hm_remove k e), raw_commit = Inr,
      raw_range = \<lambda>e lo hi. filter (\<lambda>(k, v). lo \<le> k \<and> k < hi) e\<rparr> e lo hi)
      = {(k, v). map_of e k = Some v \<and> lo \<le> k \<and> k < hi}"
    by simp_all
qed auto

section \<open>The wrapper\<close>

datatype 'e db_provider = TransactionDb 'e | ReadOnlyDb 'e

text \<open>\<open>RocksDB.inner\<close>; the path, the option set and the block cache are not modelled.\<close>

type_synonym 'e rocksdb = "'e db_provider option"

definition db_get :: "'e engine_ops \<Rightarrow> 'e rocksdb \<Rightarrow> bytes \<Rightarrow> rocksdb_error + bytes option" where
  "db_get ops db k =
     (case db of
        Some (TransactionDb e) \<Rightarrow> map_err InternalError (raw_get ops e k)
      | Some (ReadOnlyDb e) \<Rightarrow> map_err InternalError (raw_get ops e k)
      | None \<Rightarrow> Inl DbNotOpen)"

fun commit_writes :: "'e engine_ops \<Rightarrow> 'e \<Rightarrow> txn_batch \<Rightarrow> string + 'e" where
  "commit_writes ops e [] = Inr e"
| "commit_writes ops e ((k, v) # batch) =
     (case (case v of None \<Rightarrow> raw_delete ops e k | Some v' \<Rightarrow> raw_put ops e k v') of
        Inl err \<Rightarrow> Inl err
      | Inr e' \<Rightarrow> commit_writes ops e' batch)"

text \<open>A failed write drops the engine transaction and leaves the database as it was.\<close>

definition db_commit :: "'e engine_ops \<Rightarrow> 'e rocksdb \<Rightarrow> txn_batch \<Rightarrow> rocksdb_error + 'e rocksdb" where
  "db_commit ops db batch =
     (case db of
        Some (TransactionDb e) \<Rightarrow>
          (case commit_writes ops e batch of
             Inl m \<Rightarrow> Inl (InternalError m)
           | Inr e1 \<Rightarrow> (case raw_commit ops e1 of
               Inl m \<Rightarrow> Inl (InternalError m)
             | Inr e2 \<Rightarrow> Inr (Some (TransactionDb e2))))
      | Some (ReadOnlyDb e) \<Rightarrow> Inl ReadOnly
      | None \<Rightarrow> Inl DbNotOpen)"

lemma commit_writes_rows:
  assumes "engine_laws ops rows einv" "einv e" "distinct (map fst batch)"
  shows "\<exists>e'. commit_writes ops e batch = Inr e' \<and> einv e' \<and> rows e' = overlay (rows e) batch"
  using assms(2,3)
proof (induction batch arbitrary: e)
  case Nil
  then show ?case by (simp add: overlay_def)
next
  case (Cons kv batch)
  obtain k v where kv: "kv = (k, v)" by (cases kv)
  have "\<exists>e1. (case v of None \<Rightarrow> raw_delete ops e k | Some v' \<Rightarrow> raw_put ops e k v') = Inr e1
      \<and> einv e1 \<and> rows e1 = (rows e)(k := v)"
    using engine_put[OF assms(1) Cons.prems(1)] engine_delete[OF assms(1) Cons.prems(1)]
    by (cases v) simp_all
  then obtain e1 where e1:
    "(case v of None \<Rightarrow> raw_delete ops e k | Some v' \<Rightarrow> raw_put ops e k v') = Inr e1"
    "einv e1" "rows e1 = (rows e)(k := v)"
    by blast
  from Cons.IH[OF e1(2)] Cons.prems(2) obtain e' where
    e': "commit_writes ops e1 batch = Inr e'" "einv e'" "rows e' = overlay (rows e1) batch"
    by auto
  have "map_of batch k = None"
    using Cons.prems(2) by (force simp: kv map_of_eq_None_iff image_iff)
  then have "overlay (rows e1) batch = overlay (rows e) (kv # batch)"
    by (auto simp: overlay_def kv e1(3) fun_eq_iff split: option.splits)
  with e1 e' show ?case by (simp add: kv)
qed

lemma db_commit_rows:
  assumes "engine_laws ops rows einv" "einv e" "distinct (map fst batch)"
  shows "\<exists>e'. db_commit ops (Some (TransactionDb e)) batch = Inr (Some (TransactionDb e'))
           \<and> einv e' \<and> rows e' = overlay (rows e) batch"
proof -
  from commit_writes_rows[OF assms] obtain e1 where e1: "commit_writes ops e batch = Inr e1"
    "einv e1" "rows e1 = overlay (rows e) batch" by blast
  from engine_commit[OF assms(1) e1(2)] obtain e2 where
    "raw_commit ops e1 = Inr e2" "einv e2" "rows e2 = rows e1" by blast
  with e1 show ?thesis by (simp add: db_commit_def)
qed

definition db_put :: "'e engine_ops \<Rightarrow> 'e rocksdb \<Rightarrow> bytes \<Rightarrow> bytes \<Rightarrow> rocksdb_error + 'e rocksdb" where
  "db_put ops db k v =
     (case db of
        Some (TransactionDb e) \<Rightarrow> map_err InternalError (map_sum id (\<lambda>e'. Some (TransactionDb e')) (raw_put ops e k v))
      | Some (ReadOnlyDb e) \<Rightarrow> Inl ReadOnly
      | None \<Rightarrow> Inl DbNotOpen)"

definition db_del :: "'e engine_ops \<Rightarrow> 'e rocksdb \<Rightarrow> bytes \<Rightarrow> rocksdb_error + 'e rocksdb" where
  "db_del ops db k =
     (case db of
        Some (TransactionDb e) \<Rightarrow> map_err InternalError (map_sum id (\<lambda>e'. Some (TransactionDb e')) (raw_delete ops e k))
      | Some (ReadOnlyDb e) \<Rightarrow> Inl ReadOnly
      | None \<Rightarrow> Inl DbNotOpen)"

fun collect_results :: "('e + 'a) list \<Rightarrow> 'e + 'a list" where
  "collect_results [] = Inr []"
| "collect_results (Inl e # rs) = Inl e"
| "collect_results (Inr x # rs) = (case collect_results rs of Inl e \<Rightarrow> Inl e | Inr xs \<Rightarrow> Inr (x # xs))"

definition db_get_many :: "'e engine_ops \<Rightarrow> 'e rocksdb \<Rightarrow> bytes list \<Rightarrow> rocksdb_error + bytes list" where
  "db_get_many ops db keys =
     (let run = (\<lambda>e. case collect_results (map (raw_get ops e) keys) of
                    Inl m \<Rightarrow> Inl (InternalError m)
                  | Inr rs \<Rightarrow> Inr (map (\<lambda>r. case r of Some v \<Rightarrow> v | None \<Rightarrow> []) rs))
      in case db of
        Some (TransactionDb e) \<Rightarrow> run e
      | Some (ReadOnlyDb e) \<Rightarrow> run e
      | None \<Rightarrow> Inl DbNotOpen)"

section \<open>Reads that see the batch\<close>

text \<open>
  The code below the stores reads through \<open>RocksDB::get\<close> only; a definition that does so takes the
  read function as its argument.
\<close>

type_synonym db_read = "bytes \<Rightarrow> rocksdb_error + bytes option"

definition get_from_db_or_txn :: "db_read \<Rightarrow> txn_batch \<Rightarrow> bytes \<Rightarrow> hub_error + bytes option" where
  "get_from_db_or_txn rd txn k =
     (case map_of txn k of
        Some v \<Rightarrow> Inr v
      | None \<Rightarrow> map_err hub_error_from_rocksdb (rd k))"

text \<open>The read function of an open database with rows \<open>m\<close>.\<close>

definition reads :: "(bytes \<rightharpoonup> bytes) \<Rightarrow> db_read" where
  "reads m = (\<lambda>k. Inr (m k))"

lemma reads_apply [simp]: "reads m k = Inr (m k)"
  by (simp add: reads_def)

lemma get_from_reads [simp]: "get_from_db_or_txn (reads m) txn k = Inr (overlay m txn k)"
  by (simp add: get_from_db_or_txn_def overlay_def split: option.splits)

lemma db_get_reads:
  "engine_laws ops rows einv \<Longrightarrow> einv e \<Longrightarrow> db_get ops (Some (TransactionDb e)) = reads (rows e)"
  by (simp add: engine_get db_get_def fun_eq_iff)

section \<open>Ordered iteration\<close>

record page_options =
  page_size :: "nat option"
  page_token :: "bytes option"
  page_reverse :: bool

definition default_page_options :: page_options where
  "default_page_options = \<lparr>page_size = None, page_token = None, page_reverse = False\<rparr>"

record iterator_options =
  lower_bound :: bytes
  upper_bound :: bytes
  iter_reverse :: bool

definition get_iterator_options ::
  "bytes option \<Rightarrow> bytes option \<Rightarrow> page_options \<Rightarrow> iterator_options" where
  "get_iterator_options start_prefix stop_prefix po =
     (let start_iterator_prefix = (case start_prefix of None \<Rightarrow> [] | Some p \<Rightarrow> p);
          stop_iterator_prefix = (case stop_prefix of None \<Rightarrow> replicate 32 255 | Some p \<Rightarrow> p);
          upper = (if page_reverse po
                   then (case page_token po of Some t \<Rightarrow> t | None \<Rightarrow> stop_iterator_prefix)
                   else stop_iterator_prefix);
          lower = (if page_reverse po then start_iterator_prefix
                   else (case page_token po of Some t \<Rightarrow> t @ [0] | None \<Rightarrow> start_iterator_prefix))
      in \<lparr>lower_bound = lower, upper_bound = upper, iter_reverse = page_reverse po\<rparr>)"

text \<open>
  The body of the iteration: the callback threads its captured state, may fail, and stops the loop by
  returning true. The result says whether the loop ran to its end.
\<close>

fun iterate_items ::
  "('s \<Rightarrow> bytes \<Rightarrow> bytes \<Rightarrow> 's \<times> (hub_error + bool)) \<Rightarrow> nat option \<Rightarrow> nat \<Rightarrow> 's
     \<Rightarrow> (bytes \<times> bytes) list \<Rightarrow> 's \<times> (hub_error + bool)" where
  "iterate_items f limit count s [] = (s, Inr True)"
| "iterate_items f limit count s ((k, v) # rest) =
     (case f s k v of
        (s', Inl e) \<Rightarrow> (s', Inl e)
      | (s', Inr True) \<Rightarrow> (s', Inr False)
      | (s', Inr False) \<Rightarrow>
          (case limit of
             Some l \<Rightarrow> if count + 1 \<ge> l then (s', Inr True)
                       else iterate_items f limit (count + 1) s' rest
           | None \<Rightarrow> iterate_items f limit count s' rest))"

definition iterate_with_opts ::
  "'e engine_ops \<Rightarrow> 'e rocksdb \<Rightarrow> iterator_options \<Rightarrow> nat option
     \<Rightarrow> ('s \<Rightarrow> bytes \<Rightarrow> bytes \<Rightarrow> 's \<times> (hub_error + bool)) \<Rightarrow> 's \<Rightarrow> 's \<times> (hub_error + bool)" where
  "iterate_with_opts ops db io limit f s =
     (let run = (\<lambda>e. let items = raw_range ops e (lower_bound io) (upper_bound io)
                     in iterate_items f limit 0 s (if iter_reverse io then rev items else items))
      in case db of
        Some (TransactionDb e) \<Rightarrow> run e
      | Some (ReadOnlyDb e) \<Rightarrow> run e
      | None \<Rightarrow> (s, Inl (hub_error_from_rocksdb DbNotOpen)))"

definition for_each_iterator_by_prefix_paged ::
  "'e engine_ops \<Rightarrow> 'e rocksdb \<Rightarrow> bytes option \<Rightarrow> bytes option \<Rightarrow> page_options
     \<Rightarrow> ('s \<Rightarrow> bytes \<Rightarrow> bytes \<Rightarrow> 's \<times> (hub_error + bool)) \<Rightarrow> 's \<Rightarrow> 's \<times> (hub_error + bool)" where
  "for_each_iterator_by_prefix_paged ops db start_prefix stop_prefix po f s =
     iterate_with_opts ops db (get_iterator_options start_prefix stop_prefix po) (page_size po) f s"

definition for_each_iterator_by_prefix ::
  "'e engine_ops \<Rightarrow> 'e rocksdb \<Rightarrow> bytes option \<Rightarrow> bytes option \<Rightarrow> page_options
     \<Rightarrow> ('s \<Rightarrow> bytes \<Rightarrow> bytes \<Rightarrow> 's \<times> (hub_error + bool)) \<Rightarrow> 's \<Rightarrow> 's \<times> (hub_error + bool)" where
  "for_each_iterator_by_prefix ops db start_prefix stop_prefix po f s =
     for_each_iterator_by_prefix_paged ops db start_prefix stop_prefix (po\<lparr>page_size := None\<rparr>) f s"

definition count_keys_at_prefix ::
  "'e engine_ops \<Rightarrow> 'e rocksdb \<Rightarrow> bytes \<Rightarrow> hub_error + u32" where
  "count_keys_at_prefix ops db p =
     (let io = get_iterator_options (Some p) (Some (increment_vec_u8 p)) default_page_options;
          count = (\<lambda>e. word_of_nat (length (raw_range ops e (lower_bound io) (upper_bound io))))
      in case db of
        Some (TransactionDb e) \<Rightarrow> Inr (count e)
      | Some (ReadOnlyDb e) \<Rightarrow> Inr (count e)
      | None \<Rightarrow> Inl (hub_error_from_rocksdb DbNotOpen))"

definition get_next_by_index ::
  "'e engine_ops \<Rightarrow> 'e rocksdb \<Rightarrow> bytes \<Rightarrow> bytes \<Rightarrow> hub_error + bytes option" where
  "get_next_by_index ops db index_prefix start =
     (case for_each_iterator_by_prefix ops db (Some start) (Some (increment_vec_u8 index_prefix))
             (default_page_options\<lparr>page_size := Some 1\<rparr>) (\<lambda>_ _ index. (Some index, Inr True)) None of
        (_, Inl e) \<Rightarrow> Inl e
      | (None, Inr _) \<Rightarrow> Inr None
      | (Some primary_key, Inr _) \<Rightarrow>
          (case db_get ops db primary_key of
             Inl e \<Rightarrow> Inl (hub_error_from_rocksdb e)
           | Inr None \<Rightarrow> Inl (not_found ''No value found for the given key'')
           | Inr (Some v) \<Rightarrow> Inr (Some v)))"

definition delete_page ::
  "'e engine_ops \<Rightarrow> 'e rocksdb \<Rightarrow> bytes option \<Rightarrow> bytes option \<Rightarrow> page_options
     \<Rightarrow> hub_error + (u32 \<times> 'e rocksdb)" where
  "delete_page ops db start_prefix stop_prefix po =
     (case for_each_iterator_by_prefix_paged ops db start_prefix stop_prefix po
             (\<lambda>txn k _. (txn_delete txn k, Inr False)) txn_new of
        (_, Inl e) \<Rightarrow> Inl e
      | (txn, Inr _) \<Rightarrow>
          (case db_commit ops db txn of
             Inl e \<Rightarrow> Inl (hub_error_from_rocksdb e)
           | Inr db' \<Rightarrow> Inr (word_of_nat (length txn), db')))"

text \<open>The unbounded loop of \<open>delete_paginated\<close>, without its throttle and progress callback.\<close>

fun delete_paginated ::
  "nat \<Rightarrow> 'e engine_ops \<Rightarrow> 'e rocksdb \<Rightarrow> bytes option \<Rightarrow> bytes option \<Rightarrow> page_options
     \<Rightarrow> u32 \<Rightarrow> (hub_error + (u32 \<times> 'e rocksdb)) option" where
  "delete_paginated 0 ops db start_prefix stop_prefix po deleted = None"
| "delete_paginated (Suc fuel) ops db start_prefix stop_prefix po deleted =
     (case delete_page ops db start_prefix stop_prefix po of
        Inl e \<Rightarrow> Some (Inl e)
      | Inr (count, db') \<Rightarrow>
          if count = 0 then Some (Inr (deleted, db'))
          else delete_paginated fuel ops db' start_prefix stop_prefix po (deleted + count))"

section \<open>What the iteration visits\<close>

lemma iterate_items_visits:
  "iterate_items (\<lambda>s k v. (g s k v, Inr False)) limit c s items =
     (foldl (\<lambda>s (k, v). g s k v) s
        (case limit of None \<Rightarrow> items | Some n \<Rightarrow> take (max 1 (n - c)) items), Inr True)"
proof (induction items arbitrary: c s)
  case (Cons kv items)
  then show ?case
    by (cases kv; cases limit) (auto simp: max_def take_Cons' split: if_splits)
qed (simp split: option.splits)

text \<open>The rows one page holds: a limit of zero still lets one row through.\<close>

definition page_rows :: "nat option \<Rightarrow> 'a list \<Rightarrow> 'a list" where
  "page_rows limit items = (case limit of None \<Rightarrow> items | Some n \<Rightarrow> take (max 1 n) items)"

lemma iterate_items_page:
  "iterate_items (\<lambda>s k v. (g s k v, Inr False)) limit 0 s items =
     (foldl (\<lambda>s (k, v). g s k v) s (page_rows limit items), Inr True)"
  by (simp add: iterate_items_visits page_rows_def split: option.splits)

lemma page_rows_length: "length (page_rows limit items) \<le> length items"
  by (simp add: page_rows_def split: option.splits)

lemma page_rows_eq_Nil [simp]: "page_rows limit items = [] \<longleftrightarrow> items = []"
  by (auto simp: page_rows_def split: option.splits)

lemma page_rows_subset: "set (page_rows limit items) \<subseteq> set items"
  by (auto simp: page_rows_def dest: in_set_takeD split: option.splits)

lemma page_rows_distinct: "distinct (map fst items) \<Longrightarrow> distinct (map fst (page_rows limit items))"
  by (auto simp: page_rows_def take_map [symmetric] split: option.splits)

lemma deletes_map_of:
  "map_of (foldl (\<lambda>txn (k, v). txn_delete txn k) txn items) =
     (\<lambda>k. if k \<in> fst ` set items then Some None else map_of txn k)"
  by (induction items arbitrary: txn) (auto simp: fun_eq_iff)

lemma deletes_hm_ok: "hm_ok txn \<Longrightarrow> hm_ok (foldl (\<lambda>txn (k, v). txn_delete txn k) txn items)"
  by (induction items arbitrary: txn) auto

lemma deletes_length:
  assumes "distinct (map fst items)"
  shows "length (foldl (\<lambda>txn (k, v). txn_delete txn k) txn_new items) = length items"
proof -
  let ?t = "foldl (\<lambda>txn (k, v). txn_delete txn k) txn_new items"
  have "fst ` set ?t = dom (map_of ?t)" by (simp add: dom_map_of_conv_image_fst)
  also have "\<dots> = fst ` set items" by (auto simp: deletes_map_of dom_def split: if_splits)
  finally have eq: "set (map fst ?t) = set (map fst items)" by simp
  have "distinct (map fst ?t)" by (simp add: hm_ok_distinct deletes_hm_ok)
  then have "length (map fst ?t) = card (set (map fst ?t))" by (rule distinct_card [symmetric])
  also have "\<dots> = length (map fst items)" unfolding eq using assms by (rule distinct_card)
  finally show ?thesis by simp
qed

lemma delete_page_rows:
  assumes "engine_laws ops rows einv" "einv e"
    and "io = get_iterator_options start stop po"
    and "items = raw_range ops e (lower_bound io) (upper_bound io)"
  shows "\<exists>e' del. delete_page ops (Some (TransactionDb e)) start stop po
                = Inr (word_of_nat (length del), Some (TransactionDb e'))
           \<and> einv e' \<and> distinct (map fst del) \<and> set del \<subseteq> set items \<and> (del = [] \<longleftrightarrow> items = [])
           \<and> rows e' = (\<lambda>k. if k \<in> fst ` set del then None else rows e k)"
proof -
  let ?items = "if iter_reverse io then rev items else items"
  let ?del = "page_rows (page_size po) ?items"
  let ?txn = "foldl (\<lambda>txn (k, v). txn_delete txn k) txn_new ?del"
  have "hm_ok items" unfolding assms(4) by (rule engine_range_ok[OF assms(1,2)])
  then have dist: "distinct (map fst ?items)" by (auto dest: hm_ok_distinct simp: rev_map [symmetric])
  then have del: "distinct (map fst ?del)" by (rule page_rows_distinct)
  have run: "for_each_iterator_by_prefix_paged ops (Some (TransactionDb e)) start stop po
      (\<lambda>txn k _. (txn_delete txn k, Inr False)) txn_new = (?txn, Inr True)"
    by (simp add: for_each_iterator_by_prefix_paged_def iterate_with_opts_def iterate_items_page
        assms(3,4) Let_def)
  have "distinct (map fst ?txn)" by (simp add: hm_ok_distinct deletes_hm_ok)
  from db_commit_rows[OF assms(1,2) this] obtain e' where
    "db_commit ops (Some (TransactionDb e)) ?txn = Inr (Some (TransactionDb e'))" "einv e'"
    "rows e' = overlay (rows e) ?txn" by blast
  moreover have "overlay (rows e) ?txn = (\<lambda>k. if k \<in> fst ` set ?del then None else rows e k)"
    by (auto simp: overlay_def deletes_map_of fun_eq_iff)
  moreover have "set ?del \<subseteq> set items"
    using page_rows_subset[of "page_size po" ?items] by (simp split: if_splits)
  ultimately show ?thesis
    using run del by (intro exI[of _ e'] exI[of _ ?del])
      (simp add: delete_page_def deletes_length)
qed

lemma fst_image_rows: "fst ` {(k, v). m k = Some v \<and> P k} = {k \<in> dom m. P k}"
  by (auto simp: image_iff)

lemma delete_paginated_rows:
  assumes "engine_laws ops rows einv" "einv e"
    and "io = get_iterator_options start stop po"
    and "length (raw_range ops e (lower_bound io) (upper_bound io)) < fuel"
    and "length (raw_range ops e (lower_bound io) (upper_bound io)) < 2 ^ 32"
  shows "\<exists>e'. delete_paginated fuel ops (Some (TransactionDb e)) start stop po deleted
         = Some (Inr (deleted + word_of_nat (length (raw_range ops e (lower_bound io) (upper_bound io))),
                      Some (TransactionDb e')))
       \<and> einv e'
       \<and> rows e' = (\<lambda>k. if lower_bound io \<le> k \<and> k < upper_bound io then None else rows e k)"
  using assms(2,4,5)
proof (induction fuel arbitrary: e deleted)
  case (Suc fuel)
  let ?lo = "lower_bound io" and ?hi = "upper_bound io"
  let ?items = "raw_range ops e ?lo ?hi"
  have items: "hm_ok ?items" "set ?items = {(k, v). rows e k = Some v \<and> ?lo \<le> k \<and> k < ?hi}"
    by (rule engine_range_ok[OF assms(1) Suc.prems(1)] engine_range[OF assms(1) Suc.prems(1)])+
  from delete_page_rows[OF assms(1) Suc.prems(1) assms(3) refl] obtain e1 del where
    dp: "delete_page ops (Some (TransactionDb e)) start stop po
           = Inr (word_of_nat (length del), Some (TransactionDb e1))"
    and e1: "einv e1" "rows e1 = (\<lambda>k. if k \<in> fst ` set del then None else rows e k)"
    and del: "distinct (map fst del)" "set del \<subseteq> set ?items" "del = [] \<longleftrightarrow> ?items = []" by blast
  let ?items1 = "raw_range ops e1 ?lo ?hi"
  have items1: "hm_ok ?items1" "set ?items1 = {(k, v). rows e1 k = Some v \<and> ?lo \<le> k \<and> k < ?hi}"
    by (rule engine_range_ok[OF assms(1) e1(1)] engine_range[OF assms(1) e1(1)])+
  have keys: "fst ` set ?items = {k \<in> dom (rows e). ?lo \<le> k \<and> k < ?hi}"
    "fst ` set ?items1 = {k \<in> dom (rows e1). ?lo \<le> k \<and> k < ?hi}"
    unfolding items(2) items1(2) by (rule fst_image_rows)+
  have sub: "fst ` set del \<subseteq> {k \<in> dom (rows e). ?lo \<le> k \<and> k < ?hi}"
    using image_mono[OF del(2), of fst] by (simp only: keys)
  have dom1: "dom (rows e1) = dom (rows e) - fst ` set del"
    by (auto simp: e1(2) dom_def)
  have "fst ` set ?items = fst ` set del \<union> fst ` set ?items1"
    "fst ` set del \<inter> fst ` set ?items1 = {}"
    unfolding keys dom1 using sub by blast+
  then have "card (set (map fst ?items)) = card (set (map fst del)) + card (set (map fst ?items1))"
    by (simp add: card_Un_disjoint)
  then have len: "length ?items = length del + length ?items1"
    using del(1) hm_ok_distinct[OF items(1)] hm_ok_distinct[OF items1(1)]
    by (simp only: distinct_card length_map)
  show ?case
  proof (cases "?items = []")
    case True
    then have "rows e1 = (\<lambda>k. if ?lo \<le> k \<and> k < ?hi then None else rows e k)"
      using keys(1) del(3) by (auto simp: e1(2) fun_eq_iff dom_def)
    with True dp del(3) e1 show ?thesis by simp
  next
    case False
    then have "0 < length del" using del(3) by simp
    moreover have "length del < 2 ^ 32" using len Suc.prems(3) by simp
    ultimately have nz: "(word_of_nat (length del) :: u32) \<noteq> 0"
      by (simp add: word_of_nat_eq_0_iff nat_dvd_not_less)
    have "length ?items1 < fuel" "length ?items1 < 2 ^ 32"
      using len \<open>0 < length del\<close> Suc.prems(2,3) by linarith+
    from Suc.IH[OF e1(1) this, of "deleted + word_of_nat (length del)"] obtain e' where
      "delete_paginated fuel ops (Some (TransactionDb e1)) start stop po (deleted + word_of_nat (length del))
         = Some (Inr (deleted + word_of_nat (length del) + word_of_nat (length ?items1), Some (TransactionDb e')))"
      "einv e'" "rows e' = (\<lambda>k. if ?lo \<le> k \<and> k < ?hi then None else rows e1 k)" by blast
    moreover have "(\<lambda>k. if ?lo \<le> k \<and> k < ?hi then None else rows e1 k)
        = (\<lambda>k. if ?lo \<le> k \<and> k < ?hi then None else rows e k)"
      using sub by (auto simp: e1(2) fun_eq_iff)
    ultimately show ?thesis using nz dp by (simp add: len add.assoc)
  qed
qed simp

end
