(* ===== verification/Trie_Node.thy ===== *)
theory Trie_Node
  imports Kv_Store
begin

text \<open>
  \<open>src/storage/trie/trie_node.rs\<close>: the node of the Merkle trie and its operations. The maps of a node
  are lists sorted by their key. A failing call returns the failure only: the caller drops the node and
  the batch it was working on. The access times and the read counters are not modelled.
\<close>

section \<open>Nodes and failures\<close>

definition UNCOMPACTED_LENGTH :: nat where
  "UNCOMPACTED_LENGTH = 12"

definition MAX_VALUES_RETURNED_PER_CALL :: nat where
  "MAX_VALUES_RETURNED_PER_CALL = 1024"

datatype trie_node =
  TrieNode (tn_items: nat) (tn_children: "(u8 \<times> trie_node_type) list")
    (tn_child_hashes: "(u8 \<times> bytes) list") (tn_key: "bytes option")
and trie_node_type = Node trie_node | Serialized

datatype trie_error =
    DatabaseError rocksdb_error
  | NodeNotFound bytes
  | ChildNotFound u8 bytes
  | InvalidChildNode u8
  | DeserializationError
  | TrieNotInitialized
  | InvalidPageToken string
  | TokenDecodeError string
  | InvalidState string
  | OutdatedHash
  | NoKeysToInsert
  | KeyLengthExceeded
  | UnableToReloadRoot
  | KeyLengthTooShort
  | UnknownBranchingFactor

text \<open>Besides the errors of the code: a panic, and the fuel of the model running out.\<close>

datatype trie_failure = Error trie_error | Panicked | OutOfFuel

type_synonym 'a tr = "trie_failure + 'a"

text \<open>The protobuf message a node is stored as.\<close>

record db_trie_node =
  dn_key :: bytes
  dn_child_chars :: "u32 list"
  dn_items :: u32
  dn_child_hashes :: "(u32 \<times> bytes) list"

text \<open>What the trie calls and this repository does not contain: the hash, the protobuf codec, the database.\<close>

record trie_env =
  env_blake3 :: "bytes \<Rightarrow> bytes"
  env_encode :: "db_trie_node \<Rightarrow> bytes"
  env_decode :: "bytes \<Rightarrow> db_trie_node option"
  env_get :: db_read

definition default_node :: trie_node where
  "default_node = TrieNode 0 [] [] None"

definition MerkleTrieNode_prefix :: u8 where
  "MerkleTrieNode_prefix = 8"

definition make_primary_key :: "bytes \<Rightarrow> u8 option \<Rightarrow> bytes" where
  "make_primary_key pfx child_char =
     MerkleTrieNode_prefix # pfx @ (case child_char of Some c \<Rightarrow> [c] | None \<Rightarrow> [])"

definition serialize_node :: "trie_env \<Rightarrow> trie_node \<Rightarrow> bytes" where
  "serialize_node env n = env_encode env
     \<lparr>dn_key = (case tn_key n of Some k \<Rightarrow> k | None \<Rightarrow> []),
      dn_child_chars = map (\<lambda>(c, _). ucast c) (tn_children n),
      dn_items = word_of_nat (tn_items n),
      dn_child_hashes = map (\<lambda>(c, h). (ucast c, h)) (tn_child_hashes n)\<rparr>"

definition deserialize_node :: "trie_env \<Rightarrow> bytes \<Rightarrow> trie_node tr" where
  "deserialize_node env b =
     (case env_decode env b of
        None \<Rightarrow> Inl (Error DeserializationError)
      | Some d \<Rightarrow> Inr (TrieNode (unat (dn_items d))
          (foldl (\<lambda>m c. hm_insert (ucast c) Serialized m) [] (dn_child_chars d))
          (foldl (\<lambda>m (c, h). hm_insert (ucast c) h m) [] (dn_child_hashes d))
          (if dn_key d = [] then None else Some (dn_key d))))"

definition is_leaf :: "trie_node \<Rightarrow> bool" where
  "is_leaf n \<longleftrightarrow> tn_children n = []"

definition tn_hash :: "trie_env \<Rightarrow> trie_node \<Rightarrow> bytes tr" where
  "tn_hash env n =
     (if is_leaf n then
        (case tn_key n of
           None \<Rightarrow> Inr []
         | Some k \<Rightarrow> if k = [] then Inl Panicked else Inr (blake3_20 (env_blake3 env) k))
      else if tn_child_hashes n = [] then Inr []
      else Inr (blake3_20 (env_blake3 env) (concat (map snd (tn_child_hashes n)))))"

definition tn_value :: "trie_node \<Rightarrow> bytes option" where
  "tn_value n = (if is_leaf n then tn_key n else None)"

section \<open>Children, hashes and rows\<close>

definition load_child :: "trie_env \<Rightarrow> bytes \<Rightarrow> u8 \<Rightarrow> trie_node_type \<Rightarrow> trie_node tr" where
  "load_child env pfx c ct =
     (case ct of
        Node m \<Rightarrow> Inr m
      | Serialized \<Rightarrow>
          (case env_get env (make_primary_key pfx (Some c)) of
             Inl e \<Rightarrow> Inl (Error (DatabaseError e))
           | Inr None \<Rightarrow> Inr default_node
           | Inr (Some b) \<Rightarrow> (case deserialize_node env b of Inl _ \<Rightarrow> Inl Panicked | Inr m \<Rightarrow> Inr m)))"

text \<open>The callers put the loaded child back with \<open>put_child\<close>.\<close>

definition get_or_load_child :: "trie_env \<Rightarrow> trie_node \<Rightarrow> bytes \<Rightarrow> u8 \<Rightarrow> trie_node tr" where
  "get_or_load_child env n pfx c =
     (case map_of (tn_children n) c of
        Some ct \<Rightarrow> load_child env pfx c ct
      | None \<Rightarrow> Inl (Error (ChildNotFound c pfx)))"

definition put_child :: "trie_node \<Rightarrow> u8 \<Rightarrow> trie_node \<Rightarrow> trie_node" where
  "put_child n c child =
     TrieNode (tn_items n) (hm_insert c (Node child) (tn_children n)) (tn_child_hashes n) (tn_key n)"

definition set_child_hashes :: "trie_node \<Rightarrow> (u8 \<times> bytes) list \<Rightarrow> trie_node" where
  "set_child_hashes n chs = TrieNode (tn_items n) (tn_children n) chs (tn_key n)"

definition set_items :: "trie_node \<Rightarrow> nat \<Rightarrow> trie_node" where
  "set_items n i = TrieNode i (tn_children n) (tn_child_hashes n) (tn_key n)"

definition set_key :: "trie_node \<Rightarrow> bytes option \<Rightarrow> trie_node" where
  "set_key n k = TrieNode (tn_items n) (tn_children n) (tn_child_hashes n) k"

definition remove_child :: "trie_node \<Rightarrow> u8 \<Rightarrow> trie_node" where
  "remove_child n c = TrieNode (tn_items n) (hm_remove c (tn_children n)) (tn_child_hashes n) (tn_key n)"

definition update_hash :: "trie_env \<Rightarrow> trie_node \<Rightarrow> (u8 \<times> bytes) list \<Rightarrow> bytes \<Rightarrow> (u8 \<times> bytes) list tr" where
  "update_hash env n child_hashes pfx =
     (if pfx = [] then Inr child_hashes
      else case tn_hash env n of
        Inl e \<Rightarrow> Inl e
      | Inr h \<Rightarrow> Inr (if h = [] then hm_remove (last pfx) child_hashes
                       else hm_insert (last pfx) h child_hashes))"

definition put_to_txn :: "trie_env \<Rightarrow> trie_node \<Rightarrow> txn_batch \<Rightarrow> bytes \<Rightarrow> txn_batch" where
  "put_to_txn env n txn pfx = txn_put txn (make_primary_key pfx None) (serialize_node env n)"

definition delete_to_txn :: "txn_batch \<Rightarrow> bytes \<Rightarrow> txn_batch" where
  "delete_to_txn txn pfx = txn_delete txn (make_primary_key pfx None)"

lemma tn_sel_simps [simp]:
  "tn_items (put_child n c m) = tn_items n"
  "tn_children (put_child n c m) = hm_insert c (Node m) (tn_children n)"
  "tn_child_hashes (put_child n c m) = tn_child_hashes n"
  "tn_key (put_child n c m) = tn_key n"
  "tn_items (set_child_hashes n chs) = tn_items n"
  "tn_children (set_child_hashes n chs) = tn_children n"
  "tn_child_hashes (set_child_hashes n chs) = chs"
  "tn_key (set_child_hashes n chs) = tn_key n"
  "tn_items (set_items n i) = i"
  "tn_children (set_items n i) = tn_children n"
  "tn_child_hashes (set_items n i) = tn_child_hashes n"
  "tn_key (set_items n i) = tn_key n"
  "tn_items (set_key n k) = tn_items n"
  "tn_children (set_key n k) = tn_children n"
  "tn_child_hashes (set_key n k) = tn_child_hashes n"
  "tn_key (set_key n k) = k"
  "tn_items (remove_child n c) = tn_items n"
  "tn_children (remove_child n c) = hm_remove c (tn_children n)"
  "tn_child_hashes (remove_child n c) = tn_child_hashes n"
  "tn_key (remove_child n c) = tn_key n"
  by (simp_all add: put_child_def set_child_hashes_def set_items_def set_key_def remove_child_def)

section \<open>Grouping keys by their next nibble\<close>

definition push_group ::
  "nat \<Rightarrow> (u8 \<times> (nat list \<times> bytes list)) list \<Rightarrow> nat \<times> bytes \<Rightarrow> (u8 \<times> (nat list \<times> bytes list)) list" where
  "push_group idx groups ik =
     (let c = snd ik ! idx;
          entry = (case map_of groups c of Some g \<Rightarrow> g | None \<Rightarrow> ([], []))
      in hm_insert c (fst entry @ [fst ik], snd entry @ [snd ik]) groups)"

definition group_keys :: "nat \<Rightarrow> (nat \<times> bytes) list \<Rightarrow> (u8 \<times> (nat list \<times> bytes list)) list" where
  "group_keys idx remaining = foldl (push_group idx) [] remaining"

text \<open>Write the results of a child back to the positions of its keys and count the successes.\<close>

fun spread_results :: "nat list \<Rightarrow> bool list \<Rightarrow> bool list \<times> nat \<Rightarrow> bool list \<times> nat" where
  "spread_results (i # is) (r # rs) (results, successes) =
     spread_results is rs (results[i := r], if r then successes + 1 else successes)"
| "spread_results _ _ acc = acc"

section \<open>Insertion\<close>

text \<open>
  The recursive call is the argument \<open>ins\<close> of every phase; \<open>tn_insert\<close> ties the knot on its fuel.
  The result is the node, the parent's child hashes, the batch and the result flags.
\<close>

type_synonym node_result = "(trie_node \<times> (u8 \<times> bytes) list \<times> txn_batch \<times> bool list) tr"
type_synonym node_call =
  "trie_node \<Rightarrow> (u8 \<times> bytes) list \<Rightarrow> txn_batch \<Rightarrow> bytes list \<Rightarrow> nat \<Rightarrow> node_result"

fun insert_groups ::
  "node_call \<Rightarrow> trie_env \<Rightarrow> bytes \<Rightarrow> nat \<Rightarrow> (u8 \<times> (nat list \<times> bytes list)) list
     \<Rightarrow> trie_node \<times> txn_batch \<times> bool list \<times> nat \<Rightarrow> (trie_node \<times> txn_batch \<times> bool list \<times> nat) tr" where
  "insert_groups ins env pfx idx [] st = Inr st"
| "insert_groups ins env pfx idx ((c, (is, keys)) # groups) (n, txn, results, successes) =
     (let n1 = (if c \<in> fst ` set (tn_children n) then n else put_child n c default_node)
      in case get_or_load_child env n1 pfx c of
        Inl e \<Rightarrow> Inl e
      | Inr child \<Rightarrow>
          (case ins child (tn_child_hashes n1) txn keys (idx + 1) of
             Inl e \<Rightarrow> Inl e
           | Inr (child', child_hashes, txn', child_results) \<Rightarrow>
               (let (results', successes') = spread_results is child_results (results, successes)
                in insert_groups ins env pfx idx groups
                     (set_child_hashes (put_child n1 c child') child_hashes, txn', results', successes'))))"

definition insert_children ::
  "node_call \<Rightarrow> trie_env \<Rightarrow> trie_node \<Rightarrow> (u8 \<times> bytes) list \<Rightarrow> txn_batch \<Rightarrow> bytes
     \<Rightarrow> (nat \<times> bytes) list \<Rightarrow> bool list \<Rightarrow> nat \<Rightarrow> node_result" where
  "insert_children ins env n child_hashes txn pfx remaining results idx =
     (if list_ex (\<lambda>(_, key). idx \<ge> length key) remaining then Inl (Error KeyLengthExceeded)
      else case insert_groups ins env pfx idx (group_keys idx remaining) (n, txn, results, 0) of
        Inl e \<Rightarrow> Inl e
      | Inr (n1, txn1, results1, successes) \<Rightarrow>
          if successes > 0 then
            (let n2 = set_items n1 (tn_items n1 + successes)
             in case update_hash env n2 child_hashes pfx of
               Inl e \<Rightarrow> Inl e
             | Inr child_hashes' \<Rightarrow> Inr (n2, child_hashes', put_to_txn env n2 txn1 pfx, results1))
          else Inr (n1, child_hashes, txn1, results1))"

definition split_leaf_node ::
  "node_call \<Rightarrow> trie_env \<Rightarrow> trie_node \<Rightarrow> txn_batch \<Rightarrow> nat \<Rightarrow> (trie_node \<times> txn_batch) tr" where
  "split_leaf_node ins env n txn idx =
     (case tn_key n of
        None \<Rightarrow> Inl Panicked
      | Some key \<Rightarrow>
          (case slice_to key idx of
             None \<Rightarrow> Inl Panicked
           | Some pfx \<Rightarrow>
               (case index_at key idx of
                  None \<Rightarrow> Inl Panicked
                | Some c \<Rightarrow>
                    (case ins default_node (tn_child_hashes n) txn [key] (idx + 1) of
                       Inl e \<Rightarrow> Inl e
                     | Inr (child, child_hashes, txn', _) \<Rightarrow>
                         (case tn_hash env child of
                            Inl e \<Rightarrow> Inl e
                          | Inr h \<Rightarrow>
                              (let n' = set_child_hashes (put_child (set_key n None) c child)
                                          (hm_insert c h child_hashes)
                               in Inr (n', put_to_txn env n' txn' pfx)))))))"

text \<open>The first phase at a leaf: the last key of the call goes into an empty leaf.\<close>

definition insert_at_leaf ::
  "trie_env \<Rightarrow> trie_node \<Rightarrow> (u8 \<times> bytes) list \<Rightarrow> txn_batch \<Rightarrow> bytes list \<Rightarrow> bytes \<Rightarrow> bool list
     \<Rightarrow> (trie_node \<times> (u8 \<times> bytes) list \<times> txn_batch \<times> bytes list \<times> bool list \<times> bool) tr" where
  "insert_at_leaf env n child_hashes txn keys pfx results =
     (case tn_key n of
        Some _ \<Rightarrow> Inr (n, child_hashes, txn, keys, results, False)
      | None \<Rightarrow>
          (let key = last keys
           in if key = [] then Inl Panicked
              else let n1 = set_items (set_key n (Some key)) (tn_items n + 1)
                   in case update_hash env n1 child_hashes pfx of
                     Inl e \<Rightarrow> Inl e
                   | Inr child_hashes' \<Rightarrow>
                       Inr (n1, child_hashes', put_to_txn env n1 txn pfx, butlast keys,
                            results[0 := True], True)))"

definition leaf_key :: "trie_node \<Rightarrow> bytes" where
  "leaf_key n = (case tn_key n of Some k \<Rightarrow> k | None \<Rightarrow> [])"

definition insert_step :: "node_call \<Rightarrow> trie_env \<Rightarrow> node_call" where
  "insert_step ins env n child_hashes txn keys idx =
     (if keys = [] then Inl (Error NoKeysToInsert)
      else case slice_to (hd keys) idx of
        None \<Rightarrow> Inl Panicked
      | Some pfx \<Rightarrow>
          (let results = map (\<lambda>_. False) keys
           in if idx \<ge> UNCOMPACTED_LENGTH \<and> is_leaf n then
                (case insert_at_leaf env n child_hashes txn keys pfx results of
                   Inl e \<Rightarrow> Inl e
                 | Inr (n1, child_hashes1, txn1, keys1, results1, inserted) \<Rightarrow>
                     if keys1 = [] then Inr (n1, child_hashes1, txn1, results1)
                     else
                       (let remaining = map (\<lambda>(i, k). (i + (if inserted then 1 else 0), k))
                              (filter (\<lambda>(i, k). bytes_compare (leaf_key n1) k \<noteq> 0) (enumerate 0 keys1))
                        in if remaining = [] then Inr (n1, child_hashes1, txn1, results1)
                           else case split_leaf_node ins env n1 txn1 idx of
                             Inl e \<Rightarrow> Inl e
                           | Inr (n2, txn2) \<Rightarrow>
                               insert_children ins env n2 child_hashes1 txn2 pfx remaining results1 idx))
              else insert_children ins env n child_hashes txn pfx (enumerate 0 keys) results idx))"

primrec tn_insert :: "nat \<Rightarrow> trie_env \<Rightarrow> node_call" where
  "tn_insert 0 env = (\<lambda>_ _ _ _ _. Inl OutOfFuel)"
| "tn_insert (Suc fuel) env = insert_step (tn_insert fuel env) env"

section \<open>Deletion\<close>

fun find_match :: "bytes \<Rightarrow> bytes list \<Rightarrow> nat option" where
  "find_match k [] = None"
| "find_match k (key # keys) =
     (if bytes_compare k key = 0 then Some 0 else map_option Suc (find_match k keys))"

definition delete_at_leaf ::
  "trie_env \<Rightarrow> trie_node \<Rightarrow> (u8 \<times> bytes) list \<Rightarrow> txn_batch \<Rightarrow> bytes list \<Rightarrow> bytes \<Rightarrow> bool list \<Rightarrow> node_result" where
  "delete_at_leaf env n child_hashes txn keys pfx results =
     (case find_match (leaf_key n) keys of
        None \<Rightarrow> Inr (n, child_hashes, txn, results)
      | Some i \<Rightarrow>
          if tn_items n = 0 then Inl Panicked
          else let n1 = set_items (set_key n None) (tn_items n - 1)
               in case update_hash env n1 child_hashes pfx of
                 Inl e \<Rightarrow> Inl e
               | Inr child_hashes' \<Rightarrow> Inr (n1, child_hashes', delete_to_txn txn pfx, results[i := True]))"

fun delete_groups ::
  "node_call \<Rightarrow> trie_env \<Rightarrow> bytes \<Rightarrow> nat \<Rightarrow> (u8 \<times> (nat list \<times> bytes list)) list
     \<Rightarrow> trie_node \<times> txn_batch \<times> bool list \<times> nat \<Rightarrow> (trie_node \<times> txn_batch \<times> bool list \<times> nat) tr" where
  "delete_groups del env pfx idx [] st = Inr st"
| "delete_groups del env pfx idx ((c, (is, keys)) # groups) (n, txn, results, successes) =
     (if c \<notin> fst ` set (tn_children n) then
        delete_groups del env pfx idx groups
          (n, txn, foldl (\<lambda>rs i. rs[i := False]) results is, successes)
      else case get_or_load_child env n pfx c of
        Inl e \<Rightarrow> Inl e
      | Inr child \<Rightarrow>
          (case del child (tn_child_hashes n) txn keys (idx + 1) of
             Inl e \<Rightarrow> Inl e
           | Inr (child', child_hashes, txn', child_results) \<Rightarrow>
               (let n1 = set_child_hashes (put_child n c child') child_hashes;
                    n2 = (if tn_items child' = 0
                          then set_child_hashes (remove_child n1 c) (hm_remove c child_hashes)
                          else n1);
                    (results', successes') = spread_results is child_results (results, successes)
                in delete_groups del env pfx idx groups (n2, txn', results', successes'))))"

text \<open>The compaction step: the only child hands its key to the node. The row deleted for the child is
  the one at \<open>make_primary_key\<close> of \<open>make_primary_key\<close>, as in the code.\<close>

definition compact_node :: "trie_env \<Rightarrow> trie_node \<Rightarrow> txn_batch \<Rightarrow> bytes \<Rightarrow> (trie_node \<times> txn_batch) tr" where
  "compact_node env n txn pfx =
     (let c = fst (hd (tn_children n))
      in case get_or_load_child env n pfx c of
        Inl e \<Rightarrow> Inl e
      | Inr child \<Rightarrow>
          (case tn_key child of
             None \<Rightarrow> Inr (put_child n c child, txn)
           | Some key \<Rightarrow>
               if key = [] then Inl Panicked
               else Inr (remove_child (set_key n (Some key)) c,
                         delete_to_txn txn (make_primary_key pfx (Some c)))))"

definition delete_finish ::
  "trie_env \<Rightarrow> trie_node \<Rightarrow> (u8 \<times> bytes) list \<Rightarrow> txn_batch \<Rightarrow> bytes \<Rightarrow> bool list \<Rightarrow> nat \<Rightarrow> node_result" where
  "delete_finish env n child_hashes txn pfx results idx =
     (if tn_items n = 0 then
        (case update_hash env n child_hashes pfx of
           Inl e \<Rightarrow> Inl e
         | Inr child_hashes' \<Rightarrow> Inr (n, child_hashes', delete_to_txn txn pfx, results))
      else case (if tn_items n = 1 \<and> length (tn_children n) = 1 \<and> idx \<ge> UNCOMPACTED_LENGTH
                 then compact_node env n txn pfx else Inr (n, txn)) of
        Inl e \<Rightarrow> Inl e
      | Inr (n1, txn1) \<Rightarrow>
          (case update_hash env n1 child_hashes pfx of
             Inl e \<Rightarrow> Inl e
           | Inr child_hashes' \<Rightarrow> Inr (n1, child_hashes', put_to_txn env n1 txn1 pfx, results)))"

definition delete_step :: "node_call \<Rightarrow> trie_env \<Rightarrow> node_call" where
  "delete_step del env n child_hashes txn keys idx =
     (if keys = [] then Inl Panicked
      else case slice_to (hd keys) idx of
        None \<Rightarrow> Inl Panicked
      | Some pfx \<Rightarrow>
          (let results = map (\<lambda>_. False) keys
           in if is_leaf n then delete_at_leaf env n child_hashes txn keys pfx results
              else if list_ex (\<lambda>key. idx \<ge> length key) keys then Inl (Error KeyLengthExceeded)
              else case delete_groups del env pfx idx (group_keys idx (enumerate 0 keys)) (n, txn, results, 0) of
                Inl e \<Rightarrow> Inl e
              | Inr (n1, txn1, results1, successes) \<Rightarrow>
                  if successes > 0 then
                    (if tn_items n1 < successes then Inl Panicked
                     else delete_finish env (set_items n1 (tn_items n1 - successes)) child_hashes txn1
                            pfx results1 idx)
                  else Inr (n1, child_hashes, txn1, results1)))"

primrec tn_delete :: "nat \<Rightarrow> trie_env \<Rightarrow> node_call" where
  "tn_delete 0 env = (\<lambda>_ _ _ _ _. Inl OutOfFuel)"
| "tn_delete (Suc fuel) env = delete_step (tn_delete fuel env) env"

section \<open>Lookup and traversal\<close>

text \<open>A lookup keeps the nodes it loads in memory, so it returns the node as well.\<close>

function tn_exists :: "trie_env \<Rightarrow> trie_node \<Rightarrow> bytes \<Rightarrow> nat \<Rightarrow> (bool \<times> trie_node) tr" where
  "tn_exists env n key idx =
     (if is_leaf n then Inr (bytes_compare (leaf_key n) key = 0, n)
      else if idx \<ge> length key then Inr (False, n)
      else let c = key ! idx
           in if c \<notin> fst ` set (tn_children n) then Inr (False, n)
              else case get_or_load_child env n (take idx key) c of
                Inl e \<Rightarrow> Inl e
              | Inr child \<Rightarrow>
                  (case tn_exists env child key (idx + 1) of
                     Inl e \<Rightarrow> Inl e
                   | Inr (found, child') \<Rightarrow> Inr (found, put_child n c child')))"
  by pat_completeness auto
termination
  by (relation "measure (\<lambda>(env, n, key, idx). length key - idx)") auto

declare tn_exists.simps [simp del]

text \<open>\<open>get_node_from_trie\<close> hands out a mutable reference; here the caller's use of it is the argument \<open>f\<close>.\<close>

function with_node_from_trie ::
  "trie_env \<Rightarrow> (trie_node \<Rightarrow> ('a \<times> trie_node) tr) \<Rightarrow> trie_node \<Rightarrow> bytes \<Rightarrow> nat \<Rightarrow> ('a option \<times> trie_node) tr" where
  "with_node_from_trie env f n pfx idx =
     (if idx = length pfx then
        (case f n of Inl e \<Rightarrow> Inl e | Inr (x, n') \<Rightarrow> Inr (Some x, n'))
      else if idx > length pfx then Inl Panicked
      else let c = pfx ! idx
           in if c \<notin> fst ` set (tn_children n) then Inr (None, n)
              else case get_or_load_child env n (take idx pfx) c of
                Inl Panicked \<Rightarrow> Inl Panicked
              | Inl _ \<Rightarrow> Inr (None, n)
              | Inr child \<Rightarrow>
                  (case with_node_from_trie env f child pfx (idx + 1) of
                     Inl e \<Rightarrow> Inl e
                   | Inr (x, child') \<Rightarrow> Inr (x, put_child n c child')))"
  by pat_completeness auto
termination
  by (relation "measure (\<lambda>(env, f, n, pfx, idx). length pfx - idx)") auto

declare with_node_from_trie.simps [simp del]

text \<open>The children are visited in ascending order until more than the maximum has been collected.\<close>

fun collect_children ::
  "(trie_node \<Rightarrow> bytes \<Rightarrow> (bytes list \<times> trie_node) tr) \<Rightarrow> trie_env \<Rightarrow> bytes \<Rightarrow> u8 list
     \<Rightarrow> bytes list \<times> trie_node \<Rightarrow> (bytes list \<times> trie_node) tr" where
  "collect_children rec env pfx [] acc = Inr acc"
| "collect_children rec env pfx (c # cs) (values, n) =
     (case get_or_load_child env n pfx c of
        Inl e \<Rightarrow> Inl e
      | Inr child \<Rightarrow>
          (case rec child (pfx @ [c]) of
             Inl e \<Rightarrow> Inl e
           | Inr (vs, child') \<Rightarrow>
               (if length (values @ vs) > MAX_VALUES_RETURNED_PER_CALL
                then Inr (values @ vs, put_child n c child')
                else collect_children rec env pfx cs (values @ vs, put_child n c child'))))"

primrec tn_get_all_values :: "nat \<Rightarrow> trie_env \<Rightarrow> trie_node \<Rightarrow> bytes \<Rightarrow> (bytes list \<times> trie_node) tr" where
  "tn_get_all_values 0 env = (\<lambda>_ _. Inl OutOfFuel)"
| "tn_get_all_values (Suc fuel) env = (\<lambda>n pfx.
     if is_leaf n then Inr ([leaf_key n], n)
     else collect_children (tn_get_all_values fuel env) env pfx (map fst (tn_children n)) ([], n))"

text \<open>
  Eviction. The clock is a parameter: \<open>stale path\<close> says that the node at that path has been idle for
  longer than the limit.
\<close>

primrec evict_stale_children :: "(bytes \<Rightarrow> bool) \<Rightarrow> bytes \<Rightarrow> trie_node \<Rightarrow> trie_node"
  and evict_type :: "(bytes \<Rightarrow> bool) \<Rightarrow> bytes \<Rightarrow> trie_node_type \<Rightarrow> trie_node_type" where
  "evict_stale_children stale path (TrieNode items children chs key) =
     TrieNode items (map (\<lambda>ct. (fst ct, snd ct (path @ [fst ct])))
       (map (map_prod id (\<lambda>ct p. evict_type stale p ct)) children)) chs key"
| "evict_type stale path (Node n) =
     (if stale path then Serialized else Node (evict_stale_children stale path n))"
| "evict_type stale path Serialized = Serialized"

end
