(* ===== verification/Trie_Invariant.thy ===== *)
theory Trie_Invariant
  imports Trie_Node
begin

text \<open>
  The representation invariant of the trie: \<open>wf_node env p n S\<close> says that the node \<open>n\<close>, found at path
  \<open>p\<close>, stores exactly the keys \<open>S\<close>, partly in memory and partly in the rows of the database. The shape
  and the hash of a node depend on \<open>S\<close> only, and the hash determines \<open>S\<close> unless two hashed byte
  strings collide.
\<close>

section \<open>What the trie relies on\<close>

definition hash32 :: "trie_env \<Rightarrow> bool" where
  "hash32 env \<longleftrightarrow> (\<forall>x. length (env_blake3 env x) = 32)"

definition codec_ok :: "trie_env \<Rightarrow> bool" where
  "codec_ok env \<longleftrightarrow> (\<forall>d. hm_ok (dn_child_hashes d) \<longrightarrow> env_decode env (env_encode env d) = Some d)"

lemma blake3_20_length [simp]: "hash32 env \<Longrightarrow> length (blake3_20 (env_blake3 env) x) = 20"
  by (simp add: hash32_def blake3_20_def BLAKE3_HASH_LEN_def)

section \<open>The invariant\<close>

inductive wf_node :: "trie_env \<Rightarrow> bytes \<Rightarrow> trie_node \<Rightarrow> bytes set \<Rightarrow> bool" for env where
  wf_leaf: "\<lbrakk>UNCOMPACTED_LENGTH \<le> length p; prefix p k; hm_ok chs;
      fst ` set chs \<subseteq> (if length p < length k then {k ! length p} else {})\<rbrakk>
    \<Longrightarrow> wf_node env p (TrieNode 1 [] chs (Some k)) {k}"
| wf_inner: "\<lbrakk>cs \<noteq> []; hm_ok cs; map fst chs = map fst cs;
      \<forall>c ct. (c, ct) \<in> set cs \<longrightarrow> (\<exists>m h. load_child env p c ct = Inr m \<and> wf_node env (p @ [c]) m (F c)
         \<and> tn_hash env m = Inr h \<and> map_of chs c = Some h);
      S = (\<Union>c \<in> fst ` set cs. F c); i = card S; UNCOMPACTED_LENGTH \<le> length p \<longrightarrow> 2 \<le> i\<rbrakk>
    \<Longrightarrow> wf_node env p (TrieNode i cs chs None) S"

text \<open>The part of the invariant that the loop over the children keeps.\<close>

definition wf_kids ::
  "trie_env \<Rightarrow> bytes \<Rightarrow> (u8 \<times> trie_node_type) list \<Rightarrow> (u8 \<times> bytes) list \<Rightarrow> (u8 \<Rightarrow> bytes set) \<Rightarrow> bool" where
  "wf_kids env p cs chs F \<longleftrightarrow> hm_ok cs \<and> map fst chs = map fst cs \<and>
     (\<forall>c ct. (c, ct) \<in> set cs \<longrightarrow> (\<exists>m h. load_child env p c ct = Inr m \<and> wf_node env (p @ [c]) m (F c)
         \<and> tn_hash env m = Inr h \<and> map_of chs c = Some h)) \<and>
     (\<forall>c. c \<notin> fst ` set cs \<longrightarrow> F c = {})"

text \<open>A node that holds nothing yet: a new child, or the root of an empty trie.\<close>

definition wf_or_empty :: "trie_env \<Rightarrow> bytes \<Rightarrow> trie_node \<Rightarrow> bytes set \<Rightarrow> bool" where
  "wf_or_empty env p n S \<longleftrightarrow> wf_node env p n S \<or> (n = default_node \<and> S = {})"

lemma wf_keys_prefix: "wf_node env p n S \<Longrightarrow> k \<in> S \<Longrightarrow> prefix p k"
proof (induction rule: wf_node.induct)
  case (wf_inner cs chs p F S i)
  then obtain c ct where c: "(c, ct) \<in> set cs" "k \<in> F c" by auto
  with wf_inner.IH have "prefix (p @ [c]) k" by blast
  then show ?case by (rule append_prefixD)
qed simp

lemma wf_finite_nonempty: "wf_node env p n S \<Longrightarrow> finite S \<and> S \<noteq> {}"
proof (induction rule: wf_node.induct)
  case (wf_inner cs chs p F S i)
  have kid: "finite (F c) \<and> F c \<noteq> {}" if "c \<in> fst ` set cs" for c
    using wf_inner.IH that by fastforce
  then have "finite S" unfolding wf_inner.hyps(4) by blast
  moreover have "F (fst (hd cs)) \<subseteq> S" "F (fst (hd cs)) \<noteq> {}"
    using wf_inner.hyps(1,4) kid[of "fst (hd cs)"] by auto
  ultimately show ?case by blast
qed simp

lemma wf_finite: "wf_node env p n S \<Longrightarrow> finite S"
  and wf_nonempty: "wf_node env p n S \<Longrightarrow> S \<noteq> {}"
  using wf_finite_nonempty by blast+

lemma wf_items: "wf_node env p n S \<Longrightarrow> tn_items n = card S"
  by (auto elim: wf_node.cases)

lemma wf_leaf_iff: "wf_node env p n S \<Longrightarrow> is_leaf n \<longleftrightarrow> UNCOMPACTED_LENGTH \<le> length p \<and> card S = 1"
  by (auto simp: is_leaf_def elim!: wf_node.cases)

lemma wf_leafE:
  assumes "wf_node env p n S" "is_leaf n"
  obtains k chs where "n = TrieNode 1 [] chs (Some k)" "S = {k}" "prefix p k" "hm_ok chs"
    "UNCOMPACTED_LENGTH \<le> length p" "fst ` set chs \<subseteq> (if length p < length k then {k ! length p} else {})"
  using assms by (auto simp: is_leaf_def elim!: wf_node.cases)

lemma prefix_snoc_nth: "prefix (p @ [c]) k \<longleftrightarrow> prefix p k \<and> length p < length k \<and> k ! length p = c"
proof
  assume "prefix p k \<and> length p < length k \<and> k ! length p = c"
  then obtain zs where "k = p @ zs" "zs \<noteq> []" "k ! length p = c" by (auto simp: prefix_def)
  then show "prefix (p @ [c]) k" by (cases zs) (auto simp: prefix_def)
qed (auto simp: prefix_def nth_append)

lemma wf_kids_keys:
  assumes "wf_kids env p cs chs F" "k \<in> F c"
  shows "prefix p k" "length p < length k" "k ! length p = c"
proof -
  have "c \<in> fst ` set cs" using assms by (auto simp: wf_kids_def)
  then obtain ct where "(c, ct) \<in> set cs" by auto
  with assms(1) obtain m where "wf_node env (p @ [c]) m (F c)" unfolding wf_kids_def by blast
  from wf_keys_prefix[OF this assms(2)] have "prefix (p @ [c]) k" .
  then show "prefix p k" "length p < length k" "k ! length p = c" by (simp_all add: prefix_snoc_nth)
qed

lemma wf_kids_finite: "wf_kids env p cs chs F \<Longrightarrow> finite (F c)"
  by (cases "c \<in> fst ` set cs") (force simp: wf_kids_def dest: wf_finite)+

lemma wf_kids_nonempty_iff: "wf_kids env p cs chs F \<Longrightarrow> F c \<noteq> {} \<longleftrightarrow> c \<in> fst ` set cs"
  by (force simp: wf_kids_def dest: wf_nonempty)

lemma wf_kids_disjoint: "wf_kids env p cs chs F \<Longrightarrow> c \<noteq> c' \<Longrightarrow> F c \<inter> F c' = {}"
  using wf_kids_keys(3) by blast

lemma wf_kids_group:
  assumes "wf_kids env p cs chs F"
  shows "F c = {k \<in> \<Union> (range F). k ! length p = c}"
  using wf_kids_keys(3)[OF assms] by auto

lemma wf_kids_Union: "wf_kids env p cs chs F \<Longrightarrow> (\<Union>c \<in> fst ` set cs. F c) = \<Union> (range F)"
  unfolding wf_kids_def by blast

lemma wf_kids_card_range: "wf_kids env p cs chs F \<Longrightarrow> finite (\<Union> (range F))"
  by (metis wf_kids_Union wf_kids_finite List.finite_set finite_UN finite_imageI)

lemma wf_innerI:
  assumes "wf_kids env p cs chs F" "S = \<Union> (range F)" "S \<noteq> {}" "i = card S"
    and "UNCOMPACTED_LENGTH \<le> length p \<Longrightarrow> 2 \<le> card S"
  shows "wf_node env p (TrieNode i cs chs None) S"
proof (rule wf_inner)
  show "cs \<noteq> []" using assms(1-3) by (force simp: wf_kids_def)
  show "S = (\<Union>c \<in> fst ` set cs. F c)" using wf_kids_Union[OF assms(1)] assms(2) by simp
qed (use assms in \<open>auto simp: wf_kids_def\<close>)

lemma wf_innerE:
  assumes "wf_node env p n S" "\<not> is_leaf n"
  obtains cs chs F where "n = TrieNode (card S) cs chs None" "wf_kids env p cs chs F" "cs \<noteq> []"
    "S = \<Union> (range F)" "UNCOMPACTED_LENGTH \<le> length p \<longrightarrow> 2 \<le> card S"
proof -
  from assms obtain cs chs F where n: "n = TrieNode (card S) cs chs None"
    and kids: "cs \<noteq> []" "hm_ok cs" "map fst chs = map fst cs"
      "\<forall>c ct. (c, ct) \<in> set cs \<longrightarrow> (\<exists>m h. load_child env p c ct = Inr m \<and> wf_node env (p @ [c]) m (F c)
         \<and> tn_hash env m = Inr h \<and> map_of chs c = Some h)"
    and S: "S = (\<Union>c \<in> fst ` set cs. F c)" "UNCOMPACTED_LENGTH \<le> length p \<longrightarrow> 2 \<le> card S"
    by (auto simp: is_leaf_def elim!: wf_node.cases)
  let ?F = "\<lambda>c. if c \<in> fst ` set cs then F c else {}"
  have "wf_kids env p cs chs ?F" unfolding wf_kids_def using kids by force
  moreover have "S = \<Union> (range ?F)" using S(1) by auto
  ultimately show thesis using n kids(1) S(2) by (intro that)
qed

lemma wf_hash_ok:
  assumes "wf_node env p n S" "hash32 env"
  obtains h where "tn_hash env n = Inr h" "length h = 20"
proof (cases "is_leaf n")
  case True
  from wf_leafE[OF assms(1) True] obtain k chs where
    "n = TrieNode 1 [] chs (Some k)" "prefix p k" "UNCOMPACTED_LENGTH \<le> length p" by metis
  moreover from this have "k \<noteq> []" by (auto simp: UNCOMPACTED_LENGTH_def)
  ultimately show thesis using that assms(2) by (simp add: tn_hash_def is_leaf_def)
next
  case False
  from wf_innerE[OF assms(1) False] obtain cs chs F where
    n: "n = TrieNode (card S) cs chs None" "wf_kids env p cs chs F" "cs \<noteq> []" by metis
  then have "chs \<noteq> []" by (auto simp: wf_kids_def)
  with n that assms(2) show thesis by (simp add: tn_hash_def is_leaf_def)
qed

section \<open>The keys are prefix free\<close>

lemma wf_prefix_free: "wf_node env p n S \<Longrightarrow> prefix_free S"
proof (induction rule: wf_node.induct)
  case (wf_leaf p k chs)
  then show ?case by (simp add: prefix_free_def)
next
  case (wf_inner cs chs p F S i)
  show ?case unfolding prefix_free_def
  proof (intro ballI impI)
    fix k k' assume "k \<in> S" "k' \<in> S" and pre: "prefix k k'"
    then obtain c ct c' ct' where c: "(c, ct) \<in> set cs" "k \<in> F c" and c': "(c', ct') \<in> set cs" "k' \<in> F c'"
      unfolding wf_inner.hyps(4) by auto
    have pk: "prefix (p @ [c]) k" using wf_inner.IH c by (blast dest: wf_keys_prefix)
    have pk': "prefix (p @ [c']) k'" using wf_inner.IH c' by (blast dest: wf_keys_prefix)
    have "prefix (p @ [c]) k'" using pk pre by (rule prefix_order.trans)
    with pk' have "c = c'" by (simp add: prefix_snoc_nth)
    with wf_inner.IH c c' have "prefix_free (F c)" by blast
    with c(2) c'(2) \<open>c = c'\<close> pre show "k = k'" by (auto simp: prefix_free_def)
  qed
qed

section \<open>The shape and the hash depend on the keys only\<close>

lemma wf_kidsI:
  assumes "hm_ok cs" "map fst chs = map fst cs"
    and "\<forall>c ct. (c, ct) \<in> set cs \<longrightarrow> (\<exists>m h. load_child env p c ct = Inr m \<and> wf_node env (p @ [c]) m (F c)
         \<and> tn_hash env m = Inr h \<and> map_of chs c = Some h)"
  shows "wf_kids env p cs chs (\<lambda>c. if c \<in> fst ` set cs then F c else {})"
  unfolding wf_kids_def using assms by force

lemma wf_kids_chars:
  assumes "wf_kids env p cs chs F"
  shows "fst ` set cs = (\<lambda>k. k ! length p) ` \<Union> (range F)"
proof -
  have "c \<in> fst ` set cs \<longleftrightarrow> (\<exists>k \<in> \<Union> (range F). k ! length p = c)" for c
    using wf_kids_nonempty_iff[OF assms, of c] wf_kids_group[OF assms, of c] by blast
  then show ?thesis by (auto simp: set_eq_iff image_iff)
qed

lemma wf_kids_child:
  assumes "wf_kids env p cs chs F" "c \<in> fst ` set cs"
  obtains ct m h where "(c, ct) \<in> set cs" "load_child env p c ct = Inr m"
    "wf_node env (p @ [c]) m (F c)" "tn_hash env m = Inr h" "map_of chs c = Some h"
proof -
  from assms(2) obtain ct where "(c, ct) \<in> set cs" by auto
  with assms(1) that show thesis unfolding wf_kids_def by blast
qed

lemma wf_kids_hashes_ok: "wf_kids env p cs chs F \<Longrightarrow> hm_ok chs"
  using hm_ok_map_fst_cong by (auto simp: wf_kids_def)

lemma wf_kids_hashes_None:
  assumes "wf_kids env p cs chs F" "c \<notin> fst ` set cs"
  shows "map_of chs c = None"
proof -
  have "set (map fst chs) = set (map fst cs)" using assms(1) by (simp add: wf_kids_def)
  with assms(2) show ?thesis by (simp add: map_of_eq_None_iff)
qed

lemma wf_hash_unique:
  assumes "wf_node env p n S" "wf_node env' p n' S" "env_blake3 env' = env_blake3 env"
  shows "tn_hash env n = tn_hash env' n'"
  using assms(1,2)
proof (induction arbitrary: n' rule: wf_node.induct)
  case (wf_leaf p k chs)
  then have "is_leaf n'" using wf_leaf_iff by fastforce
  from wf_leafE[OF wf_leaf.prems this] obtain k' chs' where
    "n' = TrieNode 1 [] chs' (Some k')" "{k} = {k'}" by metis
  then show ?case by (simp add: tn_hash_def is_leaf_def assms(3))
next
  case (wf_inner cs chs p F S i)
  have kids: "wf_kids env p cs chs (\<lambda>c. if c \<in> fst ` set cs then F c else {})" (is "wf_kids _ _ _ _ ?F")
    using wf_inner.hyps(2,3) wf_inner.IH by (intro wf_kidsI) blast+
  have S: "S = \<Union> (range ?F)" using wf_inner.hyps(4) by auto
  have "\<not> is_leaf n'"
    using wf_leaf_iff[OF wf_inner.prems] wf_inner.hyps(5,6) by auto
  from wf_innerE[OF wf_inner.prems this] obtain cs' chs' F' where n': "n' = TrieNode (card S) cs' chs' None"
    and kids': "wf_kids env' p cs' chs' F'" "cs' \<noteq> []" and S': "S = \<Union> (range F')" by metis
  have chars: "fst ` set cs = fst ` set cs'"
    by (simp only: wf_kids_chars[OF kids, folded S] wf_kids_chars[OF kids'(1), folded S'])
  have "map_of chs c = map_of chs' c" for c
  proof (cases "c \<in> fst ` set cs")
    case True
    then obtain ct where ct: "(c, ct) \<in> set cs" by auto
    with wf_inner.IH obtain m h where m: "tn_hash env m = Inr h" "map_of chs c = Some h"
      and IH: "\<And>n'. wf_node env' (p @ [c]) n' (F c) \<Longrightarrow> tn_hash env m = tn_hash env' n'" by blast
    from True chars kids'(1) obtain m' h' where
      m': "wf_node env' (p @ [c]) m' (F' c)" "tn_hash env' m' = Inr h'" "map_of chs' c = Some h'"
      by (metis wf_kids_child)
    have "F' c = ?F c"
      by (rule trans[OF wf_kids_group[OF kids'(1), of c, folded S']
            wf_kids_group[OF kids, of c, folded S, symmetric]])
    with True m'(1) have "wf_node env' (p @ [c]) m' (F c)" by simp
    from IH[OF this] m m' show ?thesis by simp
  next
    case False
    with chars wf_kids_hashes_None[OF kids] wf_kids_hashes_None[OF kids'(1)] show ?thesis by simp
  qed
  then have "chs = chs'"
    using wf_kids_hashes_ok[OF kids] wf_kids_hashes_ok[OF kids'(1)] by (intro hm_eqI) auto
  with n' kids'(2) wf_inner.hyps(1) show ?case by (simp add: tn_hash_def is_leaf_def assms(3))
qed

text \<open>Only the rows below the path of a node matter to it.\<close>

definition same_rows_below :: "trie_env \<Rightarrow> trie_env \<Rightarrow> bytes \<Rightarrow> bool" where
  "same_rows_below env env' p \<longleftrightarrow> env_blake3 env' = env_blake3 env \<and> env_decode env' = env_decode env \<and>
     (\<forall>q. prefix p q \<and> q \<noteq> p \<longrightarrow> env_get env' (make_primary_key q None) = env_get env (make_primary_key q None))"

lemma make_primary_key_Some: "make_primary_key p (Some c) = make_primary_key (p @ [c]) None"
  by (simp add: make_primary_key_def)

lemma make_primary_key_inject [simp]: "make_primary_key p None = make_primary_key q None \<longleftrightarrow> p = q"
  by (simp add: make_primary_key_def)

lemma tn_hash_cong: "env_blake3 env' = env_blake3 env \<Longrightarrow> tn_hash env' n = tn_hash env n"
  by (simp add: tn_hash_def split: option.splits)

lemma deserialize_node_cong: "env_decode env' = env_decode env \<Longrightarrow> deserialize_node env' = deserialize_node env"
  by (simp add: deserialize_node_def fun_eq_iff)

lemma load_child_cong:
  assumes "env_decode env' = env_decode env"
    and "env_get env' (make_primary_key (p @ [c]) None) = env_get env (make_primary_key (p @ [c]) None)"
  shows "load_child env' p c ct = load_child env p c ct"
  unfolding load_child_def make_primary_key_Some deserialize_node_cong[OF assms(1)] assms(2) ..

lemma wf_node_cong:
  assumes "wf_node env p n S" "same_rows_below env env' p"
  shows "wf_node env' p n S"
  using assms
proof (induction rule: wf_node.induct)
  case (wf_inner cs chs p F S i)
  have "\<forall>c ct. (c, ct) \<in> set cs \<longrightarrow> (\<exists>m h. load_child env' p c ct = Inr m \<and> wf_node env' (p @ [c]) m (F c)
         \<and> tn_hash env' m = Inr h \<and> map_of chs c = Some h)"
  proof (intro allI impI)
    fix c ct assume "(c, ct) \<in> set cs"
    with wf_inner.IH obtain m h where m: "load_child env p c ct = Inr m" "tn_hash env m = Inr h"
      "map_of chs c = Some h" "same_rows_below env env' (p @ [c]) \<Longrightarrow> wf_node env' (p @ [c]) m (F c)" by blast
    have "same_rows_below env env' (p @ [c])"
      using wf_inner.prems by (auto simp: same_rows_below_def prefix_snoc_nth)
    moreover have "load_child env' p c ct = Inr m"
      using wf_inner.prems m(1) load_child_cong[of env' env p c ct]
      by (simp add: same_rows_below_def prefix_snoc_nth)
    moreover have "tn_hash env' m = Inr h"
      using m(2) wf_inner.prems tn_hash_cong[of env' env m] by (simp add: same_rows_below_def)
    ultimately show "\<exists>m h. load_child env' p c ct = Inr m \<and> wf_node env' (p @ [c]) m (F c)
         \<and> tn_hash env' m = Inr h \<and> map_of chs c = Some h"
      using m by blast
  qed
  then show ?case using wf_inner.hyps by (intro wf_node.wf_inner) auto
qed (rule wf_node.wf_leaf; assumption)

section \<open>The hash determines the keys\<close>

text \<open>The byte strings that are hashed for a node and for everything below it.\<close>

inductive hashed :: "trie_env \<Rightarrow> bytes \<Rightarrow> trie_node \<Rightarrow> bytes \<Rightarrow> bool" for env where
  hashed_leaf: "hashed env p (TrieNode i [] chs (Some k)) k"
| hashed_self: "cs \<noteq> [] \<Longrightarrow> hashed env p (TrieNode i cs chs ky) (concat (map snd chs))"
| hashed_child: "(c, ct) \<in> set cs \<Longrightarrow> load_child env p c ct = Inr m \<Longrightarrow> hashed env (p @ [c]) m x
    \<Longrightarrow> hashed env p (TrieNode i cs chs ky) x"

lemma concat_eq_blocks:
  assumes "concat xs = concat ys" "\<forall>x\<in>set xs. length x = n" "\<forall>y\<in>set ys. length y = n" "0 < n"
  shows "xs = ys"
  using assms(1-3)
proof (induction xs arbitrary: ys)
  case Nil
  then show ?case using assms(4) by (cases ys) auto
next
  case (Cons x xs)
  then obtain y ys' where "ys = y # ys'" using assms(4) by (cases ys) auto
  with Cons show ?case by auto
qed

lemma length_concat_blocks: "\<forall>x\<in>set xs. length x = n \<Longrightarrow> length (concat xs) = n * length xs"
  by (induction xs) auto

lemma wf_kids_nth:
  assumes "wf_kids env p cs chs F" "i < length cs"
  obtains m where "load_child env p (fst (cs ! i)) (snd (cs ! i)) = Inr m"
    "wf_node env (p @ [fst (cs ! i)]) m (F (fst (cs ! i)))" "tn_hash env m = Inr (snd (chs ! i))"
    "cs ! i \<in> set cs"
proof -
  have fst: "map fst chs = map fst cs" using assms(1) by (simp add: wf_kids_def)
  then have len: "length chs = length cs" by (metis length_map)
  have "fst (chs ! i) = fst (cs ! i)"
    using arg_cong[OF fst, of "\<lambda>l. l ! i"] assms(2) len by simp
  then have "(fst (cs ! i), snd (chs ! i)) \<in> set chs"
    using assms(2) len by (metis nth_mem prod.collapse)
  then have hi: "map_of chs (fst (cs ! i)) = Some (snd (chs ! i))"
    by (rule map_of_is_SomeI[OF hm_ok_distinct[OF wf_kids_hashes_ok[OF assms(1)]]])
  have mem: "(fst (cs ! i), snd (cs ! i)) \<in> set cs" using assms(2) by simp
  with assms(1) obtain m h where "load_child env p (fst (cs ! i)) (snd (cs ! i)) = Inr m"
    "wf_node env (p @ [fst (cs ! i)]) m (F (fst (cs ! i)))" "tn_hash env m = Inr h"
    "map_of chs (fst (cs ! i)) = Some h" unfolding wf_kids_def by blast
  with hi mem that show thesis by simp
qed

lemma wf_kids_blocks:
  assumes "wf_kids env p cs chs F" "hash32 env"
  shows "\<forall>h\<in>set (map snd chs). length h = 20"
proof
  fix h assume "h \<in> set (map snd chs)"
  then obtain i where i: "i < length chs" "h = snd (chs ! i)" by (auto simp: in_set_conv_nth)
  have "map fst chs = map fst cs" using assms(1) by (simp add: wf_kids_def)
  then have "length chs = length cs" by (metis length_map)
  with i obtain m where "wf_node env (p @ [fst (cs ! i)]) m (F (fst (cs ! i)))" "tn_hash env m = Inr h"
    using wf_kids_nth[OF assms(1)] by metis
  then show "length h = 20" by (metis wf_hash_ok[OF _ assms(2)] sum.inject(2))
qed

lemma wf_kids_Union_nth:
  "wf_kids env p cs chs F \<Longrightarrow> \<Union> (range F) = (\<Union>i < length cs. F (fst (cs ! i)))"
proof -
  have "fst ` set cs = (\<lambda>i. fst (cs ! i)) ` {..< length cs}"
    by (auto simp: set_conv_nth image_iff)
  then show "wf_kids env p cs chs F \<Longrightarrow> \<Union> (range F) = (\<Union>i < length cs. F (fst (cs ! i)))"
    by (simp add: wf_kids_Union [symmetric])
qed

lemma wf_kids_match:
  assumes "wf_kids env p cs chs F" "wf_kids env' p' cs' chs' F'" "map snd chs = map snd chs'"
    and step: "\<And>i m m'. i < length cs \<Longrightarrow> load_child env p (fst (cs ! i)) (snd (cs ! i)) = Inr m
      \<Longrightarrow> load_child env' p' (fst (cs' ! i)) (snd (cs' ! i)) = Inr m'
      \<Longrightarrow> cs ! i \<in> set cs \<Longrightarrow> cs' ! i \<in> set cs'
      \<Longrightarrow> wf_node env (p @ [fst (cs ! i)]) m (F (fst (cs ! i)))
      \<Longrightarrow> wf_node env' (p' @ [fst (cs' ! i)]) m' (F' (fst (cs' ! i)))
      \<Longrightarrow> tn_hash env m = tn_hash env' m' \<Longrightarrow> F (fst (cs ! i)) = F' (fst (cs' ! i))"
  shows "\<Union> (range F) = \<Union> (range F')"
proof -
  have len: "length chs = length cs" "length chs' = length cs'" "length chs = length chs'"
    using assms(1,2) by (metis wf_kids_def length_map) (metis assms(2) wf_kids_def length_map, metis assms(3) length_map)
  have "F (fst (cs ! i)) = F' (fst (cs' ! i))" if i: "i < length cs" for i
  proof -
    obtain m where m: "load_child env p (fst (cs ! i)) (snd (cs ! i)) = Inr m"
      "wf_node env (p @ [fst (cs ! i)]) m (F (fst (cs ! i)))" "tn_hash env m = Inr (snd (chs ! i))"
      "cs ! i \<in> set cs" using wf_kids_nth[OF assms(1) i] .
    have i': "i < length cs'" using i len by simp
    obtain m' where m': "load_child env' p' (fst (cs' ! i)) (snd (cs' ! i)) = Inr m'"
      "wf_node env' (p' @ [fst (cs' ! i)]) m' (F' (fst (cs' ! i)))" "tn_hash env' m' = Inr (snd (chs' ! i))"
      "cs' ! i \<in> set cs'" using wf_kids_nth[OF assms(2) i'] .
    have "snd (chs ! i) = snd (chs' ! i)"
      using arg_cong[OF assms(3), of "\<lambda>l. l ! i"] i len by simp
    with step[OF i m(1) m'(1) m(4) m'(4) m(2) m'(2)] m(3) m'(3) show ?thesis by simp
  qed
  with len show ?thesis
    unfolding wf_kids_Union_nth[OF assms(1)] wf_kids_Union_nth[OF assms(2)] by simp
qed

lemma inner_hash:
  "cs \<noteq> [] \<Longrightarrow> wf_kids env p cs chs F \<Longrightarrow>
   tn_hash env (TrieNode i cs chs ky) = Inr (blake3_20 (env_blake3 env) (concat (map snd chs)))"
  by (auto simp: tn_hash_def is_leaf_def wf_kids_def)

lemma leaf_hash:
  "k \<noteq> [] \<Longrightarrow> tn_hash env (TrieNode i [] chs (Some k)) = Inr (blake3_20 (env_blake3 env) k)"
  by (simp add: tn_hash_def is_leaf_def)

text \<open>
  The preimages under consideration: those of two nodes, and no two of them collide. The lengths of
  the keys keep a leaf apart from an inner node, whose preimage is a sequence of 20-byte hashes.
\<close>

definition no_collision :: "(bytes \<Rightarrow> bytes) \<Rightarrow> bytes set \<Rightarrow> bool" where
  "no_collision blake3 X \<longleftrightarrow> inj_on (blake3_20 blake3) X"

lemma no_collisionD:
  "no_collision b X \<Longrightarrow> blake3_20 b x = blake3_20 b y \<Longrightarrow> x \<in> X \<Longrightarrow> y \<in> X \<Longrightarrow> x = y"
  by (simp add: no_collision_def inj_on_eq_iff)

lemma leaf_inner_differ:
  assumes "k \<noteq> []" "length k mod 20 \<noteq> 0" "wf_kids env' p' cs chs F" "cs \<noteq> []" "hash32 env'"
    and "no_collision (env_blake3 env') X" "k \<in> X" "concat (map snd chs) \<in> X"
    and "tn_hash env (TrieNode i [] chs' (Some k)) = tn_hash env' (TrieNode j cs chs ky)"
    and "env_blake3 env' = env_blake3 env"
  shows False
proof -
  have "blake3_20 (env_blake3 env') k = blake3_20 (env_blake3 env') (concat (map snd chs))"
    using assms(9) leaf_hash[OF assms(1)] inner_hash[OF assms(4,3)] assms(10) by simp
  then have "k = concat (map snd chs)" by (rule no_collisionD[OF assms(6) _ assms(7,8)])
  then have "length k = 20 * length (map snd chs)"
    using length_concat_blocks[OF wf_kids_blocks[OF assms(3,5)]] by simp
  with assms(2) show False by simp
qed

lemma wf_hash_determines:
  assumes "wf_node env p n S" "wf_node env' p' n' S'" "env_blake3 env' = env_blake3 env" "hash32 env"
    and "no_collision (env_blake3 env) ({x. hashed env p n x} \<union> {x. hashed env' p' n' x})"
    and "\<forall>k \<in> S \<union> S'. length k mod 20 \<noteq> 0" "tn_hash env n = tn_hash env' n'"
  shows "S = S'"
  using assms(1,2,5-7)
proof (induction arbitrary: p' n' S' rule: wf_node.induct)
  case (wf_leaf p k chs)
  have h32: "hash32 env'" using assms(3,4) by (simp add: hash32_def)
  have k: "k \<noteq> []" "k \<in> {x. hashed env p (TrieNode 1 [] chs (Some k)) x}"
    using wf_leaf.hyps(1,2) by (auto simp: UNCOMPACTED_LENGTH_def intro: hashed.intros)
  show ?case
  proof (cases "is_leaf n'")
    case True
    from wf_leafE[OF wf_leaf.prems(1) True] obtain k' chs' where
      n': "n' = TrieNode 1 [] chs' (Some k')" "S' = {k'}" "prefix p' k'" "UNCOMPACTED_LENGTH \<le> length p'" by metis
    then have "k' \<noteq> []" by (auto simp: UNCOMPACTED_LENGTH_def)
    with wf_leaf.prems(4) n'(1) k(1) have "blake3_20 (env_blake3 env) k = blake3_20 (env_blake3 env) k'"
      by (simp add: leaf_hash assms(3))
    moreover have "hashed env' p' n' k'" by (simp add: n'(1) hashed_leaf)
    ultimately have "k = k'" using no_collisionD[OF wf_leaf.prems(2)] k(2) by blast
    with n'(2) show ?thesis by simp
  next
    case False
    from wf_innerE[OF wf_leaf.prems(1) False] obtain cs chs' F where
      n': "n' = TrieNode (card S') cs chs' None" "wf_kids env' p' cs chs' F" "cs \<noteq> []" by metis
    let ?X = "{x. hashed env p (TrieNode 1 [] chs (Some k)) x} \<union> {x. hashed env' p' n' x}"
    have "hashed env' p' n' (concat (map snd chs'))" unfolding n'(1) by (rule hashed_self[OF n'(3)])
    then have X: "k \<in> ?X" "concat (map snd chs') \<in> ?X" using k(2) by blast+
    have "length k mod 20 \<noteq> 0" using wf_leaf.prems(3) by simp
    from leaf_inner_differ[OF k(1) this n'(2,3) h32 _ X wf_leaf.prems(4)[unfolded n'(1)] assms(3)]
    show ?thesis using wf_leaf.prems(2) assms(3) by simp
  qed
next
  case (wf_inner cs chs p F S i)
  have h32: "hash32 env'" using assms(3,4) by (simp add: hash32_def)
  have kids: "wf_kids env p cs chs (\<lambda>c. if c \<in> fst ` set cs then F c else {})" (is "wf_kids _ _ _ _ ?F")
    using wf_inner.hyps(2,3) wf_inner.IH by (intro wf_kidsI) blast+
  have S: "S = \<Union> (range ?F)" using wf_inner.hyps(4) by auto
  let ?n = "TrieNode i cs chs None"
  have self: "hashed env p ?n (concat (map snd chs))" by (rule hashed_self[OF wf_inner.hyps(1)])
  show ?case
  proof (cases "is_leaf n'")
    case True
    from wf_leafE[OF wf_inner.prems(1) True] obtain k' chs' where
      n': "n' = TrieNode 1 [] chs' (Some k')" "S' = {k'}" "prefix p' k'" "UNCOMPACTED_LENGTH \<le> length p'" by metis
    then have "k' \<noteq> []" by (auto simp: UNCOMPACTED_LENGTH_def)
    moreover have "hashed env' p' n' k'" by (simp add: n'(1) hashed_leaf)
    moreover have "length k' mod 20 \<noteq> 0" using wf_inner.prems(3) n'(2) by simp
    ultimately show ?thesis
      using leaf_inner_differ[OF _ _ kids wf_inner.hyps(1) assms(4) wf_inner.prems(2) _ _
          wf_inner.prems(4)[unfolded n'(1), symmetric] assms(3) [symmetric]] self by blast
  next
    case False
    from wf_innerE[OF wf_inner.prems(1) False] obtain cs' chs' F' where
      n': "n' = TrieNode (card S') cs' chs' None" "wf_kids env' p' cs' chs' F'" "cs' \<noteq> []"
      and S': "S' = \<Union> (range F')" by metis
    have "hashed env' p' n' (concat (map snd chs'))" unfolding n'(1) by (rule hashed_self[OF n'(3)])
    moreover have "blake3_20 (env_blake3 env) (concat (map snd chs)) = blake3_20 (env_blake3 env) (concat (map snd chs'))"
      using wf_inner.prems(4) inner_hash[OF wf_inner.hyps(1) kids] inner_hash[OF n'(3,2)] n'(1) assms(3) by simp
    ultimately have "concat (map snd chs) = concat (map snd chs')"
      using no_collisionD[OF wf_inner.prems(2)] self by blast
    then have snds: "map snd chs = map snd chs'"
      by (rule concat_eq_blocks[OF _ wf_kids_blocks[OF kids assms(4)] wf_kids_blocks[OF n'(2) h32]]) simp
    show ?thesis unfolding S S'
    proof (rule wf_kids_match[OF kids n'(2) snds])
      fix j m m'
      let ?c = "fst (cs ! j)" and ?c' = "fst (cs' ! j)"
      assume l: "load_child env p ?c (snd (cs ! j)) = Inr m" "load_child env' p' ?c' (snd (cs' ! j)) = Inr m'"
        and mem: "cs ! j \<in> set cs" "cs' ! j \<in> set cs'"
        and wf': "wf_node env' (p' @ [?c']) m' (F' ?c')" and eq: "tn_hash env m = tn_hash env' m'"
      have c: "(?c, snd (cs ! j)) \<in> set cs" using mem by simp
      have Fc: "?F ?c = F ?c" using mem(1) by simp
      have sub: "{x. hashed env (p @ [?c]) m x} \<union> {x. hashed env' (p' @ [?c']) m' x}
          \<subseteq> {x. hashed env p ?n x} \<union> {x. hashed env' p' n' x}"
        using hashed_child[OF c l(1)] hashed_child[of ?c' "snd (cs' ! j)" cs' env' p' m', OF _ l(2)] mem(2) n'(1) by auto
      have "F ?c \<subseteq> S" "F' ?c' \<subseteq> S'" using S S' mem(1) by auto
      with wf_inner.prems(3) have len: "\<forall>k \<in> F ?c \<union> F' ?c'. length k mod 20 \<noteq> 0" by blast
      from wf_inner.IH c l(1) obtain h where IH: "\<And>p' n' S'. wf_node env' p' n' S'
          \<Longrightarrow> no_collision (env_blake3 env) ({x. hashed env (p @ [?c]) m x} \<union> {x. hashed env' p' n' x})
          \<Longrightarrow> \<forall>k \<in> F ?c \<union> S'. length k mod 20 \<noteq> 0 \<Longrightarrow> tn_hash env m = tn_hash env' n' \<Longrightarrow> F ?c = S'"
        by (metis sum.inject(2))
      have "no_collision (env_blake3 env) ({x. hashed env (p @ [?c]) m x} \<union> {x. hashed env' (p' @ [?c']) m' x})"
        using wf_inner.prems(2) sub unfolding no_collision_def by (rule inj_on_subset)
      from IH[OF wf' this len eq] show "?F ?c = F' ?c'" unfolding Fc .
    qed
  qed
qed

end
