(* ===== verification/Trie_Insert.thy ===== *)
theory Trie_Insert
  imports Trie_Invariant
begin

text \<open>
  Insertion adds exactly the given keys: the node stays well formed, the count of inserted keys is right,
  the hash reaches the parent, and the rows written to the batch describe the new node.
\<close>

section \<open>Groups and result flags\<close>

definition trues :: "bool list \<Rightarrow> nat" where
  "trues rs = length (filter id rs)"

lemma trues_simps [simp]: "trues [] = 0" "trues (b # bs) = of_bool b + trues bs"
  by (simp_all add: trues_def)

lemma trues_all_False [simp]: "trues (map (\<lambda>_. False) xs) = 0"
  by (induction xs) simp_all

lemma trues_update_True: "i < length rs \<Longrightarrow> \<not> rs ! i \<Longrightarrow> trues (rs[i := b]) = trues rs + of_bool b"
  by (induction rs arbitrary: i) (auto split: nat.splits)

lemma spread_results_ok:
  assumes "length is = length rs" "distinct is" "\<forall>i\<in>set is. i < length results \<and> \<not> results ! i"
  shows "\<exists>results'. spread_results is rs (results, s) = (results', s + trues rs)
    \<and> length results' = length results \<and> trues results' = trues results + trues rs
    \<and> (\<forall>i. i \<notin> set is \<longrightarrow> results' ! i = results ! i)"
  using assms
proof (induction "is" rs arbitrary: results s rule: list_induct2)
  case (Cons i "is" r rs)
  let ?res = "results[i := r]"
  have "\<forall>j\<in>set is. j < length ?res \<and> \<not> ?res ! j"
    using Cons.prems by (auto simp: nth_list_update)
  from Cons.IH[OF _ this, of "s + of_bool r"] Cons.prems(1) obtain results' where
    "spread_results is rs (?res, s + of_bool r) = (results', s + of_bool r + trues rs)"
    "length results' = length ?res" "trues results' = trues ?res + trues rs"
    "\<forall>j. j \<notin> set is \<longrightarrow> results' ! j = ?res ! j" by auto
  moreover have "trues ?res = trues results + of_bool r"
    using Cons.prems by (simp add: trues_update_True)
  ultimately show ?case by (cases r) auto
qed simp

definition group_at :: "nat \<Rightarrow> u8 \<Rightarrow> (nat \<times> bytes) list \<Rightarrow> (nat \<times> bytes) list" where
  "group_at idx c remaining = filter (\<lambda>ik. snd ik ! idx = c) remaining"

lemma group_keys_snoc: "group_keys idx (rem @ [ik]) = push_group idx (group_keys idx rem) ik"
  by (simp add: group_keys_def)

lemma group_keys_Nil [simp]: "group_keys idx [] = []"
  by (simp add: group_keys_def)

lemma hm_ok_group_keys: "hm_ok (group_keys idx rem)"
  by (induction rem rule: rev_induct) (simp_all add: group_keys_snoc push_group_def Let_def)

lemma map_of_group_keys:
  "map_of (group_keys idx rem) c =
     (if group_at idx c rem = [] then None
      else Some (map fst (group_at idx c rem), map snd (group_at idx c rem)))"
proof (induction rem arbitrary: c rule: rev_induct)
  case (snoc ik rem)
  then show ?case
    by (simp add: group_keys_snoc push_group_def Let_def group_at_def)
qed (simp add: group_at_def)

lemma group_keys_member:
  assumes "(c, (is, keys)) \<in> set (group_keys idx rem)"
  shows "is = map fst (group_at idx c rem)" "keys = map snd (group_at idx c rem)" "keys \<noteq> []"
proof -
  have "map_of (group_keys idx rem) c = Some (is, keys)"
    using assms hm_ok_distinct[OF hm_ok_group_keys] by simp
  then show "is = map fst (group_at idx c rem)" "keys = map snd (group_at idx c rem)" "keys \<noteq> []"
    by (auto simp: map_of_group_keys split: if_splits)
qed

section \<open>Rows\<close>

definition env_at :: "trie_env \<Rightarrow> (bytes \<rightharpoonup> bytes) \<Rightarrow> trie_env" where
  "env_at env m = env\<lparr>env_get := reads m\<rparr>"

definition load_row :: "trie_env \<Rightarrow> (bytes \<rightharpoonup> bytes) \<Rightarrow> bytes \<Rightarrow> trie_node option" where
  "load_row env m p =
     (case m (make_primary_key p None) of
        None \<Rightarrow> None
      | Some b \<Rightarrow> (case deserialize_node env b of Inl _ \<Rightarrow> None | Inr n \<Rightarrow> Some n))"

text \<open>The rows \<open>m\<close> alone represent the keys \<open>S\<close> at path \<open>p\<close>.\<close>

definition stored :: "trie_env \<Rightarrow> (bytes \<rightharpoonup> bytes) \<Rightarrow> bytes \<Rightarrow> bytes set \<Rightarrow> bool" where
  "stored env m p S \<longleftrightarrow> (\<exists>n. load_row env m p = Some n \<and> wf_node (env_at env m) p n S)"

definition kids_stored :: "trie_env \<Rightarrow> (bytes \<rightharpoonup> bytes) \<Rightarrow> bytes \<Rightarrow> (u8 \<Rightarrow> bytes set) \<Rightarrow> bool" where
  "kids_stored env m p F \<longleftrightarrow> (\<forall>c. F c \<noteq> {} \<longrightarrow> stored env m (p @ [c]) (F c))"

lemma env_at_simps [simp]:
  "env_blake3 (env_at env m) = env_blake3 env" "env_decode (env_at env m) = env_decode env"
  "env_encode (env_at env m) = env_encode env" "env_get (env_at env m) = reads m"
  by (simp_all add: env_at_def)

lemma stored_cong:
  assumes "stored env m p S" "\<And>q. prefix p q \<Longrightarrow> m' (make_primary_key q None) = m (make_primary_key q None)"
  shows "stored env m' p S"
proof -
  from assms(1) obtain n where n: "load_row env m p = Some n" "wf_node (env_at env m) p n S"
    by (auto simp: stored_def)
  have "same_rows_below (env_at env m) (env_at env m') p"
    using assms(2) by (simp add: same_rows_below_def)
  from wf_node_cong[OF n(2) this] n(1) assms(2)[of p] show ?thesis
    by (auto simp: stored_def load_row_def)
qed

lemma load_row_child: "load_row env m (p @ [c]) = Some n \<Longrightarrow> load_child (env_at env m) p c Serialized = Inr n"
  by (auto simp: load_row_def load_child_def make_primary_key_Some deserialize_node_cong[of "env_at env m" env]
      split: option.splits sum.splits)

definition as_serialized :: "trie_node \<Rightarrow> trie_node" where
  "as_serialized n = TrieNode (tn_items n) (map (\<lambda>(c, _). (c, Serialized)) (tn_children n)) (tn_child_hashes n) (tn_key n)"

lemma hm_insert_last: "\<forall>x\<in>fst ` set m. x < k \<Longrightarrow> hm_insert k v m = m @ [(k, v)]"
  by (induction m) auto

lemma foldl_hm_insert_sorted:
  assumes "sorted_wrt (<) (map fst (acc @ xs))"
  shows "foldl (\<lambda>m (k, v). hm_insert k v m) acc xs = acc @ xs"
  using assms
proof (induction xs arbitrary: acc)
  case (Cons kv xs)
  obtain k v where kv: "kv = (k, v)" by (cases kv)
  have "\<forall>x\<in>fst ` set acc. x < k" using Cons.prems by (auto simp: kv sorted_wrt_append)
  then show ?case using Cons by (simp add: kv hm_insert_last)
qed simp

lemma ucast_u8_u32 [simp]: "(ucast (ucast (c :: u8) :: u32) :: u8) = c"
  by (rule bit_word_eqI) (simp add: bit_simps)

lemma foldl_hm_insert_ok: "hm_ok m \<Longrightarrow> foldl (\<lambda>m (k, v). hm_insert k v m) [] m = m"
  using foldl_hm_insert_sorted[of "[]" m] by (simp add: hm_ok_def)

lemma foldl_hm_insert_chars:
  assumes "hm_ok cs"
  shows "foldl (\<lambda>m c. hm_insert (ucast (c :: u32)) Serialized m) [] (map (\<lambda>(c, _). ucast (c :: u8)) cs)
       = map (\<lambda>(c, _). (c, Serialized)) cs"
proof -
  let ?cs = "map (\<lambda>(c, _). (c, Serialized)) cs"
  have "map fst ?cs = map fst cs" by (induction cs) auto
  from hm_ok_map_fst_cong[OF this] have "hm_ok ?cs" using assms by blast
  from foldl_hm_insert_ok[OF this] show ?thesis by (simp add: foldl_map case_prod_beta)
qed

lemma foldl_hm_insert_hashes:
  assumes "hm_ok chs"
  shows "foldl (\<lambda>m (c, h). hm_insert (ucast (c :: u32)) h m) [] (map (\<lambda>(c, h). (ucast (c :: u8), h)) chs) = chs"
  using foldl_hm_insert_ok[OF assms] by (simp add: foldl_map case_prod_unfold)

lemma unat_ucast_u8: "unat (ucast (c :: u8) :: u32) = unat c"
  using unsigned_less[of c, where 'a = nat] by (simp add: unsigned_ucast_eq take_bit_nat_eq_self)

lemma ucast_u8_u32_less: "(ucast (c :: u8) :: u32) < ucast d \<longleftrightarrow> c < d"
  by (simp only: word_less_nat_alt unat_ucast_u8)

lemma hm_ok_ucast: "hm_ok chs \<Longrightarrow> hm_ok (map (\<lambda>(c, h). (ucast (c :: u8) :: u32, h)) chs)"
  by (induction chs) (force simp: hm_ok_Cons ucast_u8_u32_less)+

lemma deserialize_serialize:
  assumes "codec_ok env" "hm_ok (tn_children n)" "hm_ok (tn_child_hashes n)" "tn_items n < 2 ^ 32"
    and "tn_key n \<noteq> Some []"
  shows "deserialize_node env (serialize_node env n) = Inr (as_serialized n)"
proof -
  have "unat (word_of_nat (tn_items n) :: u32) = tn_items n"
    using assms(4) by (simp add: unat_of_nat)
  then show ?thesis
    using assms(1,5) hm_ok_ucast[OF assms(3)]
    by (auto simp: deserialize_node_def serialize_node_def codec_ok_def as_serialized_def
        foldl_hm_insert_chars[OF assms(2)] foldl_hm_insert_hashes[OF assms(3)] split: option.splits)
qed

lemma wf_serialized:
  assumes "wf_node env p n S" "codec_ok env" "card S < 2 ^ 32"
    and "m (make_primary_key p None) = Some (serialize_node env n)"
  shows "load_row env m p = Some (as_serialized n)"
proof -
  have "deserialize_node env (serialize_node env n) = Inr (as_serialized n)"
  proof (cases "is_leaf n")
    case True
    from wf_leafE[OF assms(1) True] obtain k chs where
      "n = TrieNode 1 [] chs (Some k)" "prefix p k" "hm_ok chs" "UNCOMPACTED_LENGTH \<le> length p" by metis
    moreover from this have "k \<noteq> []" by (auto simp: UNCOMPACTED_LENGTH_def)
    ultimately show ?thesis by (intro deserialize_serialize[OF assms(2)]) auto
  next
    case False
    from wf_innerE[OF assms(1) False] obtain cs chs F where
      "n = TrieNode (card S) cs chs None" "wf_kids env p cs chs F" by metis
    then show ?thesis
      using assms(3) wf_kids_hashes_ok by (intro deserialize_serialize[OF assms(2)]) (auto simp: wf_kids_def)
  qed
  with assms(4) show ?thesis by (simp add: load_row_def)
qed

lemma stored_leaf:
  assumes "wf_node env p n S" "is_leaf n" "codec_ok env" "m (make_primary_key p None) = Some (serialize_node env n)"
  shows "stored env m p S"
proof -
  from wf_leafE[OF assms(1,2)] obtain k chs where n: "n = TrieNode 1 [] chs (Some k)" "S = {k}" "prefix p k"
    "hm_ok chs" "UNCOMPACTED_LENGTH \<le> length p" "fst ` set chs \<subseteq> (if length p < length k then {k ! length p} else {})" .
  have "load_row env m p = Some (as_serialized n)"
    using wf_serialized[where m = m, OF assms(1,3) _ assms(4)] by (simp add: n(2))
  moreover have "wf_node (env_at env m) p (as_serialized n) S"
    unfolding n(1,2) as_serialized_def using wf_leaf[OF n(5,3,4,6)] by simp
  ultimately show ?thesis by (auto simp: stored_def)
qed

lemma wf_kids_serialized:
  assumes "wf_kids env p cs chs F" "kids_stored env m p F"
  shows "wf_kids (env_at env m) p (map (\<lambda>(c, _). (c, Serialized)) cs) chs F"
proof -
  let ?cs = "map (\<lambda>(c, _). (c, Serialized)) cs"
  have fst: "map fst ?cs = map fst cs" by (induction cs) auto
  then have keys: "fst ` set ?cs = fst ` set cs" by (metis list.set_map)
  have "\<exists>m' h. load_child (env_at env m) p c Serialized = Inr m' \<and> wf_node (env_at env m) (p @ [c]) m' (F c)
      \<and> tn_hash (env_at env m) m' = Inr h \<and> map_of chs c = Some h" if c: "c \<in> fst ` set cs" for c
  proof -
    from wf_kids_child[OF assms(1) c] obtain n h where
      n: "wf_node env (p @ [c]) n (F c)" "tn_hash env n = Inr h" "map_of chs c = Some h" by metis
    then have "stored env m (p @ [c]) (F c)" using assms(2) wf_nonempty by (auto simp: kids_stored_def)
    then obtain m' where m': "load_row env m (p @ [c]) = Some m'" "wf_node (env_at env m) (p @ [c]) m' (F c)"
      by (auto simp: stored_def)
    have "tn_hash (env_at env m) m' = Inr h"
      using wf_hash_unique[OF n(1) m'(2)] n(2) by simp
    with load_row_child[OF m'(1)] m'(2) n(3) show ?thesis by blast
  qed
  moreover have "hm_ok ?cs" using assms(1) hm_ok_map_fst_cong[OF fst] by (simp add: wf_kids_def)
  moreover have "map fst chs = map fst ?cs" using assms(1) unfolding fst by (simp add: wf_kids_def)
  moreover have "\<forall>c. c \<notin> fst ` set ?cs \<longrightarrow> F c = {}" using assms(1) unfolding keys by (simp add: wf_kids_def)
  ultimately show ?thesis unfolding wf_kids_def by force
qed

lemma stored_inner:
  assumes "wf_node env p (TrieNode i cs chs None) S" "wf_kids env p cs chs F" "S = \<Union> (range F)" "cs \<noteq> []"
    and "kids_stored env m p F" "codec_ok env" "card S < 2 ^ 32"
    and "m (make_primary_key p None) = Some (serialize_node env (TrieNode i cs chs None))"
  shows "stored env m p S"
proof -
  let ?n = "TrieNode i cs chs None"
  have "load_row env m p = Some (as_serialized ?n)" by (rule wf_serialized[where m = m, OF assms(1,6,7,8)])
  moreover have "wf_node (env_at env m) p (as_serialized ?n) S"
    unfolding as_serialized_def trie_node.sel
  proof (rule wf_innerI[OF wf_kids_serialized[OF assms(2,5)] assms(3)])
    show "S \<noteq> {}" "i = card S" using wf_nonempty[OF assms(1)] wf_items[OF assms(1)] by simp_all
    show "2 \<le> card S" if "UNCOMPACTED_LENGTH \<le> length p"
      using wf_leaf_iff[OF assms(1)] that assms(4) wf_finite_nonempty[OF assms(1)]
      by (cases "card S") (auto simp: is_leaf_def)
  qed
  ultimately show ?thesis by (auto simp: stored_def)
qed

section \<open>The contract of a call\<close>

definition outside :: "bytes \<Rightarrow> bytes \<Rightarrow> bool" where
  "outside p row \<longleftrightarrow> (\<forall>q. prefix p q \<longrightarrow> row \<noteq> make_primary_key q None)"

text \<open>The batch changes rows at and below \<open>p\<close> only, and with them the rows hold the new keys.\<close>

definition persists ::
  "trie_env \<Rightarrow> (bytes \<rightharpoonup> bytes) \<Rightarrow> bytes \<Rightarrow> bytes set \<Rightarrow> txn_batch \<Rightarrow> bytes set \<Rightarrow> txn_batch \<Rightarrow> bool" where
  "persists env m p S txn S' txn' \<longleftrightarrow>
     (\<forall>row. outside p row \<longrightarrow> overlay m txn' row = overlay m txn row) \<and>
     (codec_ok env \<longrightarrow> card S' < 2 ^ 32 \<longrightarrow> (S \<noteq> {} \<longrightarrow> stored env (overlay m txn) p S)
        \<longrightarrow> stored env (overlay m txn') p S')"

definition parent_hashes ::
  "trie_env \<Rightarrow> bytes \<Rightarrow> trie_node \<Rightarrow> (u8 \<times> bytes) list \<Rightarrow> (u8 \<times> bytes) list \<Rightarrow> bool" where
  "parent_hashes env p n ch ch' \<longleftrightarrow>
     (if p = [] then ch' = ch else \<exists>h. tn_hash env n = Inr h \<and> ch' = hm_insert (last p) h ch)"

definition insert_post ::
  "trie_env \<Rightarrow> (bytes \<rightharpoonup> bytes) \<Rightarrow> bytes \<Rightarrow> bytes set \<Rightarrow> bytes set \<Rightarrow> (u8 \<times> bytes) list \<Rightarrow> txn_batch
     \<Rightarrow> nat \<Rightarrow> nat \<Rightarrow> node_result \<Rightarrow> bool" where
  "insert_post env m p S K ch txn len base r \<longleftrightarrow>
     (\<exists>n' ch' txn' rs. r = Inr (n', ch', txn', rs) \<and> wf_node env p n' (S \<union> K)
        \<and> length rs = len \<and> trues rs = base + card (K - S)
        \<and> (if K \<subseteq> S then ch' = ch \<and> txn' = txn else parent_hashes env p n' ch ch')
        \<and> persists env m p S txn (S \<union> K) txn')"

lemma update_hash_wf:
  assumes "wf_node env p n S" "hash32 env"
  shows "\<exists>ch'. update_hash env n ch p = Inr ch' \<and> parent_hashes env p n ch ch'"
proof -
  from wf_hash_ok[OF assms] obtain h where "tn_hash env n = Inr h" "length h = 20" .
  moreover from this have "h \<noteq> []" by auto
  ultimately show ?thesis by (auto simp: update_hash_def parent_hashes_def)
qed

lemma outside_snoc: "outside p row \<Longrightarrow> outside (p @ [c]) row"
  unfolding outside_def using append_prefixD by blast

lemma outside_put: "outside p row \<Longrightarrow> overlay m (put_to_txn env n txn p) row = overlay m txn row"
  by (auto simp: outside_def put_to_txn_def)

lemma put_to_txn_row: "overlay m (put_to_txn env n txn p) (make_primary_key p None) = Some (serialize_node env n)"
  by (simp add: put_to_txn_def)

lemma kids_stored_cong:
  assumes "kids_stored env m p F"
    and "\<And>c q. F c \<noteq> {} \<Longrightarrow> prefix (p @ [c]) q \<Longrightarrow> m' (make_primary_key q None) = m (make_primary_key q None)"
  shows "kids_stored env m' p F"
  using assms unfolding kids_stored_def by (blast intro: stored_cong)

lemma kids_stored_put:
  assumes "kids_stored env (overlay m txn) p F"
  shows "kids_stored env (overlay m (put_to_txn env n txn p)) p F"
  by (rule kids_stored_cong[OF assms]) (auto simp: put_to_txn_def prefix_snoc_nth)

section \<open>The loop over the groups\<close>

definition group_set :: "(u8 \<times> (nat list \<times> bytes list)) list \<Rightarrow> u8 \<Rightarrow> bytes set" where
  "group_set groups c = (case map_of groups c of None \<Rightarrow> {} | Some (is, keys) \<Rightarrow> set keys)"

lemma wf_kids_update:
  assumes "wf_kids env p cs chs F" "wf_node env (p @ [c]) m S" "tn_hash env m = Inr h"
  shows "wf_kids env p (hm_insert c (Node m) cs) (hm_insert c h chs) (F(c := S))"
proof -
  have keys: "fst ` set (hm_insert c (Node m) cs) = insert c (fst ` set cs)" by simp
  have ok: "hm_ok cs" and fst: "map fst chs = map fst cs" using assms(1) by (auto simp: wf_kids_def)
  have "\<exists>n h'. load_child env p c' ct = Inr n \<and> wf_node env (p @ [c']) n ((F(c := S)) c')
      \<and> tn_hash env n = Inr h' \<and> map_of (hm_insert c h chs) c' = Some h'"
    if "(c', ct) \<in> set (hm_insert c (Node m) cs)" for c' ct
  proof -
    have mo: "map_of (hm_insert c (Node m) cs) c' = Some ct"
      using that ok by (simp add: hm_ok_distinct del: map_of_hm_insert)
    show ?thesis
    proof (cases "c' = c")
      case True
      with mo assms(2,3) show ?thesis by (auto simp: load_child_def)
    next
      case False
      with mo have "(c', ct) \<in> set cs" by (simp add: map_of_SomeD)
      with assms(1) False show ?thesis unfolding wf_kids_def by fastforce
    qed
  qed
  moreover have "\<forall>c'. c' \<notin> insert c (fst ` set cs) \<longrightarrow> (F(c := S)) c' = {}"
    using assms(1) by (simp add: wf_kids_def)
  ultimately show ?thesis
    unfolding wf_kids_def keys using ok map_fst_hm_insert_cong[OF fst] by blast
qed

lemma Union_upd_card:
  assumes "wf_kids env p cs chs F" "\<forall>k\<in>K. k ! length p = c" "finite K"
  shows "\<Union> (range (F(c := F c \<union> K))) = \<Union> (range F) \<union> K"
    and "card (\<Union> (range F) \<union> K) = card (\<Union> (range F)) + card (K - F c)"
proof -
  show "\<Union> (range (F(c := F c \<union> K))) = \<Union> (range F) \<union> K"
    by (auto split: if_splits)
  have "\<Union> (range F) \<union> K = \<Union> (range F) \<union> (K - F c)" by blast
  moreover have "\<Union> (range F) \<inter> (K - F c) = {}"
    using wf_kids_keys(3)[OF assms(1)] assms(2) by fastforce
  ultimately show "card (\<Union> (range F) \<union> K) = card (\<Union> (range F)) + card (K - F c)"
    using wf_kids_card_range[OF assms(1)] assms(3) by (simp add: card_Un_disjoint)
qed

lemma group_child:
  assumes "wf_kids env p (tn_children n) chs F"
  shows "\<exists>child. get_or_load_child env
      (if c \<in> fst ` set (tn_children n) then n else put_child n c default_node) p c = Inr child
    \<and> wf_or_empty env (p @ [c]) child (F c)"
proof (cases "c \<in> fst ` set (tn_children n)")
  case True
  from wf_kids_child[OF assms True] obtain ct m where
    m: "(c, ct) \<in> set (tn_children n)" "load_child env p c ct = Inr m" "wf_node env (p @ [c]) m (F c)" by metis
  have "hm_ok (tn_children n)" using assms by (simp add: wf_kids_def)
  from map_of_is_SomeI[OF hm_ok_distinct[OF this] m(1)] m True show ?thesis
    by (auto simp: get_or_load_child_def wf_or_empty_def)
next
  case False
  with assms have "F c = {}" by (simp add: wf_kids_def)
  with False show ?thesis by (simp add: get_or_load_child_def load_child_def wf_or_empty_def)
qed

lemma group_step_kids:
  assumes "wf_kids env p (tn_children n) chs F" "hash32 env"
    and "wf_node env (p @ [c]) child' (F c \<union> K)" "K \<noteq> {}"
    and "if K \<subseteq> F c then ch' = chs \<and> txn' = txn else parent_hashes env (p @ [c]) child' chs ch'"
  shows "wf_kids env p (hm_insert c (Node child') (tn_children n)) ch' (F(c := F c \<union> K))"
proof -
  from wf_hash_ok[OF assms(3,2)] obtain h where h: "tn_hash env child' = Inr h" by blast
  have "ch' = hm_insert c h chs"
  proof (cases "K \<subseteq> F c")
    case True
    with assms(4) have "c \<in> fst ` set (tn_children n)" using wf_kids_nonempty_iff[OF assms(1)] by blast
    from wf_kids_child[OF assms(1) this] obtain m h' where
      m: "wf_node env (p @ [c]) m (F c)" "tn_hash env m = Inr h'" "map_of chs c = Some h'" by metis
    have "F c \<union> K = F c" using True by blast
    with wf_hash_unique[OF m(1), of env child'] assms(3) m(2) h have "h' = h" by simp
    with hm_insert_same[OF wf_kids_hashes_ok[OF assms(1)] m(3)] True assms(5) show ?thesis by simp
  next
    case False
    with assms(5) h show ?thesis by (auto simp: parent_hashes_def)
  qed
  with wf_kids_update[OF assms(1,3) h] show ?thesis by simp
qed

lemma kids_stored_upd:
  assumes "kids_stored env (overlay m txn) p F" "stored env (overlay m txn') (p @ [c]) S"
    and "\<forall>row. outside (p @ [c]) row \<longrightarrow> overlay m txn' row = overlay m txn row"
  shows "kids_stored env (overlay m txn') p (F(c := S))"
proof -
  have "stored env (overlay m txn') (p @ [c']) (F c')" if "c' \<noteq> c" "F c' \<noteq> {}" for c'
  proof (rule stored_cong)
    show "stored env (overlay m txn) (p @ [c']) (F c')" using assms(1) that by (simp add: kids_stored_def)
    fix q assume "prefix (p @ [c']) q"
    with that(1) have "outside (p @ [c]) (make_primary_key q None)"
      by (auto simp: outside_def prefix_snoc_nth)
    with assms(3) show "overlay m txn' (make_primary_key q None) = overlay m txn (make_primary_key q None)" by blast
  qed
  with assms(2) show ?thesis by (simp add: kids_stored_def)
qed

text \<open>What holds after the loop has run over some groups.\<close>

definition loop_post ::
  "trie_env \<Rightarrow> (bytes \<rightharpoonup> bytes) \<Rightarrow> bytes \<Rightarrow> (u8 \<Rightarrow> bytes set) \<Rightarrow> (u8 \<Rightarrow> bytes set)
     \<Rightarrow> trie_node \<times> txn_batch \<times> bool list \<times> nat \<Rightarrow> trie_node \<times> txn_batch \<times> bool list \<times> nat \<Rightarrow> bool" where
  "loop_post env m p F F' st st' \<longleftrightarrow>
     (case st of (n, txn, results, succ) \<Rightarrow> case st' of (n', txn', results', succ') \<Rightarrow>
        wf_kids env p (tn_children n') (tn_child_hashes n') F'
        \<and> tn_items n' = tn_items n \<and> tn_key n' = tn_key n \<and> length results' = length results
        \<and> succ \<le> succ' \<and> trues results' + succ = trues results + succ'
        \<and> succ' + card (\<Union> (range F)) = succ + card (\<Union> (range F'))
        \<and> (succ' = succ \<longrightarrow> txn' = txn)
        \<and> (\<forall>row. outside p row \<longrightarrow> overlay m txn' row = overlay m txn row)
        \<and> (codec_ok env \<longrightarrow> card (\<Union> (range F')) < 2 ^ 32 \<longrightarrow> kids_stored env (overlay m txn) p F
             \<longrightarrow> kids_stored env (overlay m txn') p F'))"

lemma loop_post_refl:
  "wf_kids env p (tn_children n) (tn_child_hashes n) F
   \<Longrightarrow> loop_post env m p F F (n, txn, results, succ) (n, txn, results, succ)"
  by (simp add: loop_post_def)

lemma loop_post_trans:
  assumes "loop_post env m p F F1 st st1" "loop_post env m p F1 F2 st1 st2"
    and "\<Union> (range F1) \<subseteq> \<Union> (range F2)" "finite (\<Union> (range F2))"
  shows "loop_post env m p F F2 st st2"
proof -
  obtain n txn rs s n1 txn1 rs1 s1 n2 txn2 rs2 s2 where
    st: "st = (n, txn, rs, s)" "st1 = (n1, txn1, rs1, s1)" "st2 = (n2, txn2, rs2, s2)"
    by (metis prod_cases4)
  note a1 = assms(1)[unfolded loop_post_def st prod.case] and a2 = assms(2)[unfolded loop_post_def st prod.case]
  have n1: "s \<le> s1" "trues rs1 + s = trues rs + s1" "s1 + card (\<Union> (range F)) = s + card (\<Union> (range F1))"
    using a1 by - (elim conjE, assumption)+
  have n2: "s1 \<le> s2" "trues rs2 + s1 = trues rs1 + s2" "s2 + card (\<Union> (range F1)) = s1 + card (\<Union> (range F2))"
    using a2 by - (elim conjE, assumption)+
  have le: "card (\<Union> (range F1)) \<le> card (\<Union> (range F2))" by (rule card_mono[OF assms(4,3)])
  have s: "s2 = s \<Longrightarrow> s1 = s \<and> s2 = s1" using n1(1) n2(1) by simp
  show ?thesis unfolding loop_post_def st prod.case
  proof (intro conjI)
    show "wf_kids env p (tn_children n2) (tn_child_hashes n2) F2" using a2 by (elim conjE)
    show "tn_items n2 = tn_items n" "tn_key n2 = tn_key n" "length rs2 = length rs"
      using a1 a2 by - (elim conjE, simp only:)+
    show "s \<le> s2" "trues rs2 + s = trues rs + s2"
      "s2 + card (\<Union> (range F)) = s + card (\<Union> (range F2))" using n1 n2 by linarith+
    show "s2 = s \<longrightarrow> txn2 = txn" using a1 a2 s by (elim conjE) simp
    show "\<forall>row. outside p row \<longrightarrow> overlay m txn2 row = overlay m txn row"
      using a1 a2 by (elim conjE) simp
    show "codec_ok env \<longrightarrow> card (\<Union> (range F2)) < 2 ^ 32 \<longrightarrow> kids_stored env (overlay m txn) p F
        \<longrightarrow> kids_stored env (overlay m txn2) p F2"
    proof (intro impI)
      assume c: "codec_ok env" and lt: "card (\<Union> (range F2)) < 2 ^ 32" and k: "kids_stored env (overlay m txn) p F"
      have "card (\<Union> (range F1)) < 2 ^ 32" using le lt by linarith
      with a1 c k have "kids_stored env (overlay m txn1) p F1" by (elim conjE) (rule mp, rule mp, rule mp)
      with a2 c lt show "kids_stored env (overlay m txn2) p F2" by (elim conjE) (rule mp, rule mp, rule mp)
    qed
  qed
qed

lemma insert_groups_step:
  assumes "hash32 env" "keys \<noteq> []" "length is = length keys" "\<forall>k\<in>set keys. prefix (p @ [c]) k"
    and "distinct is" "\<forall>i\<in>set is. i < length results \<and> \<not> results ! i"
    and kids: "wf_kids env p (tn_children n) (tn_child_hashes n) F"
    and spec: "\<And>child ch txn. wf_or_empty env (p @ [c]) child (F c) \<Longrightarrow>
      insert_post env m (p @ [c]) (F c) (set keys) ch txn (length keys) 0 (ins child ch txn keys (Suc (length p)))"
  shows "\<exists>n1 txn1 results1 succ1.
      insert_groups ins env p (length p) ((c, (is, keys)) # groups) (n, txn, results, succ)
        = insert_groups ins env p (length p) groups (n1, txn1, results1, succ1)
    \<and> loop_post env m p F (F(c := F c \<union> set keys)) (n, txn, results, succ) (n1, txn1, results1, succ1)
    \<and> (\<forall>i. i \<notin> set is \<longrightarrow> results1 ! i = results ! i)"
proof -
  let ?K = "set keys" and ?F = "F(c := F c \<union> set keys)"
  let ?n = "if c \<in> fst ` set (tn_children n) then n else put_child n c default_node"
  from group_child[OF kids] obtain child where child: "get_or_load_child env ?n p c = Inr child"
    "wf_or_empty env (p @ [c]) child (F c)" by blast
  from spec[OF child(2), of "tn_child_hashes n" txn] obtain child' ch' txn' rs where
    ins: "ins child (tn_child_hashes n) txn keys (Suc (length p)) = Inr (child', ch', txn', rs)"
    and wf': "wf_node env (p @ [c]) child' (F c \<union> ?K)" and rs: "length rs = length keys" "trues rs = card (?K - F c)"
    and ch': "if ?K \<subseteq> F c then ch' = tn_child_hashes n \<and> txn' = txn
              else parent_hashes env (p @ [c]) child' (tn_child_hashes n) ch'"
    and per: "persists env m (p @ [c]) (F c) txn (F c \<union> ?K) txn'"
    unfolding insert_post_def by auto
  from spread_results_ok[OF _ assms(5,6), of rs succ] rs(1) assms(3) obtain results' where
    res: "spread_results is rs (results, succ) = (results', succ + trues rs)" "length results' = length results"
      "trues results' = trues results + trues rs" "\<forall>i. i \<notin> set is \<longrightarrow> results' ! i = results ! i" by auto
  let ?n1 = "set_child_hashes (put_child ?n c child') ch'"
  have kids': "wf_kids env p (tn_children ?n1) (tn_child_hashes ?n1) ?F"
    using group_step_kids[OF kids assms(1) wf' _ ch'] assms(2) by simp
  have nth: "\<forall>k\<in>?K. k ! length p = c" using assms(4) by (simp add: prefix_snoc_nth)
  note card = Union_upd_card[OF kids nth finite_set]
  have lp: "loop_post env m p F ?F (n, txn, results, succ) (?n1, txn', results', succ + trues rs)"
    unfolding loop_post_def prod.case
  proof (intro conjI)
    show "succ + trues rs + card (\<Union> (range F)) = succ + card (\<Union> (range ?F))"
      unfolding card(1) card(2) rs(2) by simp
    show "succ + trues rs = succ \<longrightarrow> txn' = txn" using rs(2) ch' by auto
    show "\<forall>row. outside p row \<longrightarrow> overlay m txn' row = overlay m txn row"
      using per outside_snoc by (auto simp: persists_def)
    show "codec_ok env \<longrightarrow> card (\<Union> (range ?F)) < 2 ^ 32 \<longrightarrow> kids_stored env (overlay m txn) p F
        \<longrightarrow> kids_stored env (overlay m txn') p ?F"
    proof (intro impI)
      assume a: "codec_ok env" "card (\<Union> (range ?F)) < 2 ^ 32" "kids_stored env (overlay m txn) p F"
      have "card (F c \<union> ?K) \<le> card (\<Union> (range ?F))"
        by (rule card_mono[OF wf_kids_card_range[OF kids']]) auto
      with a have "stored env (overlay m txn') (p @ [c]) (F c \<union> ?K)"
        using per by (auto simp: persists_def kids_stored_def)
      from kids_stored_upd[OF a(3) this] per show "kids_stored env (overlay m txn') p ?F"
        by (auto simp: persists_def)
    qed
    show "tn_items ?n1 = tn_items n" "tn_key ?n1 = tn_key n" by simp_all
  qed (use kids' res in \<open>simp_all split del: if_split\<close>)
  have "insert_groups ins env p (length p) ((c, (is, keys)) # groups) (n, txn, results, succ)
      = insert_groups ins env p (length p) groups (?n1, txn', results', succ + trues rs)"
    using child(1) ins res(1) by (simp add: Let_def if_distrib[of tn_child_hashes])
  with lp res(4) show ?thesis by blast
qed

lemma group_set_Cons:
  assumes "c \<notin> fst ` set groups"
  shows "(\<lambda>x. F x \<union> group_set ((c, (is, keys)) # groups) x) = (\<lambda>x. (F(c := F c \<union> set keys)) x \<union> group_set groups x)"
  using assms by (auto simp: group_set_def fun_eq_iff map_of_eq_None_iff[THEN iffD2])

lemma insert_groups_ok:
  assumes "hash32 env" "distinct (map fst groups)"
    and "\<forall>(c, is, keys) \<in> set groups. keys \<noteq> [] \<and> length is = length keys \<and> (\<forall>k\<in>set keys. prefix (p @ [c]) k)"
    and "distinct (concat (map (fst \<circ> snd) groups))"
    and "\<forall>i\<in>set (concat (map (fst \<circ> snd) groups)). i < length results \<and> \<not> results ! i"
    and "wf_kids env p (tn_children n) (tn_child_hashes n) F"
    and "\<And>c is keys child ch txn. (c, is, keys) \<in> set groups \<Longrightarrow> wf_or_empty env (p @ [c]) child (F c) \<Longrightarrow>
      insert_post env m (p @ [c]) (F c) (set keys) ch txn (length keys) 0 (ins child ch txn keys (Suc (length p)))"
  shows "\<exists>st'. insert_groups ins env p (length p) groups (n, txn, results, succ) = Inr st'
    \<and> loop_post env m p F (\<lambda>c. F c \<union> group_set groups c) (n, txn, results, succ) st'"
  using assms(2-)
proof (induction groups arbitrary: n txn results succ F)
  case Nil
  then show ?case by (simp add: group_set_def loop_post_refl)
next
  case (Cons g groups)
  obtain c "is" keys where g: "g = (c, (is, keys))" by (cases g) auto
  note prems = Cons.prems[unfolded g]
  let ?F1 = "F(c := F c \<union> set keys)" and ?F2 = "\<lambda>x. F x \<union> group_set (g # groups) x"
  have "\<exists>n1 txn1 results1 succ1.
      insert_groups ins env p (length p) ((c, (is, keys)) # groups) (n, txn, results, succ)
        = insert_groups ins env p (length p) groups (n1, txn1, results1, succ1)
    \<and> loop_post env m p F ?F1 (n, txn, results, succ) (n1, txn1, results1, succ1)
    \<and> (\<forall>i. i \<notin> set is \<longrightarrow> results1 ! i = results ! i)"
    using prems(1-5) by (intro insert_groups_step[OF assms(1)] prems(6)) auto
  then obtain n1 txn1 results1 succ1 where
    eq: "insert_groups ins env p (length p) (g # groups) (n, txn, results, succ)
        = insert_groups ins env p (length p) groups (n1, txn1, results1, succ1)"
    and lp: "loop_post env m p F ?F1 (n, txn, results, succ) (n1, txn1, results1, succ1)"
    and res: "\<forall>i. i \<notin> set is \<longrightarrow> results1 ! i = results ! i" unfolding g by blast
  have c: "c \<notin> fst ` set groups" using prems(1) by simp
  have kids1: "wf_kids env p (tn_children n1) (tn_child_hashes n1) ?F1" and len1: "length results1 = length results"
    using lp by (auto simp: loop_post_def)
  have "\<exists>st'. insert_groups ins env p (length p) groups (n1, txn1, results1, succ1) = Inr st'
    \<and> loop_post env m p ?F1 (\<lambda>c. ?F1 c \<union> group_set groups c) (n1, txn1, results1, succ1) st'"
  proof (rule Cons.IH)
    show "\<forall>i\<in>set (concat (map (fst \<circ> snd) groups)). i < length results1 \<and> \<not> results1 ! i"
      using prems(3,4) res len1 by auto
    show "wf_kids env p (tn_children n1) (tn_child_hashes n1) ?F1" by (rule kids1)
    fix c' is' keys' child ch txn
    assume "(c', is', keys') \<in> set groups" "wf_or_empty env (p @ [c']) child (?F1 c')"
    moreover from this c have "?F1 c' = F c'" by force
    ultimately show "insert_post env m (p @ [c']) (?F1 c') (set keys') ch txn (length keys') 0
        (ins child ch txn keys' (Suc (length p)))" using prems(6)[of c' is' keys'] by simp
  qed (use prems(1-3) in auto)
  then obtain st' where st': "insert_groups ins env p (length p) groups (n1, txn1, results1, succ1) = Inr st'"
    "loop_post env m p ?F1 ?F2 (n1, txn1, results1, succ1) st'"
    unfolding g group_set_Cons[OF c] by blast
  have "wf_kids env p (tn_children (fst st')) (tn_child_hashes (fst st')) ?F2"
    using st'(2) by (cases st') (simp add: loop_post_def)
  from wf_kids_card_range[OF this] have "finite (\<Union> (range ?F2))" .
  moreover have "\<Union> (range ?F1) \<subseteq> \<Union> (range ?F2)" unfolding g group_set_Cons[OF c] by blast
  ultimately have "loop_post env m p F ?F2 (n, txn, results, succ) st'"
    by (intro loop_post_trans[OF lp st'(2)])
  with eq st'(1) show ?case by auto
qed

lemma group_indices_disjoint:
  assumes "distinct (map fst rem)" "c \<noteq> c'"
  shows "set (map fst (group_at idx c rem)) \<inter> set (map fst (group_at idx c' rem)) = {}"
proof -
  have "False" if "i \<in> fst ` set (group_at idx c rem)" "i \<in> fst ` set (group_at idx c' rem)" for i
  proof -
    from that obtain k k' where "(i, k) \<in> set rem" "k ! idx = c" "(i, k') \<in> set rem" "k' ! idx = c'"
      by (auto simp: group_at_def)
    with assms show False by (metis eq_key_imp_eq_value)
  qed
  then show ?thesis by auto
qed

lemma group_indices:
  assumes "distinct (map fst rem)" "distinct (map fst groups)"
    and "\<forall>(c, is, keys) \<in> set groups. is = map fst (group_at idx c rem)"
  shows "distinct (concat (map (fst \<circ> snd) groups))"
  using assms(2,3)
proof (induction groups)
  case (Cons g groups)
  obtain c "is" keys where g: "g = (c, is, keys)" by (cases g) auto
  have "is": "is = map fst (group_at idx c rem)" using Cons.prems(2) g by auto
  have "distinct is" unfolding "is" group_at_def using assms(1) by (simp add: distinct_map_filter)
  moreover have "set is \<inter> set (concat (map (fst \<circ> snd) groups)) = {}"
  proof -
    have "set is \<inter> set is' = {}" if "(c', is', keys') \<in> set groups" for c' is' keys'
    proof -
      have "c \<noteq> c'" using that Cons.prems(1) g by force
      moreover have "is' = map fst (group_at idx c' rem)" using that Cons.prems(2) by auto
      ultimately show ?thesis using group_indices_disjoint[OF assms(1)] "is" by blast
    qed
    then show ?thesis by fastforce
  qed
  ultimately show ?case using Cons g by simp
qed simp

lemma group_set_group_keys: "group_set (group_keys idx rem) c = {k \<in> snd ` set rem. k ! idx = c}"
  by (auto simp: group_set_def map_of_group_keys group_at_def filter_empty_conv image_iff)

lemma Union_group_set: "(\<Union>c. F c \<union> group_set (group_keys idx rem) c) = \<Union> (range F) \<union> snd ` set rem"
  by (auto simp: group_set_group_keys)

lemma insert_loop:
  assumes "hash32 env" "distinct (map fst rem)"
    and "\<forall>(i, k) \<in> set rem. prefix p k \<and> length p < length k \<and> i < length results \<and> \<not> results ! i"
    and "wf_kids env p (tn_children n) (tn_child_hashes n) F"
    and spec: "\<And>c keys child ch txn. keys \<noteq> [] \<Longrightarrow> set keys \<subseteq> snd ` set rem \<Longrightarrow> \<forall>k\<in>set keys. k ! length p = c
      \<Longrightarrow> wf_or_empty env (p @ [c]) child (F c) \<Longrightarrow>
      insert_post env m (p @ [c]) (F c) (set keys) ch txn (length keys) 0 (ins child ch txn keys (Suc (length p)))"
  shows "\<exists>st'. insert_groups ins env p (length p) (group_keys (length p) rem) (n, txn, results, 0) = Inr st'
    \<and> loop_post env m p F (\<lambda>c. F c \<union> group_set (group_keys (length p) rem) c) (n, txn, results, 0) st'"
proof (rule insert_groups_ok[OF assms(1)])
  let ?G = "group_keys (length p) rem"
  show dist: "distinct (map fst ?G)" by (rule hm_ok_distinct[OF hm_ok_group_keys])
  have mem: "keys \<noteq> []" "is = map fst (group_at (length p) c rem)" "keys = map snd (group_at (length p) c rem)"
    if "(c, is, keys) \<in> set ?G" for c "is" keys
    using group_keys_member[OF that] by auto
  have keys: "\<forall>k\<in>set keys. k \<in> snd ` set rem \<and> k ! length p = c" if "(c, is, keys) \<in> set ?G" for c "is" keys
    unfolding mem(3)[OF that] by (auto simp: group_at_def)
  show "\<forall>(c, is, keys) \<in> set ?G. keys \<noteq> [] \<and> length is = length keys \<and> (\<forall>k\<in>set keys. prefix (p @ [c]) k)"
  proof (clarify, intro conjI ballI)
    fix c "is" keys assume g: "(c, is, keys) \<in> set ?G"
    show "keys \<noteq> []" "length is = length keys" using mem[OF g] by simp_all
    fix k assume "k \<in> set keys"
    with keys[OF g] obtain i where "(i, k) \<in> set rem" "k ! length p = c" by auto
    with assms(3) show "prefix (p @ [c]) k" by (auto simp: prefix_snoc_nth)
  qed
  show "distinct (concat (map (fst \<circ> snd) ?G))"
    by (rule group_indices[OF assms(2) dist]) (use mem(2) in auto)
  show "\<forall>i\<in>set (concat (map (fst \<circ> snd) ?G)). i < length results \<and> \<not> results ! i"
  proof
    fix i assume "i \<in> set (concat (map (fst \<circ> snd) ?G))"
    then obtain c "is" keys where g: "(c, is, keys) \<in> set ?G" and i: "i \<in> set is" by auto
    from i have "i \<in> fst ` set (group_at (length p) c rem)" unfolding mem(2)[OF g] by simp
    then show "i < length results \<and> \<not> results ! i" using assms(3) by (auto simp: group_at_def)
  qed
  fix c "is" keys child ch txn
  assume "(c, is, keys) \<in> set ?G" "wf_or_empty env (p @ [c]) child (F c)"
  then show "insert_post env m (p @ [c]) (F c) (set keys) ch txn (length keys) 0 (ins child ch txn keys (Suc (length p)))"
    using spec mem(1) keys by (metis subsetI)
qed (rule assms(4))

lemma insert_children_ok:
  assumes "hash32 env" "distinct (map fst rem)" "rem \<noteq> []"
    and rem: "\<forall>(i, k) \<in> set rem. prefix p k \<and> length p < length k \<and> i < length results \<and> \<not> results ! i"
    and kids: "wf_kids env p (tn_children n) (tn_child_hashes n) F"
    and "tn_items n = card (\<Union> (range F))" "tn_key n = None"
    and "UNCOMPACTED_LENGTH \<le> length p \<Longrightarrow> 2 \<le> card (\<Union> (range F) \<union> snd ` set rem)"
    and spec: "\<And>c keys child ch txn. keys \<noteq> [] \<Longrightarrow> set keys \<subseteq> snd ` set rem \<Longrightarrow> \<forall>k\<in>set keys. k ! length p = c
      \<Longrightarrow> wf_or_empty env (p @ [c]) child (F c) \<Longrightarrow>
      insert_post env m (p @ [c]) (F c) (set keys) ch txn (length keys) 0 (ins child ch txn keys (Suc (length p)))"
  shows "\<exists>n' ch' txn' rs. insert_children ins env n ch txn p rem results (length p) = Inr (n', ch', txn', rs)
    \<and> wf_node env p n' (\<Union> (range F) \<union> snd ` set rem) \<and> length rs = length results
    \<and> trues rs = trues results + card (snd ` set rem - \<Union> (range F))
    \<and> (if snd ` set rem \<subseteq> \<Union> (range F) then ch' = ch \<and> txn' = txn else parent_hashes env p n' ch ch')
    \<and> (\<forall>row. outside p row \<longrightarrow> overlay m txn' row = overlay m txn row)
    \<and> (codec_ok env \<longrightarrow> card (\<Union> (range F) \<union> snd ` set rem) < 2 ^ 32 \<longrightarrow> kids_stored env (overlay m txn) p F
         \<longrightarrow> \<not> snd ` set rem \<subseteq> \<Union> (range F) \<longrightarrow> stored env (overlay m txn') p (\<Union> (range F) \<union> snd ` set rem))"
proof -
  let ?S = "\<Union> (range F)" and ?R = "snd ` set rem"
  let ?F = "\<lambda>c. F c \<union> group_set (group_keys (length p) rem) c"
  have len: "\<not> list_ex (\<lambda>(_, key). length key \<le> length p) rem" using rem by (auto simp: list_ex_iff)
  have "\<exists>st'. insert_groups ins env p (length p) (group_keys (length p) rem) (n, txn, results, 0) = Inr st'
    \<and> loop_post env m p F ?F (n, txn, results, 0) st'"
    by (rule insert_loop[OF assms(1,2) rem kids]) (rule spec)
  then obtain st' where st': "insert_groups ins env p (length p) (group_keys (length p) rem) (n, txn, results, 0) = Inr st'"
    "loop_post env m p F ?F (n, txn, results, 0) st'" by (elim exE conjE)
  obtain n1 txn1 rs1 s1 where "st' = (n1, txn1, rs1, s1)" by (cases st')
  note loop = st'(1)[unfolded this] and lp = st'(2)[unfolded this]
  note lp = lp[unfolded loop_post_def prod.case Union_group_set]
  have kids1: "wf_kids env p (tn_children n1) (tn_child_hashes n1) ?F" using lp by (elim conjE)
  have fin: "finite ?S" by (rule wf_kids_card_range[OF kids])
  have "?S \<union> ?R = ?S \<union> (?R - ?S)" by blast
  then have "card (?S \<union> ?R) = card ?S + card (?R - ?S)" using fin by (simp add: card_Un_disjoint del: Un_Diff_cancel)
  then have s1: "s1 = card (?R - ?S)" using lp by simp
  have s1_0: "s1 = 0 \<longleftrightarrow> ?R \<subseteq> ?S" unfolding s1 by (simp add: card_eq_0_iff)
  let ?n2 = "set_items n1 (tn_items n1 + s1)"
  have n2: "?n2 = TrieNode (card (?S \<union> ?R)) (tn_children n1) (tn_child_hashes n1) None"
    using lp assms(6,7) s1 \<open>card (?S \<union> ?R) = _\<close> by (simp add: set_items_def)
  have ne: "?S \<union> ?R \<noteq> {}" using assms(3) by simp
  have wf2: "wf_node env p ?n2 (?S \<union> ?R)"
    unfolding n2 by (rule wf_innerI[OF kids1 Union_group_set [symmetric] ne refl assms(8)])
  have cs: "tn_children n1 \<noteq> []" using kids1 ne Union_group_set[of F "length p" rem] by (fastforce simp: wf_kids_def)
  show ?thesis
  proof (cases "?R \<subseteq> ?S")
    case True
    then have "?n2 = n1" using s1_0 by (simp add: set_items_def)
    with True wf2 lp len loop s1_0 show ?thesis
      by (auto simp: insert_children_def)
  next
    case False
    from update_hash_wf[OF wf2 assms(1)] obtain ch' where ch': "update_hash env ?n2 ch p = Inr ch'"
      "parent_hashes env p ?n2 ch ch'" by blast
    have eq: "insert_children ins env n ch txn p rem results (length p) = Inr (?n2, ch', put_to_txn env ?n2 txn1 p, rs1)"
      using len loop s1_0 False ch'(1) by (simp add: insert_children_def Let_def)
    have st: "stored env (overlay m (put_to_txn env ?n2 txn1 p)) p (?S \<union> ?R)"
      if "codec_ok env" "card (?S \<union> ?R) < 2 ^ 32" "kids_stored env (overlay m txn) p F"
    proof -
      have "kids_stored env (overlay m txn1) p ?F" using lp that by (elim conjE) (rule mp, rule mp, rule mp)
      from kids_stored_put[OF this] have k: "kids_stored env (overlay m (put_to_txn env ?n2 txn1 p)) p ?F" .
      show ?thesis
        by (rule stored_inner[OF wf2[unfolded n2] kids1 Union_group_set [symmetric] cs k that(1,2)])
          (simp add: put_to_txn_row n2)
    qed
    show ?thesis
      by (intro exI conjI, rule eq, rule wf2) (use lp s1 False ch'(2) st outside_put in auto)
  qed
qed

section \<open>What the rows say about the children\<close>

lemma set_hm_insert: "set (hm_insert k v m) \<subseteq> insert (k, v) (set m)"
  by (induction m) (auto split: if_splits)

lemma foldl_Serialized: "snd ` set acc \<subseteq> {Serialized}
  \<Longrightarrow> snd ` set (foldl (\<lambda>m c. hm_insert (f c) Serialized m) acc cs) \<subseteq> {Serialized}"
proof (induction cs arbitrary: acc)
  case (Cons c cs)
  have "snd ` set (hm_insert (f c) Serialized acc) \<subseteq> {Serialized}"
    using Cons.prems image_mono[OF set_hm_insert[of "f c" Serialized acc], of snd] by (simp only: image_insert snd_conv) blast
  then show ?case using Cons.IH by simp
qed simp

lemma load_row_Serialized: "load_row env m p = Some n \<Longrightarrow> (c, ct) \<in> set (tn_children n) \<Longrightarrow> ct = Serialized"
  using foldl_Serialized[of "[]" "\<lambda>c. ucast (c :: u32)"]
  by (force simp: load_row_def deserialize_node_def split: option.splits sum.splits)

lemma load_child_row:
  assumes "load_child (env_at env m) p c Serialized = Inr n" "wf_node env' p' n S"
  shows "load_row env m (p @ [c]) = Some n"
proof -
  have "n \<noteq> default_node" using assms(2) by (auto simp: default_node_def elim: wf_node.cases)
  with assms(1) show ?thesis
    by (auto simp: load_row_def load_child_def make_primary_key_Some deserialize_node_cong[of "env_at env m" env]
        split: option.splits sum.splits)
qed

lemma stored_kids:
  assumes "stored env m p S" "wf_kids env' p cs chs F" "S = \<Union> (range F)"
    and "UNCOMPACTED_LENGTH \<le> length p \<longrightarrow> 2 \<le> card S"
  shows "kids_stored env m p F"
proof -
  from assms(1) obtain n where n: "load_row env m p = Some n" "wf_node (env_at env m) p n S"
    by (auto simp: stored_def)
  have "\<not> is_leaf n" using wf_leaf_iff[OF n(2)] assms(4) by auto
  from wf_innerE[OF n(2) this] obtain cs0 chs0 F0 where n0: "n = TrieNode (card S) cs0 chs0 None"
    "wf_kids (env_at env m) p cs0 chs0 F0" "S = \<Union> (range F0)" by metis
  show ?thesis unfolding kids_stored_def
  proof (intro allI impI)
    fix c assume ne: "F c \<noteq> {}"
    have eq: "F c = F0 c"
      by (rule trans[OF wf_kids_group[OF assms(2), of c, folded assms(3)]
            wf_kids_group[OF n0(2), of c, folded n0(3), symmetric]])
    with ne have "c \<in> fst ` set cs0" using wf_kids_nonempty_iff[OF n0(2)] by blast
    from wf_kids_child[OF n0(2) this] obtain ct m' where
      m': "(c, ct) \<in> set cs0" "load_child (env_at env m) p c ct = Inr m'" "wf_node (env_at env m) (p @ [c]) m' (F0 c)"
      by metis
    have "ct = Serialized" using load_row_Serialized[OF n(1)] m'(1) n0(1) by simp
    with load_child_row m'(2,3) eq show "stored env m (p @ [c]) (F c)" by (auto simp: stored_def)
  qed
qed

section \<open>The leaf phases\<close>

lemma slice_prefix: "prefix p k \<Longrightarrow> slice_to k (length p) = Some p"
  by (auto simp: slice_to_Some_iff prefix_def)

lemma wf_new_leaf:
  "UNCOMPACTED_LENGTH \<le> length p \<Longrightarrow> prefix p k \<Longrightarrow> wf_node env p (TrieNode 1 [] [] (Some k)) {k}"
  by (rule wf_leaf) auto

lemma insert_at_empty_leaf:
  assumes "hash32 env" "UNCOMPACTED_LENGTH \<le> length p" "prefix p (last keys)"
  shows "\<exists>ch'. insert_at_leaf env default_node ch txn keys p results
      = Inr (TrieNode 1 [] [] (Some (last keys)), ch',
             put_to_txn env (TrieNode 1 [] [] (Some (last keys))) txn p, butlast keys, results[0 := True], True)
    \<and> parent_hashes env p (TrieNode 1 [] [] (Some (last keys))) ch ch'"
proof -
  let ?n = "TrieNode 1 [] [] (Some (last keys))"
  have "last keys \<noteq> []" using assms(2,3) by (auto simp: UNCOMPACTED_LENGTH_def)
  moreover have "set_items (set_key default_node (Some (last keys))) (tn_items default_node + 1) = ?n"
    by (simp add: set_items_def set_key_def default_node_def)
  moreover from update_hash_wf[OF wf_new_leaf[OF assms(2,3)] assms(1)] obtain ch' where
    "update_hash env ?n ch p = Inr ch'" "parent_hashes env p ?n ch ch'" by blast
  ultimately show ?thesis by (simp add: insert_at_leaf_def default_node_def Let_def)
qed

lemma put_leaf_stored:
  assumes "UNCOMPACTED_LENGTH \<le> length p" "prefix p k" "codec_ok env"
  shows "stored env (overlay m (put_to_txn env (TrieNode 1 [] [] (Some k)) txn p)) p {k}"
  by (rule stored_leaf[OF wf_new_leaf[OF assms(1,2)]]) (simp_all add: is_leaf_def assms put_to_txn_row)

lemma insert_fresh_leaf:
  assumes "hash32 env" "UNCOMPACTED_LENGTH \<le> length p" "prefix p k"
  shows "insert_post env m p {} {k} ch txn 1 0 (insert_step ins env default_node ch txn [k] (length p))"
proof -
  let ?n = "TrieNode 1 [] [] (Some k)"
  from insert_at_empty_leaf[OF assms(1,2), of "[k]" ch txn "[False]"] assms(3) obtain ch' where
    ch': "insert_at_leaf env default_node ch txn [k] p [False] = Inr (?n, ch', put_to_txn env ?n txn p, [], [True], True)"
    "parent_hashes env p ?n ch ch'" by auto
  have "insert_step ins env default_node ch txn [k] (length p) = Inr (?n, ch', put_to_txn env ?n txn p, [True])"
    using assms(2,3) ch'(1) by (simp add: insert_step_def slice_prefix is_leaf_def default_node_def)
  then show ?thesis
    using ch'(2) wf_new_leaf[OF assms(2,3)] put_leaf_stored[OF assms(2,3)] outside_put
    by (auto simp: insert_post_def persists_def)
qed

text \<open>What the phases of one step may assume of the recursive call.\<close>

definition ins_contract :: "trie_env \<Rightarrow> (bytes \<rightharpoonup> bytes) \<Rightarrow> bytes \<Rightarrow> bytes set \<Rightarrow> node_call \<Rightarrow> bool" where
  "ins_contract env m p K ins \<longleftrightarrow>
     (\<forall>c S keys child ch txn. keys \<noteq> [] \<and> set keys \<subseteq> K \<and> (\<forall>k\<in>set keys. prefix (p @ [c]) k)
        \<and> wf_or_empty env (p @ [c]) child S \<and> prefix_free (S \<union> set keys)
        \<longrightarrow> insert_post env m (p @ [c]) S (set keys) ch txn (length keys) 0 (ins child ch txn keys (Suc (length p)))) \<and>
     (\<forall>c k ch txn. UNCOMPACTED_LENGTH \<le> length p \<and> prefix (p @ [c]) k \<and> (\<exists>k'\<in>K. length p < length k')
        \<longrightarrow> insert_post env m (p @ [c]) {} {k} ch txn 1 0 (ins default_node ch txn [k] (Suc (length p))))"

lemma ins_contractD:
  assumes "ins_contract env m p K ins"
  shows ins_contract_call: "keys \<noteq> [] \<Longrightarrow> set keys \<subseteq> K \<Longrightarrow> \<forall>k\<in>set keys. prefix (p @ [c]) k
      \<Longrightarrow> wf_or_empty env (p @ [c]) child S \<Longrightarrow> prefix_free (S \<union> set keys)
      \<Longrightarrow> insert_post env m (p @ [c]) S (set keys) ch txn (length keys) 0 (ins child ch txn keys (Suc (length p)))"
    and ins_contract_fresh: "UNCOMPACTED_LENGTH \<le> length p \<Longrightarrow> prefix (p @ [c]) k \<Longrightarrow> k' \<in> K \<Longrightarrow> length p < length k'
      \<Longrightarrow> insert_post env m (p @ [c]) {} {k} ch txn 1 0 (ins default_node ch txn [k] (Suc (length p)))"
  using assms unfolding ins_contract_def by blast+

lemma split_leaf_ok:
  assumes "hash32 env" "UNCOMPACTED_LENGTH \<le> length p" "prefix p k0" "length p < length k0"
    and "fst ` set chs \<subseteq> {k0 ! length p}" "hm_ok chs"
    and fresh: "insert_post env m (p @ [k0 ! length p]) {} {k0} chs txn 1 0
        (ins default_node chs txn [k0] (Suc (length p)))"
  shows "\<exists>n2 txn2. split_leaf_node ins env (TrieNode 1 [] chs (Some k0)) txn (length p) = Inr (n2, txn2)
    \<and> tn_items n2 = 1 \<and> tn_key n2 = None
    \<and> wf_kids env p (tn_children n2) (tn_child_hashes n2) ((\<lambda>_. {})(k0 ! length p := {k0}))
    \<and> (\<forall>row. outside p row \<longrightarrow> overlay m txn2 row = overlay m txn row)
    \<and> (codec_ok env \<longrightarrow> kids_stored env (overlay m txn2) p ((\<lambda>_. {})(k0 ! length p := {k0})))"
proof -
  let ?c = "k0 ! length p" and ?n = "TrieNode 1 [] chs (Some k0)"
  from fresh obtain child ch' txn' rs where
    ins: "ins default_node chs txn [k0] (Suc (length p)) = Inr (child, ch', txn', rs)"
    and wf: "wf_node env (p @ [?c]) child {k0}" and ph: "parent_hashes env (p @ [?c]) child chs ch'"
    and per: "persists env m (p @ [?c]) {} txn {k0} txn'" by (auto simp: insert_post_def)
  from wf_hash_ok[OF wf assms(1)] obtain h where h: "tn_hash env child = Inr h" by blast
  have "chs = [] \<or> (\<exists>x. chs = [(?c, x)])"
    using assms(5,6) by (cases chs; cases "tl chs") (auto simp: hm_ok_Cons)
  then have chs': "hm_insert ?c h ch' = [(?c, h)]" using ph h by (auto simp: parent_hashes_def)
  let ?n2 = "TrieNode 1 [(?c, Node child)] [(?c, h)] None"
  have eq: "split_leaf_node ins env ?n txn (length p) = Inr (?n2, put_to_txn env ?n2 txn' p)"
    using slice_prefix[OF assms(3)] assms(4) ins h chs'
    by (simp add: split_leaf_node_def index_at_def put_child_def set_child_hashes_def set_key_def Let_def)
  have "wf_kids env p [] [] (\<lambda>_. {})" by (simp add: wf_kids_def)
  from wf_kids_update[OF this wf h] have kids: "wf_kids env p (tn_children ?n2) (tn_child_hashes ?n2) ((\<lambda>_. {})(?c := {k0}))"
    by simp
  have "kids_stored env (overlay m (put_to_txn env ?n2 txn' p)) p ((\<lambda>_. {})(?c := {k0}))" if "codec_ok env"
    by (rule kids_stored_put) (use per that in \<open>auto simp: kids_stored_def persists_def\<close>)
  moreover have "overlay m (put_to_txn env ?n2 txn' p) row = overlay m txn row" if "outside p row" for row
    using per outside_put[OF that] outside_snoc[OF that] by (simp add: persists_def)
  ultimately show ?thesis using eq kids by auto
qed

text \<open>A leaf that meets keys other than its own.\<close>

definition rest_keys :: "trie_node \<Rightarrow> nat \<Rightarrow> bytes list \<Rightarrow> (nat \<times> bytes) list" where
  "rest_keys n off keys =
     map (\<lambda>(i, k). (i + off, k)) (filter (\<lambda>(i, k). bytes_compare (leaf_key n) k \<noteq> 0) (enumerate 0 keys))"

lemma rest_keys_set: "snd ` set (rest_keys n off keys) = {k \<in> set keys. k \<noteq> leaf_key n}"
proof -
  have "map snd (rest_keys n off keys) = filter (\<lambda>k. bytes_compare (leaf_key n) k \<noteq> 0) (map snd (enumerate 0 keys))"
    by (simp add: rest_keys_def filter_map comp_def case_prod_unfold del: map_snd_enumerate)
  then have "set (map snd (rest_keys n off keys)) = {k \<in> set keys. bytes_compare (leaf_key n) k \<noteq> 0}" by simp
  then show ?thesis by auto
qed

lemma rest_keys_index: "(i, k) \<in> set (rest_keys n off keys) \<Longrightarrow> off \<le> i \<and> i - off < length keys"
  by (auto simp: rest_keys_def in_set_enumerate_eq)

lemma rest_keys_distinct: "distinct (map fst (rest_keys n off keys))"
proof -
  have "map fst (rest_keys n off keys)
      = map (\<lambda>i. i + off) (map fst (filter (\<lambda>(i, k). bytes_compare (leaf_key n) k \<noteq> 0) (enumerate 0 keys)))"
    by (simp add: rest_keys_def case_prod_unfold)
  moreover have "distinct (map fst (filter (\<lambda>(i, k). bytes_compare (leaf_key n) k \<noteq> 0) (enumerate 0 keys)))"
    by (rule distinct_map_filter) simp
  ultimately show ?thesis by (simp add: distinct_map inj_on_def del: map_map)
qed

lemma leaf_rest_ok:
  assumes "hash32 env" "UNCOMPACTED_LENGTH \<le> length p" "prefix p k0" "hm_ok chs"
    and "fst ` set chs \<subseteq> (if length p < length k0 then {k0 ! length p} else {})"
    and "rest_keys n off keys \<noteq> []" and n: "n = TrieNode 1 [] chs (Some k0)"
    and "\<forall>i < length keys. i + off < length results \<and> \<not> results ! (i + off)"
    and pre: "\<forall>k\<in>set keys. prefix p k" and free: "prefix_free (insert k0 (set keys))"
    and ins: "ins_contract env m p K ins" "set keys \<subseteq> K"
  shows "\<exists>n2 txn2 n' ch' txn' rs. split_leaf_node ins env n txn (length p) = Inr (n2, txn2)
    \<and> insert_children ins env n2 ch txn2 p (rest_keys n off keys) results (length p) = Inr (n', ch', txn', rs)
    \<and> wf_node env p n' (insert k0 (set keys)) \<and> length rs = length results
    \<and> trues rs = trues results + card (set keys - {k0}) \<and> parent_hashes env p n' ch ch'
    \<and> (\<forall>row. outside p row \<longrightarrow> overlay m txn' row = overlay m txn row)
    \<and> (codec_ok env \<longrightarrow> card (insert k0 (set keys)) < 2 ^ 32 \<longrightarrow> stored env (overlay m txn') p (insert k0 (set keys)))"
proof -
  let ?rem = "rest_keys n off keys" and ?c = "k0 ! length p"
  let ?F = "(\<lambda>_. {})(?c := {k0})"
  have R: "snd ` set ?rem = set keys - {k0}" by (auto simp: rest_keys_set n leaf_key_def)
  have long: "length p < length k" if "k \<in> insert k0 (set keys)" "k' \<in> insert k0 (set keys)" "k \<noteq> k'" for k k'
  proof -
    have "prefix p k" "prefix p k'" using that(1,2) pre assms(3) by auto
    then show ?thesis using prefix_free_longer[OF free that, of "length p"] by (auto simp: prefix_def)
  qed
  from R assms(6) obtain k1 where k1: "k1 \<in> set keys" "k1 \<noteq> k0"
    by (metis Diff_iff all_not_in_conv image_is_empty set_empty singletonI)
  then have len: "length p < length k0" "length p < length k1" using long[of k0 k1] long[of k1 k0] by auto
  have "insert_post env m (p @ [?c]) {} {k0} chs txn 1 0 (ins default_node chs txn [k0] (Suc (length p)))"
    using ins_contract_fresh[OF ins(1) assms(2), of ?c k0 k1] k1(1) ins(2) len assms(3)
    by (auto simp: prefix_snoc_nth)
  from split_leaf_ok[where ins = ins, OF assms(1-3) len(1) _ assms(4) this] assms(5) len(1) obtain n2 txn2 where
    sp: "split_leaf_node ins env n txn (length p) = Inr (n2, txn2)" "tn_items n2 = 1" "tn_key n2 = None"
      "wf_kids env p (tn_children n2) (tn_child_hashes n2) ?F"
      "\<forall>row. outside p row \<longrightarrow> overlay m txn2 row = overlay m txn row"
      "codec_ok env \<longrightarrow> kids_stored env (overlay m txn2) p ?F" unfolding n by auto
  have S: "\<Union> (range ?F) = {k0}" by auto
  have all: "{k0} \<union> (set keys - {k0}) = insert k0 (set keys)" by auto
  have "{k0, k1} \<subseteq> insert k0 (set keys)" using k1 by auto
  then have "2 \<le> card (insert k0 (set keys))" using card_mono[of "insert k0 (set keys)" "{k0, k1}"] k1(2) by simp
  moreover have "\<not> set keys - {k0} \<subseteq> {k0}" using k1 by auto
  moreover have "\<exists>n' ch' txn' rs. insert_children ins env n2 ch txn2 p ?rem results (length p) = Inr (n', ch', txn', rs)
    \<and> wf_node env p n' (\<Union> (range ?F) \<union> snd ` set ?rem) \<and> length rs = length results
    \<and> trues rs = trues results + card (snd ` set ?rem - \<Union> (range ?F))
    \<and> (if snd ` set ?rem \<subseteq> \<Union> (range ?F) then ch' = ch \<and> txn' = txn2 else parent_hashes env p n' ch ch')
    \<and> (\<forall>row. outside p row \<longrightarrow> overlay m txn' row = overlay m txn2 row)
    \<and> (codec_ok env \<longrightarrow> card (\<Union> (range ?F) \<union> snd ` set ?rem) < 2 ^ 32 \<longrightarrow> kids_stored env (overlay m txn2) p ?F
         \<longrightarrow> \<not> snd ` set ?rem \<subseteq> \<Union> (range ?F) \<longrightarrow> stored env (overlay m txn') p (\<Union> (range ?F) \<union> snd ` set ?rem))"
  proof (rule insert_children_ok[OF assms(1) rest_keys_distinct assms(6) _ sp(4)])
    show "\<forall>(i, k) \<in> set ?rem. prefix p k \<and> length p < length k \<and> i < length results \<and> \<not> results ! i"
    proof (clarify, intro conjI)
      fix i k assume ik: "(i, k) \<in> set ?rem"
      then have k: "k \<in> set keys" "k \<noteq> k0" using R by force+
      then show "prefix p k" "length p < length k" using pre long[of k k0] by auto
      from rest_keys_index[OF ik] assms(8) show "i < length results" "\<not> results ! i"
        by (metis le_add_diff_inverse2)+
    qed
    show "tn_items n2 = card (\<Union> (range ?F))" "tn_key n2 = None" unfolding S using sp by simp_all
    show "2 \<le> card (\<Union> (range ?F) \<union> snd ` set ?rem)" unfolding S R all by fact
    fix c keys' child ch txn
    assume k': "keys' \<noteq> []" "set keys' \<subseteq> snd ` set ?rem" "\<forall>k\<in>set keys'. k ! length p = c"
      and wf: "wf_or_empty env (p @ [c]) child (?F c)"
    have sub: "set keys' \<subseteq> set keys" using k'(2) R by blast
    have "\<forall>k\<in>set keys'. prefix (p @ [c]) k"
    proof
      fix k assume k: "k \<in> set keys'"
      then have "k \<in> set keys" "k \<noteq> k0" using k'(2) R by auto
      with k k'(3) pre long[of k k0] show "prefix (p @ [c]) k" by (simp add: prefix_snoc_nth)
    qed
    moreover have "?F c \<union> set keys' \<subseteq> insert k0 (set keys)" using sub by auto
    from prefix_free_mono[OF free this] have "prefix_free (?F c \<union> set keys')" .
    ultimately show "insert_post env m (p @ [c]) (?F c) (set keys') ch txn (length keys') 0 (ins child ch txn keys' (Suc (length p)))"
      using ins_contract_call[OF ins(1) k'(1) _ _ wf] sub ins(2) by blast
  qed
  ultimately show ?thesis unfolding S R all using sp(1,5,6) by (auto split: if_splits)
qed

section \<open>One step, and the whole call\<close>

lemma insert_step_leaf_eq:
  assumes "keys \<noteq> []" "prefix p (hd keys)" "UNCOMPACTED_LENGTH \<le> length p" "is_leaf n"
    and "insert_at_leaf env n ch txn keys p (map (\<lambda>_. False) keys) = Inr (n1, ch1, txn1, keys1, results1, inserted)"
  shows "insert_step ins env n ch txn keys (length p) =
    (let rem = rest_keys n1 (if inserted then 1 else 0) keys1
     in if keys1 = [] \<or> rem = [] then Inr (n1, ch1, txn1, results1)
        else case split_leaf_node ins env n1 txn1 (length p) of
          Inl e \<Rightarrow> Inl e
        | Inr (n2, txn2) \<Rightarrow> insert_children ins env n2 ch1 txn2 p rem results1 (length p))"
  using assms by (simp add: insert_step_def slice_prefix rest_keys_def Let_def)

lemma insert_step_full_leaf:
  assumes "hash32 env" "keys \<noteq> []" "\<forall>k\<in>set keys. prefix p k" "is_leaf n" "wf_node env p n S"
    and "prefix_free (S \<union> set keys)" "ins_contract env m p (set keys) ins"
  shows "insert_post env m p S (set keys) ch txn (length keys) 0 (insert_step ins env n ch txn keys (length p))"
proof -
  from wf_leafE[OF assms(5,4)] obtain k0 chs where n: "n = TrieNode 1 [] chs (Some k0)" "S = {k0}" "prefix p k0"
    "hm_ok chs" "UNCOMPACTED_LENGTH \<le> length p" "fst ` set chs \<subseteq> (if length p < length k0 then {k0 ! length p} else {})" .
  let ?r = "map (\<lambda>_. False) keys" and ?rem = "rest_keys n 0 keys"
  have at: "insert_at_leaf env n ch txn keys p ?r = Inr (n, ch, txn, keys, ?r, False)"
    by (simp add: insert_at_leaf_def n(1))
  have hd: "prefix p (hd keys)" using assms(2,3) by simp
  note step = insert_step_leaf_eq[OF assms(2) hd n(5) assms(4) at, of ins]
  have R: "snd ` set ?rem = set keys - {k0}" by (auto simp: rest_keys_set n leaf_key_def)
  show ?thesis
  proof (cases "?rem = []")
    case True
    with R n(2) have sub: "set keys \<subseteq> S" by auto
    then have un: "S \<union> set keys = S" "set keys - S = {}" by auto
    from step True have "insert_step ins env n ch txn keys (length p) = Inr (n, ch, txn, ?r)" by simp
    with assms(5) sub wf_nonempty[OF assms(5)] show ?thesis by (simp add: insert_post_def persists_def un)
  next
    case False
    have idx: "\<forall>i < length keys. i + 0 < length ?r \<and> \<not> ?r ! (i + 0)" by simp
    have free: "prefix_free (insert k0 (set keys))" using assms(6) n(2) by simp
    from leaf_rest_ok[OF assms(1) n(5,3,4,6) False n(1) idx assms(3) free assms(7) subset_refl, of txn ch]
    obtain n2 txn2 n' ch' txn' rs where r: "split_leaf_node ins env n txn (length p) = Inr (n2, txn2)"
      "insert_children ins env n2 ch txn2 p ?rem ?r (length p) = Inr (n', ch', txn', rs)"
      "wf_node env p n' (insert k0 (set keys))" "length rs = length ?r" "trues rs = trues ?r + card (set keys - {k0})"
      "parent_hashes env p n' ch ch'" "\<forall>row. outside p row \<longrightarrow> overlay m txn' row = overlay m txn row"
      "codec_ok env \<longrightarrow> card (insert k0 (set keys)) < 2 ^ 32 \<longrightarrow> stored env (overlay m txn') p (insert k0 (set keys))"
      by blast
    have "insert_step ins env n ch txn keys (length p) = Inr (n', ch', txn', rs)"
      using step False assms(2) r(1,2) by (simp add: Let_def)
    moreover have "set keys - {k0} \<noteq> {}" using False unfolding R [symmetric] by simp
    then have "\<not> set keys \<subseteq> {k0}" by blast
    ultimately show ?thesis using r n(2) by (simp add: insert_post_def persists_def)
  qed
qed

lemma parent_hashes_trans:
  "parent_hashes env p n ch ch1 \<Longrightarrow> parent_hashes env p n' ch1 ch2 \<Longrightarrow> parent_hashes env p n' ch ch2"
  by (auto simp: parent_hashes_def split: if_splits)

lemma insert_step_empty_leaf:
  assumes "hash32 env" "keys \<noteq> []" "\<forall>k\<in>set keys. prefix p k" "UNCOMPACTED_LENGTH \<le> length p"
    and "prefix_free (set keys)" "ins_contract env m p (set keys) ins"
  shows "insert_post env m p {} (set keys) ch txn (length keys) 0 (insert_step ins env default_node ch txn keys (length p))"
proof -
  let ?k = "last keys" and ?n = "TrieNode 1 [] [] (Some (last keys))" and ?keys = "butlast keys"
  let ?r = "(map (\<lambda>_. False) keys)[0 := True]" and ?txn = "put_to_txn env (TrieNode 1 [] [] (Some (last keys))) txn p"
  have k: "prefix p ?k" "prefix p (hd keys)" using assms(2,3) by simp_all
  from insert_at_empty_leaf[OF assms(1,4) k(1), of ch txn "map (\<lambda>_. False) keys"] obtain ch1 where
    at: "insert_at_leaf env default_node ch txn keys p (map (\<lambda>_. False) keys) = Inr (?n, ch1, ?txn, ?keys, ?r, True)"
    and ph: "parent_hashes env p ?n ch ch1" by blast
  have leaf: "is_leaf default_node" by (simp add: is_leaf_def default_node_def)
  note step = insert_step_leaf_eq[OF assms(2) k(2) assms(4) leaf at, of ins]
  have tr: "trues ?r = 1" using assms(2) by (simp add: trues_update_True)
  have keys: "set keys = insert ?k (set ?keys)" using arg_cong[OF append_butlast_last_id[OF assms(2)], of set] by simp
  have R: "snd ` set (rest_keys ?n 1 ?keys) = set ?keys - {?k}" by (auto simp: rest_keys_set leaf_key_def)
  show ?thesis
  proof (cases "?keys = [] \<or> rest_keys ?n 1 ?keys = []")
    case True
    then have "set keys = {?k}" using R keys by auto
    moreover from step True have "insert_step ins env default_node ch txn keys (length p) = Inr (?n, ch1, ?txn, ?r)"
      by (simp add: Let_def)
    ultimately show ?thesis
      using wf_new_leaf[OF assms(4) k(1)] ph tr put_leaf_stored[OF assms(4) k(1)] outside_put
      by (simp add: insert_post_def persists_def)
  next
    case False
    have idx: "\<forall>i < length ?keys. i + 1 < length ?r \<and> \<not> ?r ! (i + 1)" by auto
    have free: "prefix_free (insert ?k (set ?keys))" using assms(5) keys by simp
    have pre: "\<forall>k\<in>set ?keys. prefix p k" and sub: "set ?keys \<subseteq> set keys" using assms(3) keys by auto
    have ne: "rest_keys ?n 1 ?keys \<noteq> []" using False by simp
    have chs0: "fst ` set ([] :: (u8 \<times> bytes) list) \<subseteq> (if length p < length ?k then {?k ! length p} else {})" by simp
    from leaf_rest_ok[OF assms(1,4) k(1) hm_ok_Nil chs0 ne refl idx pre free assms(6) sub, of ?txn ch1, folded keys]
    obtain n2 txn2 n' ch' txn' rs where r: "split_leaf_node ins env ?n ?txn (length p) = Inr (n2, txn2)"
      "insert_children ins env n2 ch1 txn2 p (rest_keys ?n 1 ?keys) ?r (length p) = Inr (n', ch', txn', rs)"
      "wf_node env p n' (set keys)" "length rs = length ?r" "trues rs = trues ?r + card (set ?keys - {?k})"
      "parent_hashes env p n' ch1 ch'" "\<forall>row. outside p row \<longrightarrow> overlay m txn' row = overlay m ?txn row"
      "codec_ok env \<longrightarrow> card (set keys) < 2 ^ 32 \<longrightarrow> stored env (overlay m txn') p (set keys)"
      by blast
    have "insert_step ins env default_node ch txn keys (length p) = Inr (n', ch', txn', rs)"
      using step False r(1,2) by (simp add: Let_def)
    moreover have "trues rs = card (set keys)"
      unfolding r(5) tr keys by (simp add: card.insert_remove)
    ultimately show ?thesis
      using r parent_hashes_trans[OF ph r(6)] outside_put assms(2) by (simp add: insert_post_def persists_def)
  qed
qed

lemma wf_or_empty_kids:
  assumes "wf_or_empty env p n S" "\<not> (UNCOMPACTED_LENGTH \<le> length p \<and> is_leaf n)"
  obtains F where "wf_kids env p (tn_children n) (tn_child_hashes n) F" "S = \<Union> (range F)"
    "tn_items n = card S" "tn_key n = None" "UNCOMPACTED_LENGTH \<le> length p \<longrightarrow> 2 \<le> card S"
proof (cases "n = default_node \<and> S = {}")
  case True
  moreover have "wf_kids env p [] [] (\<lambda>_. {})" by (simp add: wf_kids_def)
  ultimately show thesis using that[of "\<lambda>_. {}"] assms(2) by (simp add: default_node_def is_leaf_def)
next
  case False
  then have wf: "wf_node env p n S" using assms(1) by (auto simp: wf_or_empty_def)
  then have "\<not> is_leaf n" using wf_leaf_iff[OF wf] assms(2) by blast
  from wf_innerE[OF wf this] obtain cs chs F where "n = TrieNode (card S) cs chs None" "wf_kids env p cs chs F"
    "S = \<Union> (range F)" "UNCOMPACTED_LENGTH \<le> length p \<longrightarrow> 2 \<le> card S" by metis
  with that show thesis by simp
qed

lemma inner_keys_longer:
  assumes "wf_kids env p cs chs F" "S = \<Union> (range F)" "prefix_free (S \<union> K)" "k \<in> K" "prefix p k"
    and "UNCOMPACTED_LENGTH \<le> length k" "UNCOMPACTED_LENGTH \<le> length p \<longrightarrow> 2 \<le> card S"
  shows "length p < length k"
proof (rule ccontr)
  assume "\<not> length p < length k"
  with assms(5) have k: "k = p" by (auto simp: prefix_def)
  with assms(6,7) have "S \<noteq> {}" by auto
  then obtain k' c where k': "k' \<in> F c" using assms(2) by auto
  from wf_kids_keys[OF assms(1) k'] k have "prefix k k'" "k \<noteq> k'" by auto
  moreover have "k' \<in> S \<union> K" "k \<in> S \<union> K" using k' assms(2,4) by auto
  ultimately show False using assms(3) by (auto simp: prefix_free_def)
qed

lemma insert_step_inner:
  assumes "hash32 env" "keys \<noteq> []" "\<forall>k\<in>set keys. prefix p k \<and> UNCOMPACTED_LENGTH \<le> length k"
    and "wf_or_empty env p n S" "\<not> (UNCOMPACTED_LENGTH \<le> length p \<and> is_leaf n)"
    and "prefix_free (S \<union> set keys)" "ins_contract env m p (set keys) ins"
  shows "insert_post env m p S (set keys) ch txn (length keys) 0 (insert_step ins env n ch txn keys (length p))"
proof -
  from wf_or_empty_kids[OF assms(4,5)] obtain F where
    kids: "wf_kids env p (tn_children n) (tn_child_hashes n) F" and S: "S = \<Union> (range F)"
    and n: "tn_items n = card S" "tn_key n = None" and two: "UNCOMPACTED_LENGTH \<le> length p \<longrightarrow> 2 \<le> card S" .
  let ?rem = "enumerate 0 keys" and ?r = "map (\<lambda>_. False) keys"
  have R: "snd ` set ?rem = set keys" by (metis list.set_map map_snd_enumerate)
  have long: "length p < length k" if "k \<in> set keys" for k
    using inner_keys_longer[OF kids S assms(6) that _ _ two] assms(3) that by blast
  have step: "insert_step ins env n ch txn keys (length p) = insert_children ins env n ch txn p ?rem ?r (length p)"
    using assms(2,3,5) slice_prefix[of p "hd keys"] by (auto simp: insert_step_def)
  have "\<exists>n' ch' txn' rs. insert_children ins env n ch txn p ?rem ?r (length p) = Inr (n', ch', txn', rs)
    \<and> wf_node env p n' (\<Union> (range F) \<union> snd ` set ?rem) \<and> length rs = length ?r
    \<and> trues rs = trues ?r + card (snd ` set ?rem - \<Union> (range F))
    \<and> (if snd ` set ?rem \<subseteq> \<Union> (range F) then ch' = ch \<and> txn' = txn else parent_hashes env p n' ch ch')
    \<and> (\<forall>row. outside p row \<longrightarrow> overlay m txn' row = overlay m txn row)
    \<and> (codec_ok env \<longrightarrow> card (\<Union> (range F) \<union> snd ` set ?rem) < 2 ^ 32 \<longrightarrow> kids_stored env (overlay m txn) p F
         \<longrightarrow> \<not> snd ` set ?rem \<subseteq> \<Union> (range F) \<longrightarrow> stored env (overlay m txn') p (\<Union> (range F) \<union> snd ` set ?rem))"
  proof (rule insert_children_ok[OF assms(1) _ _ _ kids])
    show "distinct (map fst ?rem)" by simp
    have "length ?rem \<noteq> 0" using assms(2) by simp
    then show "?rem \<noteq> []" by (simp del: length_enumerate)
    show "\<forall>(i, k) \<in> set ?rem. prefix p k \<and> length p < length k \<and> i < length ?r \<and> \<not> ?r ! i"
      using assms(3) long by (auto simp: in_set_enumerate_eq)
    show "tn_items n = card (\<Union> (range F))" "tn_key n = None" using n S by simp_all
    show "2 \<le> card (\<Union> (range F) \<union> snd ` set ?rem)" if "UNCOMPACTED_LENGTH \<le> length p"
      unfolding R S [symmetric] using that two card_mono[of "S \<union> set keys" S] wf_kids_card_range[OF kids] S by force
    fix c keys' child ch txn
    assume k': "keys' \<noteq> []" "set keys' \<subseteq> snd ` set ?rem" "\<forall>k\<in>set keys'. k ! length p = c"
      and wf: "wf_or_empty env (p @ [c]) child (F c)"
    have sub: "set keys' \<subseteq> set keys" using k'(2) unfolding R .
    have "\<forall>k\<in>set keys'. prefix (p @ [c]) k" using k'(3) sub assms(3) long by (auto simp: prefix_snoc_nth)
    moreover have "F c \<union> set keys' \<subseteq> S \<union> set keys" using sub S by auto
    from prefix_free_mono[OF assms(6) this] have "prefix_free (F c \<union> set keys')" .
    ultimately show "insert_post env m (p @ [c]) (F c) (set keys') ch txn (length keys') 0 (ins child ch txn keys' (Suc (length p)))"
      by (intro ins_contract_call[OF assms(7) k'(1) sub _ wf])
  qed
  then obtain n' ch' txn' rs where r: "insert_children ins env n ch txn p ?rem ?r (length p) = Inr (n', ch', txn', rs)"
    "wf_node env p n' (S \<union> set keys)" "length rs = length ?r" "trues rs = trues ?r + card (set keys - S)"
    "if set keys \<subseteq> S then ch' = ch \<and> txn' = txn else parent_hashes env p n' ch ch'"
    "\<forall>row. outside p row \<longrightarrow> overlay m txn' row = overlay m txn row"
    "codec_ok env \<longrightarrow> card (S \<union> set keys) < 2 ^ 32 \<longrightarrow> kids_stored env (overlay m txn) p F
         \<longrightarrow> \<not> set keys \<subseteq> S \<longrightarrow> stored env (overlay m txn') p (S \<union> set keys)"
    unfolding R S [symmetric] by (elim exE conjE)
  have "persists env m p S txn (S \<union> set keys) txn'"
  proof (cases "set keys \<subseteq> S")
    case True
    then have "S \<union> set keys = S" "S \<noteq> {}" using assms(2) by auto
    with True r(5) show ?thesis by (simp add: persists_def)
  next
    case False
    have "S = {} \<or> stored env (overlay m txn) p S \<Longrightarrow> kids_stored env (overlay m txn) p F"
      using stored_kids[OF _ kids S two] S by (auto simp: kids_stored_def)
    with False r(6,7) show ?thesis by (auto simp: persists_def)
  qed
  with r step show ?thesis by (simp add: insert_post_def)
qed

lemma insert_step_ok:
  assumes "hash32 env" "keys \<noteq> []" "\<forall>k\<in>set keys. prefix p k \<and> UNCOMPACTED_LENGTH \<le> length k"
    and "wf_or_empty env p n S" "prefix_free (S \<union> set keys)" "ins_contract env m p (set keys) ins"
  shows "insert_post env m p S (set keys) ch txn (length keys) 0 (insert_step ins env n ch txn keys (length p))"
proof (cases "UNCOMPACTED_LENGTH \<le> length p \<and> is_leaf n")
  case True
  with assms(4) consider "wf_node env p n S" | "n = default_node" "S = {}" by (auto simp: wf_or_empty_def)
  then show ?thesis
    using insert_step_full_leaf[OF assms(1,2) _ _ _ assms(5,6), of n] assms(3,5) True
      insert_step_empty_leaf[OF assms(1,2) _ _ _ assms(6)] by cases auto
next
  case False
  then show ?thesis by (rule insert_step_inner[OF assms(1-4) _ assms(5,6)])
qed

text \<open>The whole call, with enough fuel for its longest key.\<close>

lemma tn_insert_post:
  assumes "hash32 env" "keys \<noteq> []" "\<forall>k\<in>set keys. prefix p k \<and> UNCOMPACTED_LENGTH \<le> length k \<and> length k < length p + fuel"
    and "wf_or_empty env p n S" "prefix_free (S \<union> set keys)"
  shows "insert_post env m p S (set keys) ch txn (length keys) 0 (tn_insert fuel env n ch txn keys (length p))"
  using assms(2-)
proof (induction fuel arbitrary: keys p n S ch txn)
  case 0
  then obtain k where "k \<in> set keys" by (cases keys) auto
  with 0(2) have "prefix p k" "length k < length p" by auto
  then show ?case by (auto simp: prefix_def)
next
  case (Suc fuel)
  have "ins_contract env m p (set keys) (tn_insert fuel env)"
    unfolding ins_contract_def
  proof (intro conjI allI impI; elim conjE)
    fix c S keys' child ch txn
    assume "keys' \<noteq> []" and k': "set keys' \<subseteq> set keys" "\<forall>k\<in>set keys'. prefix (p @ [c]) k"
      and "wf_or_empty env (p @ [c]) child S" "prefix_free (S \<union> set keys')"
    then show "insert_post env m (p @ [c]) S (set keys') ch txn (length keys') 0
        (tn_insert fuel env child ch txn keys' (Suc (length p)))"
      using Suc.IH[of keys' "p @ [c]" child S ch txn] Suc.prems(2) by force
  next
    fix c k ch txn
    assume a: "UNCOMPACTED_LENGTH \<le> length p" "prefix (p @ [c]) k" "\<exists>k'\<in>set keys. length p < length k'"
    then obtain f where f: "fuel = Suc f" using Suc.prems(2) by (cases fuel) auto
    show "insert_post env m (p @ [c]) {} {k} ch txn 1 0 (tn_insert fuel env default_node ch txn [k] (Suc (length p)))"
      unfolding f tn_insert.simps using insert_fresh_leaf[OF assms(1) _ a(2), of m ch txn] a(1) by simp
  qed
  then show ?case
    using insert_step_ok[OF assms(1) Suc.prems(1) _ Suc.prems(3,4)] Suc.prems(2) by simp
qed

end
