(* ===== verification/Trie_Delete.thy ===== *)
theory Trie_Delete
  imports Trie_Insert
begin

text \<open>
  Deletion removes exactly the given keys and compacts the nodes that are left with one key; lookup
  answers membership. Both keep the invariant.
\<close>

section \<open>The contract of a call\<close>

definition deleted_hashes ::
  "trie_env \<Rightarrow> bytes \<Rightarrow> trie_node \<Rightarrow> bytes set \<Rightarrow> (u8 \<times> bytes) list \<Rightarrow> (u8 \<times> bytes) list \<Rightarrow> bool" where
  "deleted_hashes env p n S ch ch' \<longleftrightarrow>
     (if p = [] then ch' = ch
      else if S = {} then ch' = hm_remove (last p) ch
      else \<exists>h. tn_hash env n = Inr h \<and> ch' = hm_insert (last p) h ch)"

definition delete_post ::
  "trie_env \<Rightarrow> bytes \<Rightarrow> trie_node \<Rightarrow> bytes set \<Rightarrow> bytes set \<Rightarrow> (u8 \<times> bytes) list \<Rightarrow> nat \<Rightarrow> node_result \<Rightarrow> bool" where
  "delete_post env p n S K ch len r \<longleftrightarrow>
     (\<exists>n' ch' txn' rs. r = Inr (n', ch', txn', rs) \<and> length rs = len \<and> trues rs = card (K \<inter> S)
        \<and> tn_items n' = card (S - K)
        \<and> (if K \<inter> S = {} then ch' = ch else deleted_hashes env p n' (S - K) ch ch')
        \<and> (S - K \<noteq> {} \<longrightarrow> wf_node env p n' (S - K))
        \<and> (S - K = {} \<and> length p < UNCOMPACTED_LENGTH \<longrightarrow> n' = default_node)
        \<and> (S - K = {} \<and> K \<inter> S \<noteq> {} \<longrightarrow> map_of txn' (make_primary_key p None) = Some None))"

definition del_contract :: "trie_env \<Rightarrow> bytes \<Rightarrow> bytes set \<Rightarrow> node_call \<Rightarrow> bool" where
  "del_contract env p K del \<longleftrightarrow>
     (\<forall>c S keys child ch txn. keys \<noteq> [] \<and> set keys \<subseteq> K \<and> (\<forall>k\<in>set keys. prefix (p @ [c]) k)
        \<and> wf_node env (p @ [c]) child S \<and> prefix_free (S \<union> set keys)
        \<longrightarrow> delete_post env (p @ [c]) child S (set keys) ch (length keys) (del child ch txn keys (Suc (length p))))"

lemma find_match_Some: "find_match k keys = Some i \<Longrightarrow> i < length keys \<and> keys ! i = k"
  by (induction keys arbitrary: i) (auto split: if_splits)

lemma find_match_None: "find_match k keys = None \<longleftrightarrow> k \<notin> set keys"
  by (induction keys) auto

lemma hash_no_key: "is_leaf n \<Longrightarrow> tn_key n = None \<Longrightarrow> tn_hash env n = Inr []"
  by (simp add: tn_hash_def)

lemma delete_step_leaf:
  assumes "keys \<noteq> []" "\<forall>k\<in>set keys. prefix p k" "is_leaf n" "wf_node env p n S"
  shows "delete_post env p n S (set keys) ch (length keys) (delete_step del env n ch txn keys (length p))"
proof -
  from wf_leafE[OF assms(4,3)] obtain k0 chs where n: "n = TrieNode 1 [] chs (Some k0)" "S = {k0}"
    "UNCOMPACTED_LENGTH \<le> length p" by metis
  let ?r = "map (\<lambda>_. False) keys"
  have step: "delete_step del env n ch txn keys (length p) = delete_at_leaf env n ch txn keys p ?r"
    using assms(1-3) slice_prefix[of p "hd keys"] by (simp add: delete_step_def)
  show ?thesis
  proof (cases "find_match k0 keys")
    case None
    then have "k0 \<notin> set keys" by (simp add: find_match_None)
    then have "set keys \<inter> S = {}" "S - set keys = S" using n(2) by auto
    moreover have "delete_at_leaf env n ch txn keys p ?r = Inr (n, ch, txn, ?r)"
      using None by (simp add: delete_at_leaf_def leaf_key_def n(1))
    moreover have "n \<noteq> default_node" "S \<noteq> {}" by (simp_all add: n default_node_def)
    ultimately show ?thesis using assms(4) wf_items[OF assms(4)] by (simp add: delete_post_def step)
  next
    case (Some i)
    then have "k0 \<in> set keys" and i: "i < length keys" by (auto dest: find_match_Some)
    then have sets: "set keys \<inter> S = {k0}" "S - set keys = {}" using n(2) by auto
    let ?n = "TrieNode 0 [] chs None"
    have "tn_hash env ?n = Inr []" by (simp add: tn_hash_def is_leaf_def)
    moreover have p: "p \<noteq> []" using n(3) by (auto simp: UNCOMPACTED_LENGTH_def)
    ultimately have "delete_at_leaf env n ch txn keys p ?r
        = Inr (?n, hm_remove (last p) ch, delete_to_txn txn p, ?r[i := True])"
      using Some by (simp add: delete_at_leaf_def leaf_key_def n(1) set_items_def set_key_def update_hash_def)
    moreover have "trues (?r[i := True]) = 1" using i by (simp add: trues_update_True)
    moreover have "map_of (delete_to_txn txn p) (make_primary_key p None) = Some None" by (simp add: delete_to_txn_def)
    ultimately show ?thesis using n(3) p by (simp add: delete_post_def step sets deleted_hashes_def)
  qed
qed

lemma delete_step_empty:
  assumes "keys \<noteq> []" "\<forall>k\<in>set keys. prefix p k \<and> k \<noteq> []"
  shows "delete_post env p default_node {} (set keys) ch (length keys) (delete_step del env default_node ch txn keys (length p))"
proof -
  have "find_match [] keys = None" using assms(2) by (auto simp: find_match_None)
  then have "delete_step del env default_node ch txn keys (length p) = Inr (default_node, ch, txn, map (\<lambda>_. False) keys)"
    using assms slice_prefix[of p "hd keys"]
    by (simp add: delete_step_def delete_at_leaf_def is_leaf_def default_node_def leaf_key_def)
  then show ?thesis by (simp add: delete_post_def default_node_def)
qed

section \<open>The loop over the groups\<close>

lemma hm_remove_insert_same [simp]: "hm_remove k (hm_insert k v m) = hm_remove k m"
  by (induction m) (auto simp: hm_remove_def)

lemma hm_remove_remove [simp]: "hm_remove k (hm_remove k m) = hm_remove k m"
  by (simp add: hm_remove_def)

lemma set_hm_remove: "set (hm_remove k m) \<subseteq> set m"
  by (auto simp: hm_remove_def)

lemma wf_kids_remove:
  assumes "wf_kids env p cs chs F"
  shows "wf_kids env p (hm_remove c cs) (hm_remove c chs) (F(c := {}))"
  unfolding wf_kids_def
proof (intro conjI allI impI)
  show "hm_ok (hm_remove c cs)" "map fst (hm_remove c chs) = map fst (hm_remove c cs)"
    using assms map_fst_hm_remove_cong by (auto simp: wf_kids_def)
  fix c' ct assume mem: "(c', ct) \<in> set (hm_remove c cs)"
  then have "c' \<noteq> c" by (simp add: hm_remove_def)
  moreover have "(c', ct) \<in> set cs" using mem set_hm_remove by fast
  ultimately show "\<exists>m h. load_child env p c' ct = Inr m \<and> wf_node env (p @ [c']) m ((F(c := {})) c')
      \<and> tn_hash env m = Inr h \<and> map_of (hm_remove c chs) c' = Some h"
    using assms by (simp add: wf_kids_def)
next
  show "\<And>c'. c' \<notin> fst ` set (hm_remove c cs) \<Longrightarrow> (F(c := {})) c' = {}"
    using assms by (auto simp: wf_kids_def)
qed

lemma delete_step_kids:
  assumes "wf_kids env p cs chs F" "hash32 env" "c \<in> fst ` set cs" "F c - K \<noteq> {}"
    and "wf_node env (p @ [c]) child' (F c - K)"
    and "if K \<inter> F c = {} then ch' = chs else deleted_hashes env (p @ [c]) child' (F c - K) chs ch'"
  shows "wf_kids env p (hm_insert c (Node child') cs) ch' (F(c := F c - K))"
proof -
  from wf_hash_ok[OF assms(5,2)] obtain h where h: "tn_hash env child' = Inr h" by blast
  have "ch' = hm_insert c h chs"
  proof (cases "K \<inter> F c = {}")
    case True
    from wf_kids_child[OF assms(1,3)] obtain m h' where
      m: "wf_node env (p @ [c]) m (F c)" "tn_hash env m = Inr h'" "map_of chs c = Some h'" by metis
    have "F c - K = F c" using True by blast
    with wf_hash_unique[OF m(1), of env child'] assms(5) m(2) h have "h' = h" by simp
    with hm_insert_same[OF wf_kids_hashes_ok[OF assms(1)] m(3)] True assms(6) show ?thesis by simp
  next
    case False
    with assms(4,6) h show ?thesis by (auto simp: deleted_hashes_def)
  qed
  with wf_kids_update[OF assms(1,5) h] show ?thesis by simp
qed

definition del_loop_post ::
  "trie_env \<Rightarrow> bytes \<Rightarrow> (u8 \<Rightarrow> bytes set) \<Rightarrow> (u8 \<Rightarrow> bytes set)
     \<Rightarrow> trie_node \<times> txn_batch \<times> bool list \<times> nat \<Rightarrow> trie_node \<times> txn_batch \<times> bool list \<times> nat \<Rightarrow> bool" where
  "del_loop_post env p F F' st st' \<longleftrightarrow>
     (case st of (n, txn, results, succ) \<Rightarrow> case st' of (n', txn', results', succ') \<Rightarrow>
        wf_kids env p (tn_children n') (tn_child_hashes n') F'
        \<and> tn_items n' = tn_items n \<and> tn_key n' = tn_key n \<and> length results' = length results
        \<and> trues results' + succ = trues results + succ'
        \<and> succ' + card (\<Union> (range F')) = succ + card (\<Union> (range F)))"

lemma Union_diff_card:
  assumes "wf_kids env p cs chs F" "\<forall>k\<in>K. k ! length p = c"
  shows "\<Union> (range (F(c := F c - K))) = \<Union> (range F) - K"
    and "card (K \<inter> F c) + card (\<Union> (range F) - K) = card (\<Union> (range F))"
proof -
  let ?S = "\<Union> (range F)"
  have other: "c' = c" if "k \<in> F c'" "k \<in> K" for k c'
    using wf_kids_keys(3)[OF assms(1) that(1)] assms(2) that(2) by simp
  show "\<Union> (range (F(c := F c - K))) = ?S - K"
  proof (rule set_eqI)
    fix k
    show "k \<in> \<Union> (range (F(c := F c - K))) \<longleftrightarrow> k \<in> ?S - K"
      using other by (fastforce split: if_splits)
  qed
  have "?S = (K \<inter> F c) \<union> (?S - K)" using other by blast
  moreover have "(K \<inter> F c) \<inter> (?S - K) = {}" by blast
  moreover have fin: "finite ?S" by (rule wf_kids_card_range[OF assms(1)])
  moreover have "finite (K \<inter> F c)" by (rule finite_subset[OF _ fin]) blast
  ultimately show "card (K \<inter> F c) + card (?S - K) = card ?S"
    by (metis card_Un_disjoint finite_Diff)
qed

lemma foldl_False_id:
  "\<forall>i\<in>set is. i < length rs \<and> \<not> rs ! i \<Longrightarrow> foldl (\<lambda>rs i. rs[i := False]) rs is = rs"
proof (induction "is")
  case (Cons i "is")
  then have "rs[i := False] = rs" by (metis list.set_intros(1) list_update_id)
  with Cons show ?case by simp
qed simp

lemma delete_groups_step:
  assumes "hash32 env" "keys \<noteq> []" "length is = length keys" "\<forall>k\<in>set keys. prefix (p @ [c]) k"
    and "distinct is" "\<forall>i\<in>set is. i < length results \<and> \<not> results ! i"
    and kids: "wf_kids env p (tn_children n) (tn_child_hashes n) F"
    and spec: "\<And>child ch txn. wf_node env (p @ [c]) child (F c) \<Longrightarrow>
      delete_post env (p @ [c]) child (F c) (set keys) ch (length keys) (del child ch txn keys (Suc (length p)))"
  shows "\<exists>n1 txn1 results1 succ1.
      delete_groups del env p (length p) ((c, (is, keys)) # groups) (n, txn, results, succ)
        = delete_groups del env p (length p) groups (n1, txn1, results1, succ1)
    \<and> del_loop_post env p F (F(c := F c - set keys)) (n, txn, results, succ) (n1, txn1, results1, succ1)
    \<and> (\<forall>i. i \<notin> set is \<longrightarrow> results1 ! i = results ! i)"
proof (cases "c \<in> fst ` set (tn_children n)")
  case False
  then have "F c = {}" using kids by (simp add: wf_kids_def)
  then have "F(c := F c - set keys) = F" by (simp add: fun_upd_idem)
  then show ?thesis
    using False foldl_False_id[OF assms(6)] kids
    by (intro exI[of _ n] exI[of _ txn] exI[of _ results] exI[of _ succ]) (simp add: del_loop_post_def)
next
  case True
  let ?K = "set keys" and ?F = "F(c := F c - set keys)"
  from wf_kids_child[OF kids True] obtain ct child where ct: "(c, ct) \<in> set (tn_children n)"
    "load_child env p c ct = Inr child" "wf_node env (p @ [c]) child (F c)" by metis
  have "hm_ok (tn_children n)" using kids by (simp add: wf_kids_def)
  from map_of_is_SomeI[OF hm_ok_distinct[OF this] ct(1)] ct(2)
  have load: "get_or_load_child env n p c = Inr child" by (simp add: get_or_load_child_def)
  from spec[OF ct(3), of "tn_child_hashes n" txn] obtain child' ch' txn' rs where
    del: "del child (tn_child_hashes n) txn keys (Suc (length p)) = Inr (child', ch', txn', rs)"
    and rs: "length rs = length keys" "trues rs = card (?K \<inter> F c)" and items: "tn_items child' = card (F c - ?K)"
    and ch': "if ?K \<inter> F c = {} then ch' = tn_child_hashes n
              else deleted_hashes env (p @ [c]) child' (F c - ?K) (tn_child_hashes n) ch'"
    and wf': "F c - ?K \<noteq> {} \<Longrightarrow> wf_node env (p @ [c]) child' (F c - ?K)"
    unfolding delete_post_def by auto
  from spread_results_ok[OF _ assms(5,6), of rs succ] rs(1) assms(3) obtain results' where
    res: "spread_results is rs (results, succ) = (results', succ + trues rs)" "length results' = length results"
      "trues results' = trues results + trues rs" "\<forall>i. i \<notin> set is \<longrightarrow> results' ! i = results ! i" by auto
  let ?n1 = "set_child_hashes (put_child n c child') ch'"
  let ?n2 = "if tn_items child' = 0 then set_child_hashes (remove_child ?n1 c) (hm_remove c ch') else ?n1"
  have fin: "finite (F c)" by (rule wf_finite[OF ct(3)])
  have kids': "wf_kids env p (tn_children ?n2) (tn_child_hashes ?n2) ?F"
  proof (cases "F c - ?K = {}")
    case True
    then have "?K \<inter> F c \<noteq> {}" using wf_nonempty[OF ct(3)] by blast
    with True ch' have "ch' = hm_remove c (tn_child_hashes n)" by (auto simp: deleted_hashes_def)
    moreover have "tn_items child' = 0" using items unfolding True by simp
    ultimately show ?thesis unfolding True using wf_kids_remove[OF kids, of c] by simp
  next
    case False
    with items fin have "tn_items child' \<noteq> 0" by simp
    with delete_step_kids[OF kids assms(1) \<open>c \<in> _\<close> False wf'[OF False] ch'] show ?thesis by simp
  qed
  have nth: "\<forall>k\<in>?K. k ! length p = c" using assms(4) by (simp add: prefix_snoc_nth)
  have "del_loop_post env p F ?F (n, txn, results, succ) (?n2, txn', results', succ + trues rs)"
    unfolding del_loop_post_def prod.case
  proof (intro conjI)
    show "succ + trues rs + card (\<Union> (range ?F)) = succ + card (\<Union> (range F))"
      unfolding Union_diff_card(1)[OF kids nth] rs(2) using Union_diff_card(2)[OF kids nth] by simp
    show "tn_items ?n2 = tn_items n" "tn_key ?n2 = tn_key n" by simp_all
  qed (use kids' res in \<open>simp_all split del: if_split\<close>)
  moreover have "delete_groups del env p (length p) ((c, (is, keys)) # groups) (n, txn, results, succ)
      = delete_groups del env p (length p) groups (?n2, txn', results', succ + trues rs)"
    using True load del res(1) by (simp add: Let_def split del: if_split)
  ultimately show ?thesis using res(4) by blast
qed

lemma del_group_set_Cons:
  assumes "c \<notin> fst ` set groups"
  shows "(\<lambda>x. F x - group_set ((c, (is, keys)) # groups) x) = (\<lambda>x. (F(c := F c - set keys)) x - group_set groups x)"
  using assms by (auto simp: group_set_def fun_eq_iff map_of_eq_None_iff[THEN iffD2])

lemma delete_groups_ok:
  assumes "hash32 env" "distinct (map fst groups)"
    and "\<forall>(c, is, keys) \<in> set groups. keys \<noteq> [] \<and> length is = length keys \<and> (\<forall>k\<in>set keys. prefix (p @ [c]) k)"
    and "distinct (concat (map (fst \<circ> snd) groups))"
    and "\<forall>i\<in>set (concat (map (fst \<circ> snd) groups)). i < length results \<and> \<not> results ! i"
    and "wf_kids env p (tn_children n) (tn_child_hashes n) F"
    and "\<And>c is keys child ch txn. (c, is, keys) \<in> set groups \<Longrightarrow> wf_node env (p @ [c]) child (F c) \<Longrightarrow>
      delete_post env (p @ [c]) child (F c) (set keys) ch (length keys) (del child ch txn keys (Suc (length p)))"
  shows "\<exists>st'. delete_groups del env p (length p) groups (n, txn, results, succ) = Inr st'
    \<and> del_loop_post env p F (\<lambda>c. F c - group_set groups c) (n, txn, results, succ) st'"
  using assms(2-)
proof (induction groups arbitrary: n txn results succ F)
  case Nil
  then show ?case by (simp add: group_set_def del_loop_post_def)
next
  case (Cons g groups)
  obtain c "is" keys where g: "g = (c, (is, keys))" by (cases g) auto
  note prems = Cons.prems[unfolded g]
  let ?F1 = "F(c := F c - set keys)" and ?F2 = "\<lambda>x. F x - group_set (g # groups) x"
  have "\<exists>n1 txn1 results1 succ1.
      delete_groups del env p (length p) ((c, (is, keys)) # groups) (n, txn, results, succ)
        = delete_groups del env p (length p) groups (n1, txn1, results1, succ1)
    \<and> del_loop_post env p F ?F1 (n, txn, results, succ) (n1, txn1, results1, succ1)
    \<and> (\<forall>i. i \<notin> set is \<longrightarrow> results1 ! i = results ! i)"
    using prems(1-5) by (intro delete_groups_step[OF assms(1)] prems(6)) auto
  then obtain n1 txn1 results1 succ1 where
    eq: "delete_groups del env p (length p) (g # groups) (n, txn, results, succ)
        = delete_groups del env p (length p) groups (n1, txn1, results1, succ1)"
    and lp: "del_loop_post env p F ?F1 (n, txn, results, succ) (n1, txn1, results1, succ1)"
    and res: "\<forall>i. i \<notin> set is \<longrightarrow> results1 ! i = results ! i" unfolding g by blast
  have c: "c \<notin> fst ` set groups" using prems(1) by simp
  have kids1: "wf_kids env p (tn_children n1) (tn_child_hashes n1) ?F1" and len1: "length results1 = length results"
    using lp by (auto simp: del_loop_post_def)
  have "\<exists>st'. delete_groups del env p (length p) groups (n1, txn1, results1, succ1) = Inr st'
    \<and> del_loop_post env p ?F1 (\<lambda>c. ?F1 c - group_set groups c) (n1, txn1, results1, succ1) st'"
  proof (rule Cons.IH)
    show "\<forall>i\<in>set (concat (map (fst \<circ> snd) groups)). i < length results1 \<and> \<not> results1 ! i"
      using prems(3,4) res len1 by auto
    show "wf_kids env p (tn_children n1) (tn_child_hashes n1) ?F1" by (rule kids1)
    fix c' is' keys' child ch txn
    assume "(c', is', keys') \<in> set groups" "wf_node env (p @ [c']) child (?F1 c')"
    moreover from this c have "?F1 c' = F c'" by force
    ultimately show "delete_post env (p @ [c']) child (?F1 c') (set keys') ch (length keys')
        (del child ch txn keys' (Suc (length p)))" using prems(6)[of c' is' keys'] by simp
  qed (use prems(1-3) in auto)
  then obtain st' where st': "delete_groups del env p (length p) groups (n1, txn1, results1, succ1) = Inr st'"
    "del_loop_post env p ?F1 ?F2 (n1, txn1, results1, succ1) st'"
    unfolding g del_group_set_Cons[OF c] by blast
  obtain n2 txn2 results2 succ2 where st2: "st' = (n2, txn2, results2, succ2)" by (cases st')
  have "del_loop_post env p F ?F2 (n, txn, results, succ) st'"
    using lp st'(2) unfolding st2 del_loop_post_def prod.case
    by (elim conjE, intro conjI) (assumption | linarith | simp only:)+
  with eq st'(1) show ?case by auto
qed

lemma delete_loop:
  assumes "hash32 env" "\<forall>k\<in>set keys. prefix p k \<and> length p < length k"
    and "wf_kids env p (tn_children n) (tn_child_hashes n) F" "prefix_free (\<Union> (range F) \<union> set keys)"
    and "del_contract env p (set keys) del"
  shows "\<exists>st'. delete_groups del env p (length p) (group_keys (length p) (enumerate 0 keys))
        (n, txn, map (\<lambda>_. False) keys, 0) = Inr st'
    \<and> del_loop_post env p F (\<lambda>c. F c - group_set (group_keys (length p) (enumerate 0 keys)) c)
        (n, txn, map (\<lambda>_. False) keys, 0) st'"
proof (rule delete_groups_ok[OF assms(1)])
  let ?rem = "enumerate 0 keys" and ?r = "map (\<lambda>_. False) keys"
  let ?G = "group_keys (length p) ?rem"
  have R: "snd ` set ?rem = set keys" by (metis list.set_map map_snd_enumerate)
  show dist: "distinct (map fst ?G)" by (rule hm_ok_distinct[OF hm_ok_group_keys])
  have mem: "keys' \<noteq> []" "is = map fst (group_at (length p) c ?rem)" "keys' = map snd (group_at (length p) c ?rem)"
    if "(c, is, keys') \<in> set ?G" for c "is" keys'
    using group_keys_member[OF that] by auto
  have keys: "\<forall>k\<in>set keys'. k \<in> set keys \<and> k ! length p = c" if "(c, is, keys') \<in> set ?G" for c "is" keys'
    unfolding mem(3)[OF that] R [symmetric] by (auto simp: group_at_def)
  have pre: "\<forall>k\<in>set keys'. prefix (p @ [c]) k" if "(c, is, keys') \<in> set ?G" for c "is" keys'
    using keys[OF that] assms(2) by (simp add: prefix_snoc_nth)
  show "\<forall>(c, is, keys) \<in> set ?G. keys \<noteq> [] \<and> length is = length keys \<and> (\<forall>k\<in>set keys. prefix (p @ [c]) k)"
  proof (clarify, intro conjI)
    fix c "is" keys' assume g: "(c, is, keys') \<in> set ?G"
    show "keys' \<noteq> []" "length is = length keys'" using mem[OF g] by simp_all
    show "\<forall>k\<in>set keys'. prefix (p @ [c]) k" by (rule pre[OF g])
  qed
  show "distinct (concat (map (fst \<circ> snd) ?G))"
    by (rule group_indices[OF _ dist]) (use mem(2) in auto)
  show "\<forall>i\<in>set (concat (map (fst \<circ> snd) ?G)). i < length ?r \<and> \<not> ?r ! i"
  proof
    fix i assume "i \<in> set (concat (map (fst \<circ> snd) ?G))"
    then obtain c "is" keys' where g: "(c, is, keys') \<in> set ?G" and i: "i \<in> set is" by auto
    from i have "i \<in> fst ` set (group_at (length p) c ?rem)" unfolding mem(2)[OF g] by simp
    then show "i < length ?r \<and> \<not> ?r ! i" by (auto simp: group_at_def in_set_enumerate_eq)
  qed
  fix c "is" keys' child ch txn
  assume g: "(c, is, keys') \<in> set ?G" and wf: "wf_node env (p @ [c]) child (F c)"
  have sub: "set keys' \<subseteq> set keys" using keys[OF g] by blast
  have "F c \<union> set keys' \<subseteq> \<Union> (range F) \<union> set keys" using sub by blast
  from prefix_free_mono[OF assms(4) this] show "delete_post env (p @ [c]) child (F c) (set keys') ch (length keys')
      (del child ch txn keys' (Suc (length p)))"
    using assms(5) mem(1)[OF g] sub pre[OF g] wf unfolding del_contract_def by blast
qed (rule assms(3))

section \<open>Compaction and the whole call\<close>

lemma del_Union_group_set:
  "(\<Union>c. F c - group_set (group_keys (length p) rem) c) = \<Union> (range F) - snd ` set rem"
  if "wf_kids env p cs chs F"
  using wf_kids_keys(3)[OF that] by (auto simp: group_set_group_keys)

lemma wf_kids_single:
  assumes "wf_kids env p cs chs F" "\<Union> (range F) = {k}"
  obtains c ct where "cs = [(c, ct)]" "F c = {k}"
proof -
  have chars: "fst ` set cs = {k ! length p}" using wf_kids_chars[OF assms(1)] assms(2) by simp
  have "distinct (map fst cs)" using assms(1) hm_ok_distinct by (auto simp: wf_kids_def)
  then have "length cs = card (fst ` set cs)" by (metis distinct_card length_map list.set_map)
  then have "length cs = 1" using chars by simp
  then obtain c ct where cs: "cs = [(c, ct)]" by (cases cs) auto
  moreover have "F c = {k}"
    using wf_kids_Union[OF assms(1)] assms(2) cs by simp
  ultimately show thesis using that by blast
qed

lemma compact_node_ok:
  assumes "wf_kids env p cs chs F" "\<Union> (range F) = {k}" "UNCOMPACTED_LENGTH \<le> length p"
    and "n = TrieNode 1 cs chs None"
  shows "length cs = 1" "\<exists>txn'. compact_node env n txn p = Inr (TrieNode 1 [] chs (Some k), txn')"
    "wf_node env p (TrieNode 1 [] chs (Some k)) {k}"
proof -
  from wf_kids_single[OF assms(1,2)] obtain c ct where cs: "cs = [(c, ct)]" "F c = {k}" .
  then show "length cs = 1" by simp
  have mem: "c \<in> fst ` set cs" using cs by simp
  from wf_kids_child[OF assms(1) mem] cs obtain child where child:
    "load_child env p c ct = Inr child" "wf_node env (p @ [c]) child {k}" by auto
  have "is_leaf child" using wf_leaf_iff[OF child(2)] assms(3) by simp
  from wf_leafE[OF child(2) this] obtain k' chs' where "child = TrieNode 1 [] chs' (Some k')" "{k} = {k'}" by metis
  then have key: "tn_key child = Some k" by simp
  have pk: "prefix p k" "length p < length k" "k ! length p = c"
    using wf_kids_keys[OF assms(1), of k c] cs by simp_all
  have "k \<noteq> []" using pk(2) by auto
  then show "\<exists>txn'. compact_node env n txn p = Inr (TrieNode 1 [] chs (Some k), txn')"
    using child(1) key by (simp add: compact_node_def assms(4) cs get_or_load_child_def remove_child_def set_key_def
        hm_remove_def Let_def)
  have "map fst chs = [c]" using assms(1) cs by (simp add: wf_kids_def)
  then have "fst ` set chs = {c}" by (metis list.set_map list.simps(15) empty_set)
  then show "wf_node env p (TrieNode 1 [] chs (Some k)) {k}"
    using wf_leaf[OF assms(3) pk(1) wf_kids_hashes_ok[OF assms(1)]] pk by simp
qed

lemma update_hash_deleted:
  assumes "wf_node env p n S" "hash32 env"
  shows "\<exists>ch'. update_hash env n ch p = Inr ch' \<and> deleted_hashes env p n S ch ch'"
proof -
  have "deleted_hashes env p n S ch = parent_hashes env p n ch"
    using wf_nonempty[OF assms(1)] by (simp add: parent_hashes_def deleted_hashes_def fun_eq_iff)
  with update_hash_wf[OF assms, of ch] show ?thesis by simp
qed

lemma delete_finish_ok:
  assumes "hash32 env" "wf_kids env p cs chs F" "S = \<Union> (range F)" "n = TrieNode (card S) cs chs None"
  shows "\<exists>n' ch' txn'. delete_finish env n ch txn p results (length p) = Inr (n', ch', txn', results)
    \<and> tn_items n' = card S \<and> deleted_hashes env p n' S ch ch'
    \<and> (S \<noteq> {} \<longrightarrow> wf_node env p n' S)
    \<and> (S = {} \<longrightarrow> n' = default_node \<and> map_of txn' (make_primary_key p None) = Some None)"
proof (cases "S = {}")
  case True
  then have "\<forall>c. c \<notin> fst ` set cs" using wf_kids_nonempty_iff[OF assms(2)] assms(3) by blast
  then have "cs = []" by (cases cs) auto
  moreover from this have "chs = []" using assms(2) by (simp add: wf_kids_def)
  ultimately have n: "n = default_node" using assms(4) True by (simp add: default_node_def)
  have "tn_hash env default_node = Inr []" by (simp add: tn_hash_def is_leaf_def default_node_def)
  with True n show ?thesis
    by (simp add: delete_finish_def update_hash_def deleted_hashes_def default_node_def delete_to_txn_def)
next
  case ne: False
  have fin: "finite S" using wf_kids_card_range[OF assms(2)] assms(3) by simp
  with ne have pos: "card S \<noteq> 0" by simp
  show ?thesis
  proof (cases "card S = 1 \<and> UNCOMPACTED_LENGTH \<le> length p")
    case True
    then obtain k where k: "\<Union> (range F) = {k}" using assms(3) by (auto simp: card_1_singleton_iff)
    have n: "n = TrieNode 1 cs chs None" using True assms(4) by simp
    note c = compact_node_ok[OF assms(2) k _ n]
    from c(2) True obtain txn' where txn': "compact_node env n txn p = Inr (TrieNode 1 [] chs (Some k), txn')" by blast
    have wf: "wf_node env p (TrieNode 1 [] chs (Some k)) S" using c(3) True k assms(3) by simp
    from update_hash_deleted[OF wf assms(1)] obtain ch' where
      "update_hash env (TrieNode 1 [] chs (Some k)) ch p = Inr ch'" "deleted_hashes env p (TrieNode 1 [] chs (Some k)) S ch ch'"
      by blast
    with txn' wf ne c(1) True show ?thesis by (simp add: delete_finish_def n)
  next
    case False
    have wf: "wf_node env p n S"
      unfolding assms(4) using False pos by (intro wf_innerI[OF assms(2,3) ne refl]) linarith
    have c: "(tn_items n = 1 \<and> length (tn_children n) = 1 \<and> length p \<ge> UNCOMPACTED_LENGTH) = False"
      using False by (simp add: assms(4))
    from update_hash_deleted[OF wf assms(1)] obtain ch' where
      "update_hash env n ch p = Inr ch'" "deleted_hashes env p n S ch ch'" by blast
    moreover have "tn_items n = card S" by (simp add: assms(4))
    ultimately show ?thesis unfolding delete_finish_def c using wf ne pos by simp
  qed
qed

lemma delete_step_inner:
  assumes "hash32 env" "keys \<noteq> []" "\<forall>k\<in>set keys. prefix p k \<and> UNCOMPACTED_LENGTH \<le> length k"
    and "wf_node env p n S" "\<not> is_leaf n" "prefix_free (S \<union> set keys)" "del_contract env p (set keys) del"
  shows "delete_post env p n S (set keys) ch (length keys) (delete_step del env n ch txn keys (length p))"
proof -
  from wf_innerE[OF assms(4,5)] obtain cs chs F where n: "n = TrieNode (card S) cs chs None"
    and kids: "wf_kids env p cs chs F" and S: "S = \<Union> (range F)"
    and two: "UNCOMPACTED_LENGTH \<le> length p \<longrightarrow> 2 \<le> card S" by metis
  let ?r = "map (\<lambda>_. False) keys" and ?G = "group_keys (length p) (enumerate 0 keys)"
  let ?F = "\<lambda>c. F c - group_set ?G c" and ?K = "set keys"
  have long: "\<forall>k\<in>?K. prefix p k \<and> length p < length k"
    using inner_keys_longer[OF kids S assms(6) _ _ _ two] assms(3) by blast
  have R: "snd ` set (enumerate 0 keys) = ?K" by (metis list.set_map map_snd_enumerate)
  have U: "\<Union> (range ?F) = S - ?K" using del_Union_group_set[OF kids, of "enumerate 0 keys"] R S by simp
  have kids_n: "wf_kids env p (tn_children n) (tn_child_hashes n) F" using kids n by simp
  from delete_loop[OF assms(1) long kids_n _ assms(7), of txn] assms(6) S obtain st' where
    st': "delete_groups del env p (length p) ?G (n, txn, ?r, 0) = Inr st'" "del_loop_post env p F ?F (n, txn, ?r, 0) st'"
    by auto
  obtain n1 txn1 rs1 s1 where eq: "st' = (n1, txn1, rs1, s1)" by (cases st')
  note loop = st'(1)[unfolded eq] and lp = st'(2)[unfolded eq del_loop_post_def prod.case U]
  have kids1: "wf_kids env p (tn_children n1) (tn_child_hashes n1) ?F" and len: "length rs1 = length keys"
    and tr: "trues rs1 = s1" and n1: "tn_items n1 = card S" "tn_key n1 = None" and sum: "s1 + card (S - ?K) = card S"
    using lp n S by simp_all
  have fin: "finite S" by (rule wf_finite[OF assms(4)])
  have "card (?K \<inter> S) + card (S - ?K) = card S"
    using card_Int_Diff[OF fin, of ?K] by (simp add: Int_commute)
  with sum have s1: "s1 = card (?K \<inter> S)" by simp
  have step: "delete_step del env n ch txn keys (length p) =
      (if s1 > 0 then if tn_items n1 < s1 then Inl Panicked
         else delete_finish env (set_items n1 (tn_items n1 - s1)) ch txn1 p rs1 (length p)
       else Inr (n1, ch, txn1, rs1))"
    using assms(2,5) long loop slice_prefix[of p "hd keys"] by (auto simp: delete_step_def list_ex_iff)
  show ?thesis
  proof (cases "?K \<inter> S = {}")
    case True
    then have diff: "S - ?K = S" by blast
    have n1': "n1 = TrieNode (card S) (tn_children n1) (tn_child_hashes n1) None" using n1 by (cases n1) simp
    have "wf_node env p n1 S"
      by (subst n1') (use two in \<open>intro wf_innerI[OF kids1 U [symmetric, unfolded diff] wf_nonempty[OF assms(4)] refl]\<close>, blast)
    with True diff s1 step len tr n1 wf_nonempty[OF assms(4)] show ?thesis by (simp add: delete_post_def)
  next
    case False
    then have pos: "0 < s1" unfolding s1 using fin by (simp add: card_gt_0_iff)
    let ?n = "set_items n1 (tn_items n1 - s1)"
    have "?n = TrieNode (card (S - ?K)) (tn_children n1) (tn_child_hashes n1) None"
      using sum n1 by (simp add: set_items_def)
    from delete_finish_ok[OF assms(1) kids1 U [symmetric] this, of ch txn1 rs1] obtain n' ch' txn' where
      "delete_finish env ?n ch txn1 p rs1 (length p) = Inr (n', ch', txn', rs1)" "tn_items n' = card (S - ?K)"
      "deleted_hashes env p n' (S - ?K) ch ch'" "S - ?K \<noteq> {} \<longrightarrow> wf_node env p n' (S - ?K)"
      "S - ?K = {} \<longrightarrow> n' = default_node \<and> map_of txn' (make_primary_key p None) = Some None" by blast
    moreover have "\<not> tn_items n1 < s1" using sum n1 by simp
    ultimately show ?thesis using step pos len tr s1 False by (simp add: delete_post_def)
  qed
qed

lemma tn_delete_post:
  assumes "hash32 env" "keys \<noteq> []" "\<forall>k\<in>set keys. prefix p k \<and> UNCOMPACTED_LENGTH \<le> length k \<and> length k < length p + fuel"
    and "wf_or_empty env p n S" "prefix_free (S \<union> set keys)"
  shows "delete_post env p n S (set keys) ch (length keys) (tn_delete fuel env n ch txn keys (length p))"
  using assms(2-)
proof (induction fuel arbitrary: keys p n S ch txn)
  case 0
  then obtain k where "k \<in> set keys" by (cases keys) auto
  with 0(2) have "prefix p k" "length k < length p" by auto
  then show ?case by (auto simp: prefix_def)
next
  case (Suc fuel)
  have dc: "del_contract env p (set keys) (tn_delete fuel env)"
    unfolding del_contract_def
  proof (intro allI impI; elim conjE)
    fix c S keys' child ch txn
    assume "keys' \<noteq> []" and k': "set keys' \<subseteq> set keys" "\<forall>k\<in>set keys'. prefix (p @ [c]) k"
      and "wf_node env (p @ [c]) child S" "prefix_free (S \<union> set keys')"
    then show "delete_post env (p @ [c]) child S (set keys') ch (length keys')
        (tn_delete fuel env child ch txn keys' (Suc (length p)))"
      using Suc.IH[of keys' "p @ [c]" child S ch txn] Suc.prems(2) by (force simp: wf_or_empty_def)
  qed
  have pre: "\<forall>k\<in>set keys. prefix p k \<and> k \<noteq> []" "\<forall>k\<in>set keys. prefix p k \<and> UNCOMPACTED_LENGTH \<le> length k"
    using Suc.prems(2) by (auto simp: UNCOMPACTED_LENGTH_def)
  show ?case
  proof (cases "wf_node env p n S")
    case True
    show ?thesis
      using delete_step_leaf[OF Suc.prems(1) _ _ True] pre(1)
        delete_step_inner[OF assms(1) Suc.prems(1) pre(2) True _ Suc.prems(4) dc]
      by (cases "is_leaf n") auto
  next
    case False
    with Suc.prems(3) have "n = default_node" "S = {}" by (auto simp: wf_or_empty_def)
    with delete_step_empty[OF Suc.prems(1) pre(1)] show ?thesis by simp
  qed
qed

end
