(* ===== verification/Trie_Lookup.thy ===== *)
theory Trie_Lookup
  imports Trie_Delete
begin

text \<open>
  Reading the trie: membership, the node at a prefix, the keys below a node, and eviction of idle
  children. Reading loads nodes into memory and eviction drops them again; neither changes the keys
  or the hash.
\<close>

section \<open>Loading a child\<close>

lemma get_child_ok:
  assumes "wf_kids env p (tn_children n) chs F" "c \<in> fst ` set (tn_children n)"
  obtains child where "get_or_load_child env n p c = Inr child" "wf_node env (p @ [c]) child (F c)"
proof -
  from wf_kids_child[OF assms] obtain ct m where
    m: "(c, ct) \<in> set (tn_children n)" "load_child env p c ct = Inr m" "wf_node env (p @ [c]) m (F c)" by metis
  have "hm_ok (tn_children n)" using assms(1) by (simp add: wf_kids_def)
  from map_of_is_SomeI[OF hm_ok_distinct[OF this] m(1)] m(2) have "get_or_load_child env n p c = Inr m"
    by (simp add: get_or_load_child_def)
  with m(3) that show thesis by blast
qed

lemma wf_kids_reload:
  assumes "wf_kids env p cs chs F" "wf_node env (p @ [c]) child (F c)"
  shows "wf_kids env p (hm_insert c (Node child) cs) chs F"
proof -
  have "c \<in> fst ` set cs" using wf_kids_nonempty_iff[OF assms(1)] wf_nonempty[OF assms(2)] by blast
  from wf_kids_child[OF assms(1) this] obtain m h where
    m: "wf_node env (p @ [c]) m (F c)" "tn_hash env m = Inr h" "map_of chs c = Some h" by metis
  have "tn_hash env child = Inr h" using wf_hash_unique[OF m(1) assms(2) refl] m(2) by simp
  from wf_kids_update[OF assms this] show ?thesis
    using hm_insert_same[OF wf_kids_hashes_ok[OF assms(1)] m(3)] by simp
qed

lemma wf_put_child:
  assumes "wf_node env p n S" "\<not> is_leaf n" "wf_kids env p (tn_children n) (tn_child_hashes n) F"
    and "S = \<Union> (range F)" "wf_node env (p @ [c]) child (F c)"
  shows "wf_node env p (put_child n c child) S"
proof -
  from wf_innerE[OF assms(1,2)] obtain cs chs where n: "n = TrieNode (card S) cs chs None"
    "UNCOMPACTED_LENGTH \<le> length p \<longrightarrow> 2 \<le> card S" by metis
  have "wf_kids env p (hm_insert c (Node child) cs) chs F"
    using wf_kids_reload[OF assms(3,5)] n(1) by simp
  from wf_innerI[OF this assms(4) wf_nonempty[OF assms(1)] refl] n show ?thesis
    by (simp add: put_child_def)
qed

lemma wf_inner_kids:
  assumes "wf_node env p n S" "\<not> is_leaf n"
  obtains F where "wf_kids env p (tn_children n) (tn_child_hashes n) F" "S = \<Union> (range F)"
  using wf_innerE[OF assms] by (metis trie_node.sel(2,3))

section \<open>Membership\<close>

lemma prefix_take: "prefix p k \<Longrightarrow> take (length p) k = p"
  by (auto simp: prefix_def)

lemma tn_exists_wf:
  assumes "wf_node env p n S" "prefix p key"
  shows "\<exists>n'. tn_exists env n key (length p) = Inr (key \<in> S, n') \<and> wf_node env p n' S"
  using assms
proof (induction env n key "length p" arbitrary: p S rule: tn_exists.induct)
  case (1 env n key)
  show ?case
  proof (cases "is_leaf n")
    case True
    from wf_leafE[OF 1(2) True] obtain k0 chs where n: "n = TrieNode 1 [] chs (Some k0)" "S = {k0}" by metis
    have "tn_exists env n key (length p) = Inr (bytes_compare (leaf_key n) key = 0, n)"
      using True by (subst tn_exists.simps) simp
    with n 1(2) show ?thesis by (auto simp: leaf_key_def)
  next
    case False
    from wf_inner_kids[OF 1(2) False] obtain F where
      kids: "wf_kids env p (tn_children n) (tn_child_hashes n) F" and S: "S = \<Union> (range F)" .
    show ?thesis
    proof (cases "length p < length key \<and> key ! length p \<in> fst ` set (tn_children n)")
      case True
      let ?c = "key ! length p"
      from get_child_ok[OF kids] True obtain child where
        child: "get_or_load_child env n p ?c = Inr child" "wf_node env (p @ [?c]) child (F ?c)" by blast
      have pre: "prefix (p @ [?c]) key" using 1(3) True by (simp add: prefix_snoc_nth)
      have "\<exists>n'. tn_exists env child key (length (p @ [?c])) = Inr (key \<in> F ?c, n') \<and> wf_node env (p @ [?c]) n' (F ?c)"
        using 1(1)[OF False _ refl _ _ _ child(2) pre] True child(1) 1(3) by (simp add: prefix_take)
      then obtain child' where ch: "tn_exists env child key (Suc (length p)) = Inr (key \<in> F ?c, child')"
        "wf_node env (p @ [?c]) child' (F ?c)" by auto
      have "key \<in> F ?c \<longleftrightarrow> key \<in> S"
        using wf_kids_keys(3)[OF kids] S by auto
      moreover have "tn_exists env n key (length p) = Inr (key \<in> F ?c, put_child n ?c child')"
        using False True child(1) ch(1) 1(3) by (subst tn_exists.simps) (simp add: prefix_take Let_def)
      ultimately show ?thesis using wf_put_child[OF 1(2) False kids S ch(2)] by simp
    next
      case no: False
      have "key \<notin> S"
      proof
        assume "key \<in> S"
        then obtain c where "key \<in> F c" using S by auto
        with wf_kids_keys[OF kids this] no wf_kids_nonempty_iff[OF kids, of c] show False by auto
      qed
      moreover have "tn_exists env n key (length p) = Inr (False, n)"
        using False no by (subst tn_exists.simps) (auto simp: Let_def)
      ultimately show ?thesis using 1(2) by simp
    qed
  qed
qed

lemma tn_exists_ok:
  assumes "wf_or_empty env p n S" "prefix p key" "key \<noteq> []"
  shows "\<exists>n'. tn_exists env n key (length p) = Inr (key \<in> S, n') \<and> wf_or_empty env p n' S"
proof (cases "wf_node env p n S")
  case True
  with tn_exists_wf[OF True assms(2)] show ?thesis by (auto simp: wf_or_empty_def)
next
  case False
  with assms(1) have n: "n = default_node" "S = {}" by (auto simp: wf_or_empty_def)
  have "tn_exists env n key (length p) = Inr (False, n)"
    using assms(3) n(1) by (subst tn_exists.simps) (simp add: is_leaf_def default_node_def leaf_key_def)
  with n show ?thesis by (simp add: wf_or_empty_def)
qed

section \<open>All keys below a node\<close>

text \<open>A page of keys: ascending, keys of the node only, and all of them unless the page is over the limit.\<close>

definition key_page :: "bytes set \<Rightarrow> bytes list \<Rightarrow> bool" where
  "key_page S vs \<longleftrightarrow> sorted_wrt (<) vs \<and> set vs \<subseteq> S \<and> (length vs \<le> MAX_VALUES_RETURNED_PER_CALL \<longrightarrow> set vs = S)"

lemma append_Cons_less: "c < c' \<Longrightarrow> p @ c # zs < p @ (c' :: u8) # zs'"
  by (induction p) auto

lemma prefix_snoc_less:
  assumes "prefix (p @ [c]) k" "prefix (p @ [c']) k'" "c < c'"
  shows "k < (k' :: bytes)"
  using assms append_Cons_less by (auto simp: prefix_def)

lemma collect_children_ok:
  assumes "\<And>c child. c \<in> set chars \<Longrightarrow> wf_node env (p @ [c]) child (F c) \<Longrightarrow>
      \<exists>vs child'. rec child (p @ [c]) = Inr (vs, child') \<and> key_page (F c) vs \<and> wf_node env (p @ [c]) child' (F c)"
    and "sorted_wrt (<) chars" "set chars \<subseteq> fst ` set (tn_children n)"
    and "wf_node env p n S" "\<not> is_leaf n" "wf_kids env p (tn_children n) (tn_child_hashes n) F" "S = \<Union> (range F)"
    and "key_page (\<Union>c\<in>D. F c) vs" "\<forall>d\<in>D. \<forall>c\<in>set chars. d < c" "length vs \<le> MAX_VALUES_RETURNED_PER_CALL"
  shows "\<exists>vs' n'. collect_children rec env p chars (vs, n) = Inr (vs', n')
    \<and> key_page (\<Union>c \<in> D \<union> set chars. F c) vs' \<and> wf_node env p n' S"
  using assms
proof (induction chars arbitrary: vs n D)
  case Nil
  then show ?case by simp
next
  case (Cons c chars)
  let ?D = "\<Union>d\<in>D. F d"
  have c_in: "c \<in> fst ` set (tn_children n)" using Cons.prems(3) by simp
  from get_child_ok[OF Cons.prems(6) c_in] obtain child where
    child: "get_or_load_child env n p c = Inr child" "wf_node env (p @ [c]) child (F c)" .
  from Cons.prems(1)[OF _ child(2)] obtain us child' where
    us: "rec child (p @ [c]) = Inr (us, child')" "key_page (F c) us" "wf_node env (p @ [c]) child' (F c)" by auto
  let ?n = "put_child n c child'" and ?vs = "vs @ us"
  have wf: "wf_node env p ?n S" by (rule wf_put_child[OF Cons.prems(4-7) us(3)])
  have nl: "\<not> is_leaf ?n" by (cases "tn_children n") (auto simp: is_leaf_def put_child_def split: if_splits)
  have kids: "wf_kids env p (tn_children ?n) (tn_child_hashes ?n) F"
    using wf_kids_reload[OF Cons.prems(6) us(3)] by simp
  have less: "v < u" if "v \<in> set vs" "u \<in> set us" for v u
  proof -
    have "set vs \<subseteq> ?D" "set us \<subseteq> F c" using Cons.prems(8) us(2) by (auto simp: key_page_def)
    with that obtain d where d: "d \<in> D" "v \<in> F d" "u \<in> F c" by blast
    then have "d < c" using Cons.prems(9) by simp
    moreover have "prefix (p @ [d]) v" "prefix (p @ [c]) u"
      using wf_kids_keys[OF Cons.prems(6)] d by (simp_all add: prefix_snoc_nth)
    ultimately show ?thesis using prefix_snoc_less by blast
  qed
  have vs_all: "set vs = ?D" using Cons.prems(8,10) by (simp add: key_page_def)
  have page: "key_page (\<Union>d \<in> insert c D. F d) ?vs"
    using Cons.prems(8) us(2) less vs_all by (auto simp: key_page_def sorted_wrt_append)
  show ?case
  proof (cases "length ?vs > MAX_VALUES_RETURNED_PER_CALL")
    case True
    then have "collect_children rec env p (c # chars) (vs, n) = Inr (?vs, ?n)" using child(1) us(1) by simp
    moreover have "key_page (\<Union>c \<in> D \<union> set (c # chars). F c) ?vs"
      using page True by (auto simp: key_page_def)
    ultimately show ?thesis using wf by blast
  next
    case False
    then have eq: "collect_children rec env p (c # chars) (vs, n) = collect_children rec env p chars (?vs, ?n)"
      using child(1) us(1) by simp
    have "\<exists>vs' n'. collect_children rec env p chars (?vs, ?n) = Inr (vs', n')
      \<and> key_page (\<Union>c \<in> insert c D \<union> set chars. F c) vs' \<and> wf_node env p n' S"
    proof (rule Cons.IH[OF _ _ _ wf nl kids Cons.prems(7) page])
      show "sorted_wrt (<) chars" "set chars \<subseteq> fst ` set (tn_children ?n)" using Cons.prems(2,3) by auto
      show "\<forall>d\<in>insert c D. \<forall>c\<in>set chars. d < c" using Cons.prems(2,9) by auto
      show "length ?vs \<le> MAX_VALUES_RETURNED_PER_CALL" using False by simp
    qed (use Cons.prems(1) in simp)
    then show ?thesis unfolding eq by simp
  qed
qed

lemma tn_get_all_values_ok:
  assumes "wf_node env p n S" "\<forall>k\<in>S. length k < length p + fuel"
  shows "\<exists>vs n'. tn_get_all_values fuel env n p = Inr (vs, n') \<and> key_page S vs \<and> wf_node env p n' S"
  using assms
proof (induction fuel arbitrary: p n S)
  case 0
  obtain k where "k \<in> S" using wf_nonempty[OF 0(1)] by blast
  with wf_keys_prefix[OF 0(1) this] 0(2) show ?case by (auto simp: prefix_def)
next
  case (Suc fuel)
  show ?case
  proof (cases "is_leaf n")
    case True
    from wf_leafE[OF Suc.prems(1) True] obtain k0 chs where "n = TrieNode 1 [] chs (Some k0)" "S = {k0}" by metis
    with True Suc.prems(1) show ?thesis by (simp add: key_page_def leaf_key_def)
  next
    case False
    from wf_inner_kids[OF Suc.prems(1) False] obtain F where
      kids: "wf_kids env p (tn_children n) (tn_child_hashes n) F" and S: "S = \<Union> (range F)" .
    have "\<exists>vs' n'. collect_children (tn_get_all_values fuel env) env p (map fst (tn_children n)) ([], n) = Inr (vs', n')
      \<and> key_page (\<Union>c \<in> {} \<union> set (map fst (tn_children n)). F c) vs' \<and> wf_node env p n' S"
    proof (rule collect_children_ok[OF _ _ _ Suc.prems(1) False kids S])
      show "sorted_wrt (<) (map fst (tn_children n))" using kids by (simp add: wf_kids_def hm_ok_def)
      show "key_page (\<Union>c\<in>{}. F c) []" by (simp add: key_page_def)
      fix c child assume "wf_node env (p @ [c]) child (F c)"
      then show "\<exists>vs child'. tn_get_all_values fuel env child (p @ [c]) = Inr (vs, child') \<and> key_page (F c) vs
          \<and> wf_node env (p @ [c]) child' (F c)"
        using Suc.prems(2) S by (intro Suc.IH) auto
    qed simp_all
    then show ?thesis using False wf_kids_Union[OF kids] S by simp
  qed
qed

section \<open>The node at a prefix\<close>

text \<open>Nodes are not compacted up to \<^const>\<open>UNCOMPACTED_LENGTH\<close>, so a prefix that short has its own node.\<close>

lemma with_node_ok:
  assumes "wf_node env (take idx pfx) n S" "idx \<le> length pfx" "length pfx \<le> UNCOMPACTED_LENGTH"
    and "\<And>m T. wf_node env pfx m T \<Longrightarrow> T = {k \<in> S. prefix pfx k} \<Longrightarrow>
      \<exists>x m'. f m = Inr (x, m') \<and> P T x \<and> wf_node env pfx m' T"
  shows "\<exists>r n'. with_node_from_trie env f n pfx idx = Inr (r, n') \<and> wf_node env (take idx pfx) n' S
    \<and> (case r of Some x \<Rightarrow> P {k \<in> S. prefix pfx k} x | None \<Rightarrow> {k \<in> S. prefix pfx k} = {})"
  using assms
proof (induction env f n pfx idx arbitrary: S rule: with_node_from_trie.induct)
  case (1 env f n pfx idx)
  show ?case
  proof (cases "idx = length pfx")
    case True
    then have "{k \<in> S. prefix pfx k} = S" using wf_keys_prefix[OF 1(2)] by auto
    with 1(5)[of n S] 1(2) True show ?thesis
      by (subst with_node_from_trie.simps) auto
  next
    case False
    let ?c = "pfx ! idx" and ?p = "take idx pfx"
    have lt: "idx < length pfx" using False 1(3) by simp
    have len: "length ?p = idx" using lt by simp
    have snoc: "?p @ [?c] = take (Suc idx) pfx" using lt by (simp add: take_Suc_conv_app_nth)
    have at: "k ! idx = ?c" if "prefix pfx k" for k using that lt by (auto simp: prefix_def nth_append)
    have nl: "\<not> is_leaf n" using wf_leaf_iff[OF 1(2)] lt 1(4) by simp
    from wf_inner_kids[OF 1(2) nl] obtain F where
      kids: "wf_kids env ?p (tn_children n) (tn_child_hashes n) F" and S: "S = \<Union> (range F)" .
    have T: "{k \<in> F ?c. prefix pfx k} = {k \<in> S. prefix pfx k}"
      unfolding wf_kids_group[OF kids, of ?c, folded S, unfolded len] using at by blast
    show ?thesis
    proof (cases "?c \<in> fst ` set (tn_children n)")
      case True
      from get_child_ok[OF kids True] obtain child where
        child: "get_or_load_child env n ?p ?c = Inr child" "wf_node env (?p @ [?c]) child (F ?c)" .
      have "\<exists>r n'. with_node_from_trie env f child pfx (idx + 1) = Inr (r, n') \<and> wf_node env (take (idx + 1) pfx) n' (F ?c)
        \<and> (case r of Some x \<Rightarrow> P {k \<in> F ?c. prefix pfx k} x | None \<Rightarrow> {k \<in> F ?c. prefix pfx k} = {})"
      proof (rule 1(1)[OF False _ refl _ child(1)])
        show "wf_node env (take (idx + 1) pfx) child (F ?c)" using child(2) snoc by simp
        show "\<exists>x m'. f m = Inr (x, m') \<and> P T x \<and> wf_node env pfx m' T"
          if "wf_node env pfx m T" "T = {k \<in> F ?c. prefix pfx k}" for m T
          using 1(5)[OF that(1)] that(2) T by simp
      qed (use lt True 1(4) in auto)
      then obtain r child' where r: "with_node_from_trie env f child pfx (idx + 1) = Inr (r, child')"
        "wf_node env (?p @ [?c]) child' (F ?c)"
        "case r of Some x \<Rightarrow> P {k \<in> S. prefix pfx k} x | None \<Rightarrow> {k \<in> S. prefix pfx k} = {}"
        unfolding T snoc by auto
      have "with_node_from_trie env f n pfx idx = Inr (r, put_child n ?c child')"
        using False lt True child(1) r(1) by (subst with_node_from_trie.simps) (simp add: Let_def)
      with wf_put_child[OF 1(2) nl kids S r(2)] r(3) show ?thesis by blast
    next
      case no: False
      then have "F ?c = {}" using kids by (simp add: wf_kids_def)
      then have "{k \<in> S. prefix pfx k} = {}" using T by blast
      moreover have "with_node_from_trie env f n pfx idx = Inr (None, n)"
        using False lt no by (subst with_node_from_trie.simps) (simp add: Let_def)
      ultimately show ?thesis using 1(2) by simp
    qed
  qed
qed

section \<open>Eviction\<close>

lemma evict_children:
  "tn_children (evict_stale_children stale p (TrieNode i cs chs k))
     = map (\<lambda>(c, ct). (c, evict_type stale (p @ [c]) ct)) cs"
  by (simp add: case_prod_unfold comp_def)

lemma evict_eq:
  "evict_stale_children stale p n = TrieNode (tn_items n)
     (map (\<lambda>(c, ct). (c, evict_type stale (p @ [c]) ct)) (tn_children n)) (tn_child_hashes n) (tn_key n)"
  by (cases n) (simp add: case_prod_unfold comp_def)

text \<open>A node whose rows are stored may drop any of its children from memory.\<close>

lemma evict_wf:
  assumes "wf_node (env_at env m) p n S" "stored env m p S"
  shows "wf_node (env_at env m) p (evict_stale_children stale p n) S"
  using assms
proof (induction rule: wf_node.induct)
  case (wf_leaf p k chs)
  then show ?case using wf_node.wf_leaf[of p k chs] by simp
next
  case (wf_inner cs chs p F S i)
  have kids: "wf_kids (env_at env m) p cs chs (\<lambda>c. if c \<in> fst ` set cs then F c else {})" (is "wf_kids _ _ _ _ ?F")
    using wf_inner.hyps(2,3) wf_inner.IH by (intro wf_kidsI) blast+
  have S: "S = \<Union> (range ?F)" using wf_inner.hyps(4) by auto
  have st: "kids_stored env m p ?F" using stored_kids[OF wf_inner.prems kids S] wf_inner.hyps(5,6) by simp
  let ?cs = "map (\<lambda>(c, ct). (c, evict_type stale (p @ [c]) ct)) cs"
  have fst: "map fst ?cs = map fst cs" by (induction cs) auto
  have keys: "fst ` set ?cs = fst ` set cs" using arg_cong[OF fst, of set] by (simp only: list.set_map)
  have "\<exists>m' h. load_child (env_at env m) p c ct' = Inr m' \<and> wf_node (env_at env m) (p @ [c]) m' (F c)
      \<and> tn_hash (env_at env m) m' = Inr h \<and> map_of chs c = Some h" if "(c, ct') \<in> set ?cs" for c ct'
  proof -
    from that obtain ct where ct: "(c, ct) \<in> set cs" "ct' = evict_type stale (p @ [c]) ct" by auto
    from wf_inner.IH ct(1) obtain m' h where m': "load_child (env_at env m) p c ct = Inr m'"
      "wf_node (env_at env m) (p @ [c]) m' (F c)" "tn_hash (env_at env m) m' = Inr h" "map_of chs c = Some h"
      and IH: "stored env m (p @ [c]) (F c) \<Longrightarrow> wf_node (env_at env m) (p @ [c]) (evict_stale_children stale (p @ [c]) m') (F c)"
      by blast
    have Fc: "?F c = F c" using ct(1) by force
    have "?F c \<noteq> {} \<longrightarrow> stored env m (p @ [c]) (?F c)" using st unfolding kids_stored_def by (rule spec)
    then have stc: "stored env m (p @ [c]) (F c)" unfolding Fc using wf_nonempty[OF m'(2)] by blast
    then obtain n' where n': "load_row env m (p @ [c]) = Some n'" "wf_node (env_at env m) (p @ [c]) n' (F c)"
      by (auto simp: stored_def)
    have h: "tn_hash (env_at env m) m'' = Inr h" if "wf_node (env_at env m) (p @ [c]) m'' (F c)" for m''
      using wf_hash_unique[OF m'(2) that refl] m'(3) by simp
    show ?thesis
    proof (cases "ct' = Serialized")
      case True
      then show ?thesis using load_row_child[OF n'(1)] n'(2) h[OF n'(2)] m'(4) by blast
    next
      case False
      then obtain x where x: "ct = Node x" "ct' = Node (evict_stale_children stale (p @ [c]) x)"
        using ct(2) by (cases ct) (auto split: if_splits)
      then have "x = m'" using m'(1) by (simp add: load_child_def)
      with x IH[OF stc] h m'(4) show ?thesis by (simp add: load_child_def)
    qed
  qed
  moreover have "hm_ok ?cs" using wf_inner.hyps(2) hm_ok_map_fst_cong[OF fst] by blast
  moreover have "map fst chs = map fst ?cs" unfolding fst by (rule wf_inner.hyps(3))
  ultimately show ?case
    using wf_inner.hyps keys unfolding evict_eq by (simp del: evict_type.simps) (intro wf_node.wf_inner, auto)
qed

end
