(* ===== verification/Merkle_Trie.thy ===== *)
theory Merkle_Trie
  imports Trie_Lookup
begin

unbundle bit_operations_syntax

text \<open>
  \<open>src/storage/trie/merkle_trie.rs\<close>, the trie as the rest of the program sees it: keys are byte strings,
  the trie works on their nibbles. A failing call returns the failure only.
\<close>

section \<open>State and life cycle\<close>

record merkle_trie =
  mt_root :: "trie_node option"

definition mt_new :: merkle_trie where
  "mt_new = \<lparr>mt_root = None\<rparr>"

definition create_empty_root :: "trie_env \<Rightarrow> merkle_trie \<Rightarrow> txn_batch \<Rightarrow> merkle_trie \<times> txn_batch" where
  "create_empty_root env t txn =
     (t\<lparr>mt_root := Some default_node\<rparr>,
      txn_put txn (make_primary_key [] None) (serialize_node env default_node))"

definition load_root :: "trie_env \<Rightarrow> trie_node option tr" where
  "load_root env =
     (case env_get env (make_primary_key [] None) of
        Inl e \<Rightarrow> Inl (Error (DatabaseError e))
      | Inr None \<Rightarrow> Inr None
      | Inr (Some b) \<Rightarrow> (case deserialize_node env b of Inl e \<Rightarrow> Inl e | Inr n \<Rightarrow> Inr (Some n)))"

text \<open>The environment of a trie whose rows are in a given database.\<close>

definition env_db :: "trie_env \<Rightarrow> 'e engine_ops \<Rightarrow> 'e rocksdb \<Rightarrow> trie_env" where
  "env_db env ops db = env\<lparr>env_get := db_get ops db\<rparr>"

definition mt_initialize ::
  "trie_env \<Rightarrow> 'e engine_ops \<Rightarrow> 'e rocksdb \<Rightarrow> merkle_trie \<Rightarrow> (merkle_trie \<times> 'e rocksdb) tr" where
  "mt_initialize env ops db t =
     (case load_root (env_db env ops db) of
        Inl e \<Rightarrow> Inl e
      | Inr (Some n) \<Rightarrow> Inr (t\<lparr>mt_root := Some n\<rparr>, db)
      | Inr None \<Rightarrow>
          (let (t', txn) = create_empty_root env t txn_new
           in case db_commit ops db txn of
             Inl e \<Rightarrow> Inl (Error (DatabaseError e))
           | Inr db' \<Rightarrow> Inr (t', db')))"

definition mt_reload :: "trie_env \<Rightarrow> merkle_trie \<Rightarrow> merkle_trie tr" where
  "mt_reload env t =
     (case load_root env of
        Inl e \<Rightarrow> Inl e
      | Inr (Some n) \<Rightarrow> Inr (t\<lparr>mt_root := Some n\<rparr>)
      | Inr None \<Rightarrow> Inl (Error UnableToReloadRoot))"

section \<open>Updates\<close>

text \<open>Enough for the recursion: it is at most as deep as the longest key, plus one.\<close>

definition key_fuel :: "bytes list \<Rightarrow> nat" where
  "key_fuel keys = Suc (foldr max (map length keys) 0)"

definition mt_update ::
  "(nat \<Rightarrow> trie_env \<Rightarrow> node_call) \<Rightarrow> trie_env \<Rightarrow> merkle_trie \<Rightarrow> txn_batch \<Rightarrow> bytes list
     \<Rightarrow> (merkle_trie \<times> txn_batch \<times> bool list) tr" where
  "mt_update op env t txn_batch ks =
     (let keys = map expand_nibbles ks
      in if keys = [] then Inr (t, txn_batch, [])
         else if list_ex (\<lambda>key. length key < UNCOMPACTED_LENGTH) keys then Inl (Error KeyLengthTooShort)
         else case mt_root t of
           None \<Rightarrow> Inl (Error TrieNotInitialized)
         | Some root \<Rightarrow>
             (case op (key_fuel keys) env root [] txn_new keys 0 of
                Inl e \<Rightarrow> Inl e
              | Inr (root', _, txn, results) \<Rightarrow>
                  Inr (t\<lparr>mt_root := Some root'\<rparr>, txn_merge txn_batch txn, results)))"

definition mt_insert ::
  "trie_env \<Rightarrow> merkle_trie \<Rightarrow> txn_batch \<Rightarrow> bytes list \<Rightarrow> (merkle_trie \<times> txn_batch \<times> bool list) tr" where
  "mt_insert = mt_update tn_insert"

definition mt_delete ::
  "trie_env \<Rightarrow> merkle_trie \<Rightarrow> txn_batch \<Rightarrow> bytes list \<Rightarrow> (merkle_trie \<times> txn_batch \<times> bool list) tr" where
  "mt_delete = mt_update tn_delete"

section \<open>Reads\<close>

definition mt_exists :: "trie_env \<Rightarrow> merkle_trie \<Rightarrow> bytes \<Rightarrow> (bool \<times> merkle_trie) tr" where
  "mt_exists env t key =
     (case mt_root t of
        None \<Rightarrow> Inl (Error TrieNotInitialized)
      | Some root \<Rightarrow>
          (case tn_exists env root (expand_nibbles key) 0 of
             Inl e \<Rightarrow> Inl e
           | Inr (b, root') \<Rightarrow> Inr (b, t\<lparr>mt_root := Some root'\<rparr>)))"

definition mt_items :: "merkle_trie \<Rightarrow> nat tr" where
  "mt_items t = (case mt_root t of None \<Rightarrow> Inl (Error TrieNotInitialized) | Some root \<Rightarrow> Inr (tn_items root))"

definition mt_root_hash :: "trie_env \<Rightarrow> merkle_trie \<Rightarrow> bytes tr" where
  "mt_root_hash env t = (case mt_root t of None \<Rightarrow> Inl (Error TrieNotInitialized) | Some root \<Rightarrow> tn_hash env root)"

definition get_node_from_txn_or_db :: "trie_env \<Rightarrow> txn_batch \<Rightarrow> bytes \<Rightarrow> trie_node option" where
  "get_node_from_txn_or_db env txn_batch node_key =
     (let from_db = (case env_get env node_key of
            Inr (Some b) \<Rightarrow> (case deserialize_node env b of Inr n \<Rightarrow> Some n | Inl _ \<Rightarrow> None)
          | _ \<Rightarrow> None)
      in case map_of txn_batch node_key of
        Some (Some b) \<Rightarrow> (case deserialize_node env b of Inr n \<Rightarrow> Some n | Inl _ \<Rightarrow> from_db)
      | _ \<Rightarrow> from_db)"

definition mt_get_node :: "trie_env \<Rightarrow> txn_batch \<Rightarrow> bytes \<Rightarrow> trie_node option" where
  "mt_get_node env txn_batch pfx =
     get_node_from_txn_or_db env txn_batch (make_primary_key (expand_nibbles pfx) None)"

definition mt_get_hash :: "trie_env \<Rightarrow> txn_batch \<Rightarrow> bytes \<Rightarrow> bytes tr" where
  "mt_get_hash env txn_batch pfx = (case mt_get_node env txn_batch pfx of Some n \<Rightarrow> tn_hash env n | None \<Rightarrow> Inr [])"

definition mt_get_count :: "trie_env \<Rightarrow> txn_batch \<Rightarrow> bytes \<Rightarrow> u64 tr" where
  "mt_get_count env txn_batch pfx =
     Inr (case mt_get_node env txn_batch pfx of Some n \<Rightarrow> word_of_nat (tn_items n) | None \<Rightarrow> 0)"

text \<open>The depth of the traversal is the parameter \<open>fuel\<close>.\<close>

definition mt_get_all_values :: "nat \<Rightarrow> trie_env \<Rightarrow> merkle_trie \<Rightarrow> bytes \<Rightarrow> (bytes list \<times> merkle_trie) tr" where
  "mt_get_all_values fuel env t pfx =
     (let p = expand_nibbles pfx
      in case mt_root t of
        None \<Rightarrow> Inl (Error TrieNotInitialized)
      | Some root \<Rightarrow>
          (case with_node_from_trie env (\<lambda>n. tn_get_all_values fuel env n p) root p 0 of
             Inl e \<Rightarrow> Inl e
           | Inr (None, root') \<Rightarrow> Inr ([], t\<lparr>mt_root := Some root'\<rparr>)
           | Inr (Some vs, root') \<Rightarrow>
               if list_all (\<lambda>v. combine_nibbles v \<noteq> None) vs
               then Inr (map (the \<circ> combine_nibbles) vs, t\<lparr>mt_root := Some root'\<rparr>)
               else Inl Panicked))"

datatype node_metadata =
  NodeMetadata (nm_prefix: bytes) (nm_num_messages: nat) (nm_hash: string) (nm_children: "(u8 \<times> node_metadata) list")

text \<open>\<open>hex\<close> stands for \<open>hex::encode\<close>.\<close>

fun child_metadata ::
  "trie_env \<Rightarrow> (bytes \<Rightarrow> string) \<Rightarrow> txn_batch \<Rightarrow> bytes \<Rightarrow> u8 list \<Rightarrow> (u8 \<times> node_metadata) list tr" where
  "child_metadata env hex txn pfx [] = Inr []"
| "child_metadata env hex txn pfx (c # cs) =
     (let child_prefix = expand_nibbles pfx @ [c]
      in case get_node_from_txn_or_db env txn (make_primary_key child_prefix None) of
        None \<Rightarrow> Inl (Error (ChildNotFound c pfx))
      | Some child \<Rightarrow>
          (case tn_hash env child of
             Inl e \<Rightarrow> Inl e
           | Inr h \<Rightarrow>
               (case child_metadata env hex txn pfx cs of
                  Inl e \<Rightarrow> Inl e
                | Inr ms \<Rightarrow> Inr (hm_insert c (NodeMetadata child_prefix (tn_items child) (hex h) []) ms))))"

definition get_trie_node_metadata :: "trie_env \<Rightarrow> (bytes \<Rightarrow> string) \<Rightarrow> txn_batch \<Rightarrow> bytes \<Rightarrow> node_metadata tr" where
  "get_trie_node_metadata env hex txn pfx =
     (case mt_get_node env txn pfx of
        None \<Rightarrow> Inl (Error (NodeNotFound pfx))
      | Some n \<Rightarrow>
          (case child_metadata env hex txn pfx (map fst (tn_children n)) of
             Inl e \<Rightarrow> Inl e
           | Inr ms \<Rightarrow>
               (case tn_hash env n of
                  Inl e \<Rightarrow> Inl e
                | Inr h \<Rightarrow> Inr (NodeMetadata pfx (tn_items n) (hex h) ms))))"

definition mt_evict_stale :: "(bytes \<Rightarrow> bool) \<Rightarrow> merkle_trie \<Rightarrow> merkle_trie" where
  "mt_evict_stale stale t =
     (case mt_root t of None \<Rightarrow> t | Some root \<Rightarrow> t\<lparr>mt_root := Some (evict_stale_children stale [] root)\<rparr>)"

section \<open>Paged traversal\<close>

text \<open>
  The loop of \<open>get_paged_values_of_subtree\<close>: the path from the root, its part below the prefix, the
  children left at each level (the next one last), and the keys found so far. One unit of fuel is one
  round of the loop.
\<close>

definition node_view :: "trie_node \<Rightarrow> ((bool \<times> bytes option \<times> u8 list) \<times> trie_node) tr" where
  "node_view n = Inr ((is_leaf n, tn_value n, map fst (tn_children n)), n)"

primrec paged_loop ::
  "nat \<Rightarrow> trie_env \<Rightarrow> (bytes \<Rightarrow> string) \<Rightarrow> nat \<Rightarrow> nat \<Rightarrow> trie_node \<Rightarrow> bytes \<Rightarrow> bytes \<Rightarrow> bytes list \<Rightarrow> bytes list
     \<Rightarrow> (string option \<times> bytes list \<times> trie_node) tr" where
  "paged_loop 0 env b64 max_items initial root path rel stack leaf_keys = Inl OutOfFuel"
| "paged_loop (Suc fuel) env b64 max_items initial root path rel stack leaf_keys =
     (if length leaf_keys - initial \<ge> max_items then
        Inr (Some (encode_trie_page_token b64 (Some (rel # stack))), leaf_keys, root)
      else if stack = [] then Inr (None, leaf_keys, root)
      else if last stack = [] then
        (if rel \<noteq> [] then paged_loop fuel env b64 max_items initial root (butlast path) (butlast rel) (butlast stack) leaf_keys
         else paged_loop fuel env b64 max_items initial root path rel (butlast stack) leaf_keys)
      else
        (let c = last (last stack);
             stack1 = butlast stack @ [butlast (last stack)]
         in case with_node_from_trie env node_view root (path @ [c]) 0 of
           Inl e \<Rightarrow> Inl e
         | Inr (None, _) \<Rightarrow> Inl (Error (NodeNotFound (path @ [c])))
         | Inr (Some (leaf, value, chars), root') \<Rightarrow>
             if leaf then
               (case value of
                  None \<Rightarrow> paged_loop fuel env b64 max_items initial root' path rel stack1 leaf_keys
                | Some key \<Rightarrow>
                    if key = [] then Inl (Error KeyLengthTooShort)
                    else (case combine_nibbles key of
                       None \<Rightarrow> Inl Panicked
                     | Some combined \<Rightarrow>
                         paged_loop fuel env b64 max_items initial root' path rel stack1 (leaf_keys @ [combined])))
             else paged_loop fuel env b64 max_items initial root' (path @ [c]) (rel @ [c])
                    (stack1 @ [rev chars]) leaf_keys))"

text \<open>\<open>hex\<close> is \<open>hex::encode\<close>; \<open>b64\<close> and \<open>unb64\<close> are the base64 engine.\<close>

definition get_paged_values_of_subtree ::
  "nat \<Rightarrow> trie_env \<Rightarrow> (bytes \<Rightarrow> string) \<Rightarrow> (string \<Rightarrow> string + bytes) \<Rightarrow> (bytes \<Rightarrow> string) \<Rightarrow> merkle_trie \<Rightarrow> bytes
     \<Rightarrow> bytes list \<Rightarrow> nat \<Rightarrow> string option \<Rightarrow> (string option \<times> bytes list \<times> merkle_trie) tr" where
  "get_paged_values_of_subtree fuel env b64 unb64 hex t pfx leaf_keys max_items token_str =
     (case mt_root t of
        None \<Rightarrow> Inl (Error TrieNotInitialized)
      | Some root0 \<Rightarrow>
          (let p = expand_nibbles pfx;
               finish = map_sum id (\<lambda>(tok, ks, r). (tok, ks, t\<lparr>mt_root := Some r\<rparr>))
           in case with_node_from_trie env node_view root0 p 0 of
             Inl e \<Rightarrow> Inl e
           | Inr (None, root) \<Rightarrow> Inr (None, leaf_keys, t\<lparr>mt_root := Some root\<rparr>)
           | Inr (Some (leaf, value, chars), root) \<Rightarrow>
               (case (case token_str of None \<Rightarrow> Inr None | Some s \<Rightarrow> decode_trie_page_token unb64 s) of
                  Inl e \<Rightarrow> Inl (Error (TokenDecodeError e))
                | Inr (Some token) \<Rightarrow>
                    if token = [] then Inl (Error (InvalidPageToken ''<Empty token>''))
                    else (let rel = hd token; stack = tl token
                          in if length rel \<noteq> length stack - 1 then Inl (Error (InvalidPageToken (hex rel)))
                             else finish (paged_loop fuel env b64 max_items (length leaf_keys) root (p @ rel) rel stack leaf_keys))
                | Inr None \<Rightarrow>
                    if leaf then
                      (case value of
                         None \<Rightarrow> Inr (None, leaf_keys, t\<lparr>mt_root := Some root\<rparr>)
                       | Some key \<Rightarrow>
                           if key = [] then Inl (Error KeyLengthTooShort)
                           else (case combine_nibbles key of
                              None \<Rightarrow> Inl Panicked
                            | Some combined \<Rightarrow> Inr (None, leaf_keys @ [combined], t\<lparr>mt_root := Some root\<rparr>)))
                    else if chars = [] then Inl (Error (InvalidState ''Non-leaf node without children''))
                    else finish (paged_loop fuel env b64 max_items (length leaf_keys) root p [] [rev chars] leaf_keys))))"

section \<open>The batches stay sorted\<close>

definition keeps_ok :: "node_call \<Rightarrow> bool" where
  "keeps_ok call \<longleftrightarrow> (\<forall>n ch txn keys idx n' ch' txn' rs.
     hm_ok txn \<longrightarrow> call n ch txn keys idx = Inr (n', ch', txn', rs) \<longrightarrow> hm_ok txn')"

lemma keeps_okD: "keeps_ok call \<Longrightarrow> call n ch txn keys idx = Inr (n', ch', txn', rs) \<Longrightarrow> hm_ok txn \<Longrightarrow> hm_ok txn'"
  unfolding keeps_ok_def by blast

lemma hm_ok_put_to_txn [simp]: "hm_ok txn \<Longrightarrow> hm_ok (put_to_txn env n txn p)"
  by (simp add: put_to_txn_def)

lemma hm_ok_delete_to_txn [simp]: "hm_ok txn \<Longrightarrow> hm_ok (delete_to_txn txn p)"
  by (simp add: delete_to_txn_def)

lemma insert_groups_hm_ok:
  assumes "keeps_ok ins" "hm_ok txn" "insert_groups ins env p idx groups (n, txn, results, s) = Inr (n', txn', results', s')"
  shows "hm_ok txn'"
  using assms(2,3)
proof (induction groups arbitrary: n txn results s)
  case (Cons g groups)
  obtain c "is" keys where g: "g = (c, (is, keys))" by (cases g) auto
  let ?n1 = "if c \<in> fst ` set (tn_children n) then n else put_child n c default_node"
  show ?case
  proof (cases "get_or_load_child env ?n1 p c")
    case (Inr child)
    show ?thesis
    proof (cases "ins child (tn_child_hashes ?n1) txn keys (idx + 1)")
      case r: (Inr r)
      obtain child' ch' txn1 crs where rr: "r = (child', ch', txn1, crs)" by (cases r)
      obtain r1 s1 where "spread_results is crs (results, s) = (r1, s1)" by (cases "spread_results is crs (results, s)")
      with Cons.prems(2) Inr r rr have "insert_groups ins env p idx groups
          (set_child_hashes (put_child ?n1 c child') ch', txn1, r1, s1) = Inr (n', txn', results', s')"
        unfolding g by (simp add: Let_def split del: if_split)
      from Cons.IH[OF keeps_okD[OF assms(1) r[unfolded rr] Cons.prems(1)] this] show ?thesis .
    qed (use Cons.prems(2) Inr g in \<open>simp add: Let_def split del: if_split\<close>)
  qed (use Cons.prems(2) g in \<open>simp add: Let_def split del: if_split\<close>)
qed simp

lemma insert_children_hm_ok:
  assumes "keeps_ok ins" "hm_ok txn" "insert_children ins env n ch txn p rem results idx = Inr (n', ch', txn', rs)"
  shows "hm_ok txn'"
  using assms(3) insert_groups_hm_ok[OF assms(1,2)]
  by (auto simp: insert_children_def Let_def split: if_splits sum.splits prod.splits)

lemma split_leaf_hm_ok:
  assumes "keeps_ok ins" "hm_ok txn" "split_leaf_node ins env n txn idx = Inr (n', txn')"
  shows "hm_ok txn'"
  using assms(3) keeps_okD[OF assms(1) _ assms(2)]
  by (auto simp: split_leaf_node_def Let_def split: sum.splits option.splits prod.splits)

lemma insert_at_leaf_hm_ok:
  "hm_ok txn \<Longrightarrow> insert_at_leaf env n ch txn keys p rs = Inr (n', ch', txn', keys', rs', b) \<Longrightarrow> hm_ok txn'"
  by (auto simp: insert_at_leaf_def Let_def split: sum.splits option.splits if_splits)

lemma insert_step_hm_ok:
  assumes "keeps_ok ins"
  shows "keeps_ok (insert_step ins env)"
  unfolding keeps_ok_def
proof (intro allI impI)
  fix n ch txn keys idx n' ch' txn' rs
  assume ok: "hm_ok txn" and step: "insert_step ins env n ch txn keys idx = Inr (n', ch', txn', rs)"
  from step obtain p where p: "keys \<noteq> []" "slice_to (hd keys) idx = Some p"
    by (auto simp: insert_step_def split: if_splits option.splits)
  show "hm_ok txn'"
  proof (cases "idx \<ge> UNCOMPACTED_LENGTH \<and> is_leaf n")
    case False
    with step p show ?thesis using insert_children_hm_ok[OF assms ok] by (auto simp: insert_step_def Let_def)
  next
    case True
    with step p obtain n1 ch1 txn1 keys1 rs1 b where
      at: "insert_at_leaf env n ch txn keys p (map (\<lambda>_. False) keys) = Inr (n1, ch1, txn1, keys1, rs1, b)"
      by (auto simp: insert_step_def Let_def split: sum.splits)
    have ok1: "hm_ok txn1" by (rule insert_at_leaf_hm_ok[OF ok at])
    have "txn' = txn1 \<or> (\<exists>n2 txn2 rem. split_leaf_node ins env n1 txn1 idx = Inr (n2, txn2)
        \<and> insert_children ins env n2 ch1 txn2 p rem rs1 idx = Inr (n', ch', txn', rs))"
      using step p True at by (auto simp: insert_step_def Let_def split: if_splits sum.splits)
    then show ?thesis
      using ok1 split_leaf_hm_ok[OF assms ok1] insert_children_hm_ok[OF assms] by metis
  qed
qed

lemma tn_insert_hm_ok: "keeps_ok (tn_insert fuel env)"
  by (induction fuel) (simp_all add: insert_step_hm_ok, simp add: keeps_ok_def)

lemma delete_groups_hm_ok:
  assumes "keeps_ok del" "hm_ok txn" "delete_groups del env p idx groups (n, txn, results, s) = Inr (n', txn', results', s')"
  shows "hm_ok txn'"
  using assms(2,3)
proof (induction groups arbitrary: n txn results s)
  case (Cons g groups)
  obtain c "is" keys where g: "g = (c, (is, keys))" by (cases g) auto
  show ?case
  proof (cases "c \<in> fst ` set (tn_children n)")
    case False
    with Cons.prems(2) g Cons.IH[OF Cons.prems(1)] show ?thesis by auto
  next
    case True
    show ?thesis
    proof (cases "get_or_load_child env n p c")
      case (Inr child)
      show ?thesis
      proof (cases "del child (tn_child_hashes n) txn keys (idx + 1)")
        case r: (Inr r)
        obtain child' ch' txn1 crs where rr: "r = (child', ch', txn1, crs)" by (cases r)
        obtain r1 s1 where sp: "spread_results is crs (results, s) = (r1, s1)" by (cases "spread_results is crs (results, s)")
        let ?n1 = "set_child_hashes (put_child n c child') ch'"
        let ?n2 = "if tn_items child' = 0 then set_child_hashes (remove_child ?n1 c) (hm_remove c ch') else ?n1"
        from Cons.prems(2) True Inr r rr sp have "delete_groups del env p idx groups (?n2, txn1, r1, s1)
            = Inr (n', txn', results', s')"
          unfolding g by (simp add: Let_def split del: if_split)
        from Cons.IH[OF keeps_okD[OF assms(1) r[unfolded rr] Cons.prems(1)] this] show ?thesis .
      qed (use Cons.prems(2) True Inr g in simp)
    qed (use Cons.prems(2) True g in simp)
  qed
qed simp

lemma compact_node_hm_ok: "hm_ok txn \<Longrightarrow> compact_node env n txn p = Inr (n', txn') \<Longrightarrow> hm_ok txn'"
  by (auto simp: compact_node_def Let_def split: sum.splits option.splits if_splits)

lemma delete_finish_hm_ok:
  assumes "hm_ok txn" "delete_finish env n ch txn p results idx = Inr (n', ch', txn', rs)"
  shows "hm_ok txn'"
  using assms(2) assms(1) compact_node_hm_ok[OF assms(1)]
  by (auto simp: delete_finish_def split: sum.splits if_splits prod.splits)

lemma delete_step_hm_ok:
  assumes "keeps_ok del"
  shows "keeps_ok (delete_step del env)"
  unfolding keeps_ok_def
proof (intro allI impI)
  fix n ch txn keys idx n' ch' txn' rs
  assume ok: "hm_ok txn" and step: "delete_step del env n ch txn keys idx = Inr (n', ch', txn', rs)"
  from step obtain p where p: "keys \<noteq> []" "slice_to (hd keys) idx = Some p"
    by (auto simp: delete_step_def split: if_splits option.splits)
  show "hm_ok txn'"
  proof (cases "is_leaf n")
    case True
    with step p ok show ?thesis
      by (auto simp: delete_step_def delete_at_leaf_def Let_def split: if_splits option.splits sum.splits)
  next
    case False
    with step p obtain n1 txn1 rs1 s1 where
      g: "delete_groups del env p idx (group_keys idx (enumerate 0 keys)) (n, txn, map (\<lambda>_. False) keys, 0) = Inr (n1, txn1, rs1, s1)"
      by (auto simp: delete_step_def Let_def split: if_splits sum.splits)
    have ok1: "hm_ok txn1" by (rule delete_groups_hm_ok[OF assms ok g])
    have "txn' = txn1 \<or> (\<exists>n2. delete_finish env n2 ch txn1 p rs1 idx = Inr (n', ch', txn', rs))"
      using step p False g by (auto simp: delete_step_def Let_def split: if_splits)
    then show ?thesis using ok1 delete_finish_hm_ok[OF ok1] by metis
  qed
qed

lemma tn_delete_hm_ok: "keeps_ok (tn_delete fuel env)"
  by (induction fuel) (simp_all add: delete_step_hm_ok, simp add: keeps_ok_def)

section \<open>The keys a trie holds\<close>

definition trie_holds :: "trie_env \<Rightarrow> merkle_trie \<Rightarrow> bytes set \<Rightarrow> bool" where
  "trie_holds env t K \<longleftrightarrow> (\<exists>n. mt_root t = Some n \<and> wf_or_empty env [] n (expand_nibbles ` K))"

definition rows_hold :: "trie_env \<Rightarrow> (bytes \<rightharpoonup> bytes) \<Rightarrow> bytes set \<Rightarrow> bool" where
  "rows_hold env m K \<longleftrightarrow> (\<exists>n. load_row env m [] = Some n \<and> wf_or_empty (env_at env m) [] n (expand_nibbles ` K))"

text \<open>No key is a prefix of another, and every key reaches below the uncompacted part of the trie.\<close>

definition keys_ok :: "bytes set \<Rightarrow> bool" where
  "keys_ok K \<longleftrightarrow> prefix_free K \<and> (\<forall>k\<in>K. 6 \<le> length k)"

lemma keys_ok_mono: "keys_ok K \<Longrightarrow> K' \<subseteq> K \<Longrightarrow> keys_ok K'"
  unfolding keys_ok_def using prefix_free_mono by blast

lemma inj_expand_nibbles [simp]: "inj_on expand_nibbles K"
  by (simp add: inj_on_def)

lemma expand_image_diff: "expand_nibbles ` A - expand_nibbles ` B = expand_nibbles ` (A - B)"
  by (simp add: image_set_diff[of expand_nibbles] inj_on_def)

lemma expand_image_Int: "expand_nibbles ` A \<inter> expand_nibbles ` B = expand_nibbles ` (A \<inter> B)"
  by (simp add: image_Int[of expand_nibbles] inj_on_def)

lemma card_expand [simp]: "card (expand_nibbles ` K) = card K"
  by (simp add: card_image)

lemma prefix_free_expand [simp]: "prefix_free (expand_nibbles ` K) \<longleftrightarrow> prefix_free K"
  by (auto simp: prefix_free_def prefix_expand_nibbles)

lemma key_fuel_less: "k \<in> set keys \<Longrightarrow> length k < key_fuel keys"
proof -
  have "k \<in> set keys \<Longrightarrow> length k \<le> foldr max (map length keys) 0" by (induction keys) auto
  then show "k \<in> set keys \<Longrightarrow> length k < key_fuel keys" by (simp add: key_fuel_def)
qed

lemma keys_ok_nibbles:
  assumes "keys_ok (K \<union> set ks)" "ks \<noteq> []"
  defines "keys \<equiv> map expand_nibbles ks"
  shows "\<forall>k\<in>set keys. prefix [] k \<and> UNCOMPACTED_LENGTH \<le> length k \<and> length k < length ([] :: bytes) + key_fuel keys"
    and "keys \<noteq> []" "\<not> list_ex (\<lambda>key. length key < UNCOMPACTED_LENGTH) keys"
    and "prefix_free (expand_nibbles ` K \<union> set keys)"
proof -
  have len: "UNCOMPACTED_LENGTH \<le> length k" if "k \<in> set keys" for k
    using assms(1) that by (force simp: keys_def keys_ok_def UNCOMPACTED_LENGTH_def)
  then show "\<forall>k\<in>set keys. prefix [] k \<and> UNCOMPACTED_LENGTH \<le> length k \<and> length k < length ([] :: bytes) + key_fuel keys"
    using key_fuel_less by simp
  show "keys \<noteq> []" using assms(2) by (simp add: keys_def)
  show "\<not> list_ex (\<lambda>key. length key < UNCOMPACTED_LENGTH) keys" using len by (force simp: list_ex_iff)
  have "expand_nibbles ` K \<union> set keys = expand_nibbles ` (K \<union> set ks)" by (simp add: keys_def image_Un)
  then show "prefix_free (expand_nibbles ` K \<union> set keys)" using assms(1) by (simp add: keys_ok_def)
qed

lemma mt_insert_ok:
  assumes "hash32 env" "trie_holds env t K" "keys_ok (K \<union> set ks)"
  shows "\<exists>t' txn' rs. mt_insert env t txn ks = Inr (t', txn', rs) \<and> trie_holds env t' (K \<union> set ks)
    \<and> length rs = length ks \<and> trues rs = card (set ks - K)
    \<and> (hm_ok txn \<longrightarrow> hm_ok txn')
    \<and> (codec_ok env \<longrightarrow> card (K \<union> set ks) < 2 ^ 32 \<longrightarrow> rows_hold env (overlay m txn) K
         \<longrightarrow> rows_hold env (overlay m txn') (K \<union> set ks))"
proof (cases "ks = []")
  case True
  with assms(2) show ?thesis by (simp add: mt_insert_def mt_update_def)
next
  case False
  let ?keys = "map expand_nibbles ks" and ?S = "expand_nibbles ` K"
  note k = keys_ok_nibbles[OF assms(3) False]
  from assms(2) obtain n where n: "mt_root t = Some n" "wf_or_empty env [] n ?S" by (auto simp: trie_holds_def)
  have "insert_post env (overlay m txn) [] ?S (set ?keys) [] txn_new (length ?keys) 0
      (tn_insert (key_fuel ?keys) env n [] txn_new ?keys (length ([] :: bytes)))"
    by (rule tn_insert_post[OF assms(1) k(2,1) n(2) k(4)])
  then obtain n' ch' txn1 rs where r: "tn_insert (key_fuel ?keys) env n [] txn_new ?keys 0 = Inr (n', ch', txn1, rs)"
    "wf_node env [] n' (?S \<union> set ?keys)" "length rs = length ks" "trues rs = card (set ?keys - ?S)"
    "persists env (overlay m txn) [] ?S txn_new (?S \<union> set ?keys) txn1"
    by (auto simp: insert_post_def)
  have ok: "hm_ok txn1" by (rule keeps_okD[OF tn_insert_hm_ok r(1)]) simp
  have un: "?S \<union> set ?keys = expand_nibbles ` (K \<union> set ks)" "set ?keys - ?S = expand_nibbles ` (set ks - K)"
    by (simp_all add: image_Un expand_image_diff)
  have "mt_insert env t txn ks = Inr (t\<lparr>mt_root := Some n'\<rparr>, txn_merge txn txn1, rs)"
    using False k(3) n(1) r(1) by (simp add: mt_insert_def mt_update_def)
  moreover have "trie_holds env (t\<lparr>mt_root := Some n'\<rparr>) (K \<union> set ks)"
    using r(2) un(1) by (simp add: trie_holds_def wf_or_empty_def)
  moreover have "rows_hold env (overlay m (txn_merge txn txn1)) (K \<union> set ks)"
    if "codec_ok env" "card (K \<union> set ks) < 2 ^ 32" "rows_hold env (overlay m txn) K"
  proof -
    have "stored env (overlay m txn) [] ?S" if "?S \<noteq> {}"
      using \<open>rows_hold _ _ K\<close> that by (auto simp: rows_hold_def stored_def wf_or_empty_def)
    with r(5) that un(1) have "stored env (overlay (overlay m txn) txn1) [] (?S \<union> set ?keys)"
      by (auto simp: persists_def)
    then show ?thesis
      using overlay_merge[OF hm_ok_distinct[OF ok]] un(1)
      by (auto simp: stored_def rows_hold_def wf_or_empty_def)
  qed
  ultimately show ?thesis using r(3,4) un(2) by auto
qed

lemma mt_delete_ok:
  assumes "hash32 env" "trie_holds env t K" "keys_ok (K \<union> set ks)"
  shows "\<exists>t' txn' rs. mt_delete env t txn ks = Inr (t', txn', rs) \<and> trie_holds env t' (K - set ks)
    \<and> length rs = length ks \<and> trues rs = card (set ks \<inter> K)
    \<and> (hm_ok txn \<longrightarrow> hm_ok txn')
    \<and> (K - set ks = {} \<longrightarrow> K \<noteq> {} \<longrightarrow> map_of txn' (make_primary_key [] None) = Some None)"
proof (cases "ks = []")
  case True
  with assms(2) show ?thesis by (auto simp: mt_delete_def mt_update_def)
next
  case False
  let ?keys = "map expand_nibbles ks" and ?S = "expand_nibbles ` K"
  note k = keys_ok_nibbles[OF assms(3) False]
  from assms(2) obtain n where n: "mt_root t = Some n" "wf_or_empty env [] n ?S" by (auto simp: trie_holds_def)
  have "delete_post env [] n ?S (set ?keys) [] (length ?keys)
      (tn_delete (key_fuel ?keys) env n [] txn_new ?keys (length ([] :: bytes)))"
    by (rule tn_delete_post[OF assms(1) k(2,1) n(2) k(4)])
  then obtain n' ch' txn1 rs where r: "tn_delete (key_fuel ?keys) env n [] txn_new ?keys 0 = Inr (n', ch', txn1, rs)"
    "length rs = length ks" "trues rs = card (set ?keys \<inter> ?S)"
    "?S - set ?keys \<noteq> {} \<longrightarrow> wf_node env [] n' (?S - set ?keys)"
    "?S - set ?keys = {} \<and> 0 < UNCOMPACTED_LENGTH \<longrightarrow> n' = default_node"
    "?S - set ?keys = {} \<and> set ?keys \<inter> ?S \<noteq> {} \<longrightarrow> map_of txn1 (make_primary_key [] None) = Some None"
    unfolding delete_post_def length_map list.size by (elim exE conjE) (rule that; assumption)
  have un: "?S - set ?keys = expand_nibbles ` (K - set ks)" "set ?keys \<inter> ?S = expand_nibbles ` (set ks \<inter> K)"
    by (simp_all add: expand_image_diff expand_image_Int)
  have "mt_delete env t txn ks = Inr (t\<lparr>mt_root := Some n'\<rparr>, txn_merge txn txn1, rs)"
    using False k(3) n(1) r(1) by (simp add: mt_delete_def mt_update_def)
  moreover have "trie_holds env (t\<lparr>mt_root := Some n'\<rparr>) (K - set ks)"
    using r(4,5) unfolding un(1) by (auto simp: trie_holds_def wf_or_empty_def UNCOMPACTED_LENGTH_def)
  moreover have ok: "hm_ok txn1" by (rule keeps_okD[OF tn_delete_hm_ok r(1)]) simp
  then have "hm_ok txn \<longrightarrow> hm_ok (txn_merge txn txn1)" by simp
  moreover have "map_of (txn_merge txn txn1) (make_primary_key [] None) = Some None" if "K - set ks = {}" "K \<noteq> {}"
    using r(6) that ok unfolding un by (auto simp: map_of_txn_merge hm_ok_distinct)
  ultimately show ?thesis using r(2,3) un(2) by auto
qed

lemma mt_exists_ok:
  assumes "trie_holds env t K" "key \<noteq> []"
  shows "\<exists>t'. mt_exists env t key = Inr (key \<in> K, t') \<and> trie_holds env t' K"
proof -
  from assms(1) obtain n where n: "mt_root t = Some n" "wf_or_empty env [] n (expand_nibbles ` K)"
    by (auto simp: trie_holds_def)
  have "expand_nibbles key \<noteq> []" using assms(2) by (cases key) auto
  from tn_exists_ok[OF n(2) _ this] obtain n' where
    "tn_exists env n (expand_nibbles key) 0 = Inr (expand_nibbles key \<in> expand_nibbles ` K, n')"
    "wf_or_empty env [] n' (expand_nibbles ` K)" by auto
  with n(1) show ?thesis by (auto simp: mt_exists_def trie_holds_def)
qed

lemma mt_items_ok: "trie_holds env t K \<Longrightarrow> mt_items t = Inr (card K)"
  by (auto simp: trie_holds_def mt_items_def wf_or_empty_def default_node_def dest: wf_items)

lemma mt_root_hash_unique:
  assumes "trie_holds env t K" "trie_holds env' t' K" "env_blake3 env' = env_blake3 env"
  shows "mt_root_hash env t = mt_root_hash env' t'"
proof -
  from assms(1,2) obtain n n' where n: "mt_root t = Some n" "wf_or_empty env [] n (expand_nibbles ` K)"
    "mt_root t' = Some n'" "wf_or_empty env' [] n' (expand_nibbles ` K)" by (auto simp: trie_holds_def)
  show ?thesis
  proof (cases "K = {}")
    case True
    with n have "n = default_node" "n' = default_node" by (auto simp: wf_or_empty_def dest: wf_nonempty)
    with n show ?thesis by (simp add: mt_root_hash_def tn_hash_def is_leaf_def default_node_def)
  next
    case False
    with n have "wf_node env [] n (expand_nibbles ` K)" "wf_node env' [] n' (expand_nibbles ` K)"
      by (auto simp: wf_or_empty_def)
    from wf_hash_unique[OF this assms(3)] n show ?thesis by (simp add: mt_root_hash_def)
  qed
qed

lemma mt_reload_rows:
  assumes "rows_hold env m K"
  shows "\<exists>t'. mt_reload (env_at env m) t = Inr t' \<and> trie_holds (env_at env m) t' K"
proof -
  from assms obtain n where n: "load_row env m [] = Some n" "wf_or_empty (env_at env m) [] n (expand_nibbles ` K)"
    by (auto simp: rows_hold_def)
  have "load_root (env_at env m) = Inr (Some n)"
    using n(1) by (auto simp: load_row_def load_root_def deserialize_node_cong[of "env_at env m" env]
        split: option.splits sum.splits)
  with n(2) show ?thesis by (simp add: mt_reload_def trie_holds_def)
qed

section \<open>All keys below a prefix\<close>

lemma nibble_order:
  "x < y \<longleftrightarrow> drop_bit 4 x < drop_bit 4 y \<or> drop_bit 4 x = drop_bit 4 y \<and> x AND 0x0F < y AND (0x0F :: u8)"
proof -
  have "unat (drop_bit 4 z) = unat z div 16" "unat (z AND 0x0F) = unat z mod 16" for z :: u8
    by (simp_all add: and_15_take_bit drop_bit_eq_div take_bit_eq_mod unat_div unat_mod)
  moreover have "m < n \<longleftrightarrow> m div 16 < n div 16 \<or> m div 16 = n div 16 \<and> m mod 16 < n mod 16" for m n :: nat
  proof -
    have "16 * a + b < 16 * c + d \<longleftrightarrow> a < c \<or> a = c \<and> b < d" if "b < 16" "d < 16" for a b c d :: nat
      using that by arith
    from this[of "m mod 16" "n mod 16" "m div 16" "n div 16"] show ?thesis by simp
  qed
  ultimately show ?thesis unfolding word_less_nat_alt word_unat_eq_iff by metis
qed

lemma expand_nibbles_mono: "expand_nibbles xs < expand_nibbles ys \<longleftrightarrow> xs < ys"
proof (induction xs arbitrary: ys)
  case Nil
  then show ?case by (cases ys) auto
next
  case (Cons x xs)
  show ?case
  proof (cases ys)
    case (Cons y zs)
    have "drop_bit 4 x = drop_bit 4 y \<and> x AND 0x0F = y AND 0x0F \<longleftrightarrow> x = y"
      by (metis expand_nibbles_Cons expand_nibbles_Nil expand_nibbles_inject list.inject)
    with Cons.IH Cons nibble_order[of x y] show ?thesis by auto
  qed simp
qed

lemma sorted_combine:
  assumes "sorted_wrt (<) (map expand_nibbles ks)"
  shows "sorted_wrt (<) ks"
  using assms by (simp add: sorted_wrt_map expand_nibbles_mono)

lemma mt_get_all_values_ok:
  assumes "trie_holds env t K" "K \<noteq> {}" "length pfx \<le> 6" "\<forall>k\<in>K. 2 * length k < fuel"
  shows "\<exists>vs t'. mt_get_all_values fuel env t pfx = Inr (vs, t') \<and> trie_holds env t' K
    \<and> sorted_wrt (<) vs \<and> set vs \<subseteq> {k \<in> K. prefix pfx k}
    \<and> (length vs \<le> MAX_VALUES_RETURNED_PER_CALL \<longrightarrow> set vs = {k \<in> K. prefix pfx k})"
proof -
  let ?S = "expand_nibbles ` K" and ?p = "expand_nibbles pfx"
  let ?T = "{k \<in> ?S. prefix ?p k}"
  from assms(1,2) obtain n where n: "mt_root t = Some n" "wf_node env [] n ?S"
    by (auto simp: trie_holds_def wf_or_empty_def)
  have T: "?T = expand_nibbles ` {k \<in> K. prefix pfx k}" by (auto simp: prefix_expand_nibbles)
  have "\<exists>r n'. with_node_from_trie env (\<lambda>n. tn_get_all_values fuel env n ?p) n ?p 0 = Inr (r, n')
      \<and> wf_node env (take 0 ?p) n' ?S
      \<and> (case r of Some vs \<Rightarrow> key_page ?T vs | None \<Rightarrow> ?T = {})"
  proof (rule with_node_ok)
    show "wf_node env (take 0 ?p) n ?S" using n(2) by simp
    show "length ?p \<le> UNCOMPACTED_LENGTH" using assms(3) by (simp add: UNCOMPACTED_LENGTH_def)
    show "\<exists>x m'. tn_get_all_values fuel env m ?p = Inr (x, m') \<and> key_page T x \<and> wf_node env ?p m' T"
      if "wf_node env ?p m T" "T = {k \<in> ?S. prefix ?p k}" for m T
      using that(2) assms(4) by (intro tn_get_all_values_ok[OF that(1)]) (auto intro: trans_less_add2)
  qed simp
  then obtain r n' where r: "with_node_from_trie env (\<lambda>n. tn_get_all_values fuel env n ?p) n ?p 0 = Inr (r, n')"
    "wf_node env [] n' ?S" "case r of Some vs \<Rightarrow> key_page ?T vs | None \<Rightarrow> ?T = {}" by auto
  have t': "trie_holds env (t\<lparr>mt_root := Some n'\<rparr>) K" using r(2) by (simp add: trie_holds_def wf_or_empty_def)
  show ?thesis
  proof (cases r)
    case None
    with r(3) T have "{k \<in> K. prefix pfx k} = {}" by simp
    with None r(1) n(1) t' show ?thesis by (auto simp: mt_get_all_values_def)
  next
    case (Some vs)
    then have page: "key_page ?T vs" using r(3) by simp
    then have "set vs \<subseteq> range expand_nibbles" using T by (auto simp: key_page_def)
    then obtain ks where ks: "vs = map expand_nibbles ks" by (metis ex_map_conv subsetD imageE)
    have comb: "list_all (\<lambda>v. combine_nibbles v \<noteq> None) vs" "map (the \<circ> combine_nibbles) vs = ks"
      by (auto simp: ks list_all_iff combine_expand_nibbles map_idI)
    have "set ks \<subseteq> {k \<in> K. prefix pfx k}" "length ks \<le> MAX_VALUES_RETURNED_PER_CALL \<longrightarrow> set ks = {k \<in> K. prefix pfx k}"
      using page unfolding key_page_def T ks set_map length_map by (simp_all add: inj_image_subset_iff inj_image_eq_iff)
    moreover have "sorted_wrt (<) ks" using page sorted_combine by (simp add: key_page_def ks)
    ultimately show ?thesis using Some r(1) n(1) t' comb by (auto simp: mt_get_all_values_def)
  qed
qed

lemma mt_evict_ok:
  assumes "trie_holds (env_at env m) t K" "rows_hold env m K"
  shows "trie_holds (env_at env m) (mt_evict_stale stale t) K"
proof -
  from assms(1) obtain n where n: "mt_root t = Some n" "wf_or_empty (env_at env m) [] n (expand_nibbles ` K)"
    by (auto simp: trie_holds_def)
  show ?thesis
  proof (cases "K = {}")
    case True
    then have "n = default_node" using n(2) by (auto simp: wf_or_empty_def dest: wf_nonempty)
    with n True show ?thesis by (simp add: trie_holds_def mt_evict_stale_def wf_or_empty_def default_node_def)
  next
    case False
    then have "wf_node (env_at env m) [] n (expand_nibbles ` K)" "stored env m [] (expand_nibbles ` K)"
      using n(2) assms(2) by (auto simp: wf_or_empty_def rows_hold_def stored_def)
    from evict_wf[OF this] n(1) show ?thesis by (simp add: trie_holds_def mt_evict_stale_def wf_or_empty_def)
  qed
qed

lemma rows_hold_env_at [simp]: "rows_hold (env_at env m') m K = rows_hold env m K"
proof -
  have "load_row (env_at env m') m [] = load_row env m []"
    using deserialize_node_cong[of "env_at env m'" env] by (auto simp: load_row_def split: option.split)
  then show ?thesis by (simp add: rows_hold_def env_at_def)
qed

lemma hash32_env_at [simp]: "hash32 (env_at env m) = hash32 env"
  by (simp add: hash32_def)

lemma codec_ok_env_at [simp]: "codec_ok (env_at env m) = codec_ok env"
  by (simp add: codec_ok_def)

lemma env_db_at: "engine_laws ops rows einv \<Longrightarrow> einv e \<Longrightarrow> env_db env ops (Some (TransactionDb e)) = env_at env (rows e)"
  by (simp add: env_db_def env_at_def db_get_reads)

section \<open>Equal digests\<close>

definition trie_preimages :: "trie_env \<Rightarrow> merkle_trie \<Rightarrow> bytes set" where
  "trie_preimages env t = {x. \<exists>n. mt_root t = Some n \<and> hashed env [] n x}"

lemma mt_root_hash_determines:
  assumes "trie_holds env t K" "trie_holds env' t' K'" "env_blake3 env' = env_blake3 env" "hash32 env"
    and "no_collision (env_blake3 env) (trie_preimages env t \<union> trie_preimages env' t')"
    and "\<forall>k \<in> K \<union> K'. length k mod 10 \<noteq> 0" "mt_root_hash env t = mt_root_hash env' t'"
  shows "K = K'"
proof -
  have h32: "hash32 env'" using assms(3,4) by (simp add: hash32_def)
  from assms(1,2) obtain n n' where n: "mt_root t = Some n" "wf_or_empty env [] n (expand_nibbles ` K)"
    "mt_root t' = Some n'" "wf_or_empty env' [] n' (expand_nibbles ` K')" by (auto simp: trie_holds_def)
  have eq: "tn_hash env n = tn_hash env' n'" using assms(7) n by (simp add: mt_root_hash_def)
  have dh: "tn_hash e default_node = Inr []" for e by (simp add: tn_hash_def is_leaf_def default_node_def)
  have ne: "tn_hash e x \<noteq> Inr []" if "wf_node e [] x S" "hash32 e" for e x S
    using wf_hash_ok[OF that] by (metis list.size(3) sum.inject(2) zero_neq_numeral)
  consider "K = {}" "K' = {}" | "wf_node env [] n (expand_nibbles ` K)" "wf_node env' [] n' (expand_nibbles ` K')"
    using n(2,4) eq dh ne assms(4) h32 unfolding wf_or_empty_def by (metis image_is_empty)
  then show ?thesis
  proof cases
    case 2
    have "{x. hashed env [] n x} \<union> {x. hashed env' [] n' x} = trie_preimages env t \<union> trie_preimages env' t'"
      using n(1,3) by (auto simp: trie_preimages_def)
    moreover have "\<forall>k \<in> expand_nibbles ` K \<union> expand_nibbles ` K'. length k mod 20 \<noteq> 0"
    proof -
      have "2 * m mod 20 = 2 * (m mod 10)" for m :: nat using mult_mod_right[of 2 m 10] by simp
      then show ?thesis using assms(6) by auto
    qed
    ultimately have "expand_nibbles ` K = expand_nibbles ` K'"
      using wf_hash_determines[OF 2 assms(3,4)] assms(5) eq by simp
    then show ?thesis by (simp add: inj_image_eq_iff)
  qed simp
qed

end
