(* ===== verification/Sample_Env.thy ===== *)
theory Sample_Env
  imports Merkle_Trie
begin

text \<open>
  A concrete environment that meets the assumptions made of the hash and of the protobuf codec, used to
  instantiate the properties that assume them.
\<close>

definition sample_blake3 :: "bytes \<Rightarrow> bytes" where
  "sample_blake3 x = take 32 (x @ replicate 32 0)"

text \<open>Self-delimiting encodings: a marker before every element, and an end marker.\<close>

fun put_list :: "('a \<Rightarrow> bytes) \<Rightarrow> 'a list \<Rightarrow> bytes" where
  "put_list f [] = [0]"
| "put_list f (x # xs) = 1 # f x @ put_list f xs"

fun take_list :: "nat \<Rightarrow> (bytes \<Rightarrow> ('a \<times> bytes) option) \<Rightarrow> bytes \<Rightarrow> ('a list \<times> bytes) option" where
  "take_list 0 g bs = None"
| "take_list (Suc n) g [] = None"
| "take_list (Suc n) g (b # bs) =
     (if b = 0 then Some ([], bs)
      else case g bs of
        None \<Rightarrow> None
      | Some (x, bs') \<Rightarrow> (case take_list n g bs' of None \<Rightarrow> None | Some (xs, rest) \<Rightarrow> Some (x # xs, rest)))"

fun take_byte :: "bytes \<Rightarrow> (u8 \<times> bytes) option" where
  "take_byte [] = None"
| "take_byte (b # bs) = Some (b, bs)"

definition take_u32 :: "bytes \<Rightarrow> (u32 \<times> bytes) option" where
  "take_u32 bs = (if length bs < 4 then None else Some (u32_from_be (take 4 bs), drop 4 bs))"

definition put_bytes :: "bytes \<Rightarrow> bytes" where
  "put_bytes = put_list (\<lambda>b. [b])"

definition take_bytes :: "bytes \<Rightarrow> (bytes \<times> bytes) option" where
  "take_bytes bs = take_list (length bs) take_byte bs"

definition put_hash :: "u32 \<times> bytes \<Rightarrow> bytes" where
  "put_hash ch = u32_to_be (fst ch) @ put_bytes (snd ch)"

definition take_hash :: "bytes \<Rightarrow> ((u32 \<times> bytes) \<times> bytes) option" where
  "take_hash bs = (case take_u32 bs of None \<Rightarrow> None | Some (c, bs1) \<Rightarrow>
     (case take_bytes bs1 of None \<Rightarrow> None | Some (h, bs2) \<Rightarrow> Some ((c, h), bs2)))"

definition sample_encode :: "db_trie_node \<Rightarrow> bytes" where
  "sample_encode d = put_bytes (dn_key d) @ put_list u32_to_be (dn_child_chars d) @ u32_to_be (dn_items d)
     @ put_list put_hash (dn_child_hashes d)"

definition sample_decode :: "bytes \<Rightarrow> db_trie_node option" where
  "sample_decode bs =
     (case take_bytes bs of None \<Rightarrow> None | Some (key, bs1) \<Rightarrow>
     (case take_list (length bs1) take_u32 bs1 of None \<Rightarrow> None | Some (chars, bs2) \<Rightarrow>
     (case take_u32 bs2 of None \<Rightarrow> None | Some (items, bs3) \<Rightarrow>
     (case take_list (length bs3) take_hash bs3 of None \<Rightarrow> None | Some (hashes, bs4) \<Rightarrow>
        Some \<lparr>dn_key = key, dn_child_chars = chars, dn_items = items, dn_child_hashes = hashes\<rparr>))))"

lemma take_put_list:
  assumes "\<And>x rest. g (f x @ rest) = Some (x, rest)" "length (put_list f xs) \<le> n"
  shows "take_list n g (put_list f xs @ rest) = Some (xs, rest)"
  using assms(2)
proof (induction xs arbitrary: n)
  case Nil
  then show ?case by (cases n) auto
next
  case (Cons x xs)
  then obtain m where "n = Suc m" "length (put_list f xs) \<le> m" by (cases n) auto
  with Cons.IH[of m] assms(1)[of x "put_list f xs @ rest"] show ?case by simp
qed

lemma take_put_bytes [simp]: "take_bytes (put_bytes bs @ rest) = Some (bs, rest)"
  unfolding take_bytes_def put_bytes_def by (rule take_put_list) simp_all

lemma take_u32_to_be [simp]: "take_u32 (u32_to_be w @ rest) = Some (w, rest)"
  by (simp add: take_u32_def)

lemma take_put_hash [simp]: "take_hash (put_hash ch @ rest) = Some (ch, rest)"
  by (simp add: take_hash_def put_hash_def)

lemma sample_decode_encode: "sample_decode (sample_encode d) = Some d"
proof -
  have "take_list n take_u32 (put_list u32_to_be cs @ rest) = Some (cs, rest)"
    if "length (put_list u32_to_be cs) \<le> n" for n cs rest
    by (rule take_put_list[OF take_u32_to_be that])
  moreover have "take_list (length (put_list put_hash hs)) take_hash (put_list put_hash hs) = Some (hs, [])" for hs
    using take_put_list[of take_hash put_hash hs "length (put_list put_hash hs)" "[]", OF take_put_hash] by simp
  ultimately show ?thesis by (simp add: sample_decode_def sample_encode_def)
qed

definition sample_env :: "(bytes \<rightharpoonup> bytes) \<Rightarrow> trie_env" where
  "sample_env m = \<lparr>env_blake3 = sample_blake3, env_encode = sample_encode, env_decode = sample_decode, env_get = reads m\<rparr>"

lemma sample_env_simps [simp]:
  "env_blake3 (sample_env m) = sample_blake3" "env_get (sample_env m) = reads m"
  "hash32 (sample_env m)" "codec_ok (sample_env m)" "env_at (sample_env m) m' = sample_env m'"
  by (simp_all add: sample_env_def hash32_def codec_ok_def sample_blake3_def sample_decode_encode env_at_def min_def)

text \<open>A trie with an empty root, and the rows that hold it.\<close>

definition empty_trie :: merkle_trie where
  "empty_trie = \<lparr>mt_root = Some default_node\<rparr>"

definition empty_rows :: "bytes \<rightharpoonup> bytes" where
  "empty_rows = [make_primary_key [] None \<mapsto> serialize_node (sample_env Map.empty) default_node]"

lemma empty_trie_holds [simp]: "trie_holds env empty_trie {}"
  by (simp add: trie_holds_def empty_trie_def wf_or_empty_def)

lemma empty_rows_hold [simp]: "rows_hold (sample_env m) empty_rows {}"
proof -
  have "deserialize_node (sample_env m) (serialize_node (sample_env Map.empty) default_node) = Inr default_node"
    by (simp add: deserialize_node_def serialize_node_def sample_env_def sample_decode_encode default_node_def)
  then show ?thesis by (simp add: rows_hold_def load_row_def empty_rows_def wf_or_empty_def)
qed

end
