(* ===== verification/Trie_Spec.thy ===== *)
theory Trie_Spec
  imports Sample_Env
begin

text \<open>
  What the rest of the program may rely on: the trie is a set of keys with a digest. The contract is a
  locale, proved for the Merkle trie by an interpretation; its consequences (any two histories with the
  same final set have the same root hash) are proved once in the locale.
\<close>

section \<open>Authenticated sets\<close>

datatype 'k set_op = InsertKeys "'k list" | DeleteKeys "'k list"

fun op_keys :: "'k set_op \<Rightarrow> 'k set" where
  "op_keys (InsertKeys ks) = set ks"
| "op_keys (DeleteKeys ks) = set ks"

text \<open>The abstract step.\<close>

fun set_step :: "'k set_op \<Rightarrow> 'k set \<Rightarrow> 'k set" where
  "set_step (InsertKeys ks) A = A \<union> set ks"
| "set_step (DeleteKeys ks) A = A - set ks"

locale authenticated_set =
  fixes rep :: "'s \<Rightarrow> 'k set \<Rightarrow> bool"
    and valid :: "'k set \<Rightarrow> bool"
    and insert_op :: "'s \<Rightarrow> 'k list \<Rightarrow> 'e + 's"
    and delete_op :: "'s \<Rightarrow> 'k list \<Rightarrow> 'e + 's"
    and digest :: "'s \<Rightarrow> 'e + 'h"
  assumes insert_law: "rep s A \<Longrightarrow> valid (A \<union> set ks) \<Longrightarrow> \<exists>s'. insert_op s ks = Inr s' \<and> rep s' (A \<union> set ks)"
    and delete_law: "rep s A \<Longrightarrow> valid (A \<union> set ks) \<Longrightarrow> \<exists>s'. delete_op s ks = Inr s' \<and> rep s' (A - set ks)"
    and digest_law: "rep s A \<Longrightarrow> rep s' A \<Longrightarrow> digest s = digest s'"
    and valid_subset: "valid A \<Longrightarrow> B \<subseteq> A \<Longrightarrow> valid B"
begin

fun step :: "'k set_op \<Rightarrow> 's \<Rightarrow> 'e + 's" where
  "step (InsertKeys ks) s = insert_op s ks"
| "step (DeleteKeys ks) s = delete_op s ks"

fun run :: "'k set_op list \<Rightarrow> 's \<Rightarrow> 'e + 's" where
  "run [] s = Inr s"
| "run (x # xs) s = (case step x s of Inl e \<Rightarrow> Inl e | Inr s' \<Rightarrow> run xs s')"

lemma step_refines:
  assumes "rep s A" "valid (A \<union> op_keys x)"
  shows "\<exists>s'. step x s = Inr s' \<and> rep s' (set_step x A)"
  using assms insert_law delete_law by (cases x) auto

lemma run_refines:
  assumes "rep s A" "valid (A \<union> (\<Union>x\<in>set xs. op_keys x))"
  shows "\<exists>s'. run xs s = Inr s' \<and> rep s' (fold set_step xs A)"
  using assms
proof (induction xs arbitrary: s A)
  case (Cons x xs)
  have "valid (A \<union> op_keys x)" by (rule valid_subset[OF Cons.prems(2)]) auto
  from step_refines[OF Cons.prems(1) this] obtain s1 where s1: "step x s = Inr s1" "rep s1 (set_step x A)" by blast
  have "set_step x A \<subseteq> A \<union> op_keys x" by (cases x) auto
  then have "valid (set_step x A \<union> (\<Union>x\<in>set xs. op_keys x))"
    by (intro valid_subset[OF Cons.prems(2)]) auto
  from Cons.IH[OF s1(2) this] s1(1) show ?case by auto
qed simp

lemma history_independent:
  assumes "rep s A" "rep s' A'" "valid (A \<union> (\<Union>x\<in>set xs. op_keys x))" "valid (A' \<union> (\<Union>x\<in>set ys. op_keys x))"
    and "fold set_step xs A = fold set_step ys A'"
  shows "\<exists>t t'. run xs s = Inr t \<and> run ys s' = Inr t' \<and> digest t = digest t'"
proof -
  from run_refines[OF assms(1,3)] obtain t where t: "run xs s = Inr t" "rep t (fold set_step xs A)" by blast
  from run_refines[OF assms(2,4)] obtain t' where t': "run ys s' = Inr t'" "rep t' (fold set_step ys A')" by blast
  have "digest t = digest t'" by (rule digest_law[OF t(2)]) (simp add: assms(5) t'(2))
  with t(1) t'(1) show ?thesis by blast
qed

lemma insert_delete_restores:
  assumes "rep s A" "valid (A \<union> set ks)" "A \<inter> set ks = {}"
  shows "\<exists>t. run [InsertKeys ks, DeleteKeys ks] s = Inr t \<and> rep t A \<and> digest t = digest s"
proof -
  have "valid (A \<union> (\<Union>x\<in>set [InsertKeys ks, DeleteKeys ks]. op_keys x))" using assms(2) by simp
  from run_refines[OF assms(1) this] obtain t where t: "run [InsertKeys ks, DeleteKeys ks] s = Inr t"
    "rep t (fold set_step [InsertKeys ks, DeleteKeys ks] A)" by blast
  have "fold set_step [InsertKeys ks, DeleteKeys ks] A = A" using assms(3) by auto
  with t(2) have "rep t A" by (simp only:)
  with t(1) digest_law[OF this assms(1)] show ?thesis by blast
qed

end

section \<open>The Merkle trie is one\<close>

text \<open>The state is the trie with the batch it writes to.\<close>

definition mt_insert_state :: "trie_env \<Rightarrow> merkle_trie \<times> txn_batch \<Rightarrow> bytes list \<Rightarrow> trie_failure + merkle_trie \<times> txn_batch" where
  "mt_insert_state env st ks = map_sum id (\<lambda>(t, txn, _). (t, txn)) (mt_insert env (fst st) (snd st) ks)"

definition mt_delete_state :: "trie_env \<Rightarrow> merkle_trie \<times> txn_batch \<Rightarrow> bytes list \<Rightarrow> trie_failure + merkle_trie \<times> txn_batch" where
  "mt_delete_state env st ks = map_sum id (\<lambda>(t, txn, _). (t, txn)) (mt_delete env (fst st) (snd st) ks)"

text \<open>A sequence of updates, stopping at the first failure.\<close>

fun mt_run :: "trie_env \<Rightarrow> bytes set_op list \<Rightarrow> merkle_trie \<times> txn_batch \<Rightarrow> trie_failure + merkle_trie \<times> txn_batch" where
  "mt_run env [] st = Inr st"
| "mt_run env (x # xs) st =
     (case (case x of InsertKeys ks \<Rightarrow> mt_insert_state env st ks | DeleteKeys ks \<Rightarrow> mt_delete_state env st ks) of
        Inl e \<Rightarrow> Inl e
      | Inr st' \<Rightarrow> mt_run env xs st')"

interpretation mt: authenticated_set
  "\<lambda>st K. hash32 env \<and> trie_holds env (fst st) K" keys_ok "mt_insert_state env" "mt_delete_state env"
  "\<lambda>st. mt_root_hash env (fst st)" for env
proof
  fix s :: "merkle_trie \<times> txn_batch" and A ks
  assume a: "hash32 env \<and> trie_holds env (fst s) A" "keys_ok (A \<union> set ks)"
  from mt_insert_ok[of env "fst s" A ks "snd s" Map.empty] a
  show "\<exists>s'. mt_insert_state env s ks = Inr s' \<and> hash32 env \<and> trie_holds env (fst s') (A \<union> set ks)"
    by (auto simp: mt_insert_state_def)
  from mt_delete_ok[of env "fst s" A ks "snd s"] a
  show "\<exists>s'. mt_delete_state env s ks = Inr s' \<and> hash32 env \<and> trie_holds env (fst s') (A - set ks)"
    by (auto simp: mt_delete_state_def)
next
  fix s s' :: "merkle_trie \<times> txn_batch" and A
  assume "hash32 env \<and> trie_holds env (fst s) A" "hash32 env \<and> trie_holds env (fst s') A"
  then show "mt_root_hash env (fst s) = mt_root_hash env (fst s')"
    using mt_root_hash_unique[of env "fst s" A env "fst s'"] by simp
qed (rule keys_ok_mono)

lemma mt_run_eq: "mt_run env xs st = mt.run env xs st"
proof (induction xs arbitrary: st)
  case (Cons x xs)
  then show ?case by (cases x) (auto split: sum.splits)
qed simp

section \<open>Properties\<close>

lemma keys_ok_singleton: "6 \<le> length k \<Longrightarrow> keys_ok {k}"
  by (simp add: keys_ok_def prefix_free_def)

lemma keys_ok_two:
  "length k = length k' \<Longrightarrow> 6 \<le> length k \<Longrightarrow> keys_ok {k, k'}"
  by (auto simp: keys_ok_def prefix_free_def prefix_def)

text \<open>
  C1: inserting keys into a trie that holds \<open>K\<close> always succeeds and gives a trie that holds
  \<open>K \<union> set ks\<close>: every later membership test and the item count answer for that set. One flag is
  returned per key, and exactly as many flags are set as keys were new.
\<close>

theorem merkle_insert:
  assumes "hash32 env" "trie_holds env t K" "keys_ok (K \<union> set ks)"
  shows "\<exists>t' txn' rs. mt_insert env t txn ks = Inr (t', txn', rs) \<and> trie_holds env t' (K \<union> set ks)
    \<and> (\<forall>k. k \<noteq> [] \<longrightarrow> (\<exists>t''. mt_exists env t' k = Inr (k \<in> K \<union> set ks, t'')))
    \<and> mt_items t' = Inr (card (K \<union> set ks))
    \<and> length rs = length ks \<and> trues rs = card (set ks - K)"
proof -
  from mt_insert_ok[OF assms, of txn Map.empty] obtain t' txn' rs where
    r: "mt_insert env t txn ks = Inr (t', txn', rs)" "trie_holds env t' (K \<union> set ks)"
      "length rs = length ks" "trues rs = card (set ks - K)" by blast
  with mt_exists_ok[OF r(2)] mt_items_ok[OF r(2)] show ?thesis by blast
qed

theorem merkle_insert_witness:
  "\<exists>t' txn' rs. mt_insert (sample_env Map.empty) empty_trie txn_new [[1,2,3,4,5,6], [1,2,3,4,5,7]] = Inr (t', txn', rs)
    \<and> trie_holds (sample_env Map.empty) t' {[1,2,3,4,5,6], [1,2,3,4,5,7]} \<and> trues rs = 2"
proof -
  have "keys_ok ({} \<union> set [[1,2,3,4,5,6], [1,2,3,4,5,7]])" by (simp add: keys_ok_two)
  from merkle_insert[OF _ empty_trie_holds this, of "sample_env Map.empty" txn_new] show ?thesis by auto
qed

text \<open>
  C2: deleting keys from a trie that holds \<open>K\<close> always succeeds and gives a trie that holds
  \<open>K - set ks\<close>, for every later membership test and for the item count; exactly as many flags are set
  as keys were present.
\<close>

theorem merkle_delete:
  assumes "hash32 env" "trie_holds env t K" "keys_ok (K \<union> set ks)"
  shows "\<exists>t' txn' rs. mt_delete env t txn ks = Inr (t', txn', rs) \<and> trie_holds env t' (K - set ks)
    \<and> (\<forall>k. k \<noteq> [] \<longrightarrow> (\<exists>t''. mt_exists env t' k = Inr (k \<in> K - set ks, t'')))
    \<and> mt_items t' = Inr (card (K - set ks))
    \<and> length rs = length ks \<and> trues rs = card (set ks \<inter> K)"
proof -
  from mt_delete_ok[OF assms, of txn] obtain t' txn' rs where
    r: "mt_delete env t txn ks = Inr (t', txn', rs)" "trie_holds env t' (K - set ks)"
      "length rs = length ks" "trues rs = card (set ks \<inter> K)" by blast
  with mt_exists_ok[OF r(2)] mt_items_ok[OF r(2)] show ?thesis by blast
qed

theorem merkle_delete_witness:
  "\<exists>t t' txn' rs. trie_holds (sample_env Map.empty) t {[1,2,3,4,5,6], [1,2,3,4,5,7]}
    \<and> mt_delete (sample_env Map.empty) t txn_new [[1,2,3,4,5,6]] = Inr (t', txn', rs)
    \<and> trie_holds (sample_env Map.empty) t' {[1,2,3,4,5,7]} \<and> trues rs = 1"
proof -
  let ?K = "{[1,2,3,4,5,6], [1,2,3,4,5,7]} :: bytes set"
  have ok: "keys_ok ({} \<union> set [[1,2,3,4,5,6], [1,2,3,4,5,7]])" "keys_ok (?K \<union> set [[1,2,3,4,5,6]])"
    by (simp_all add: keys_ok_two insert_commute)
  from mt_insert_ok[OF _ empty_trie_holds ok(1), of "sample_env Map.empty" txn_new Map.empty]
  obtain t where t: "trie_holds (sample_env Map.empty) t ?K" by auto
  from merkle_delete[OF _ this ok(2), of txn_new] t show ?thesis by (auto simp: insert_Diff_if)
qed

text \<open>
  C3: the root hash depends on the set of keys and not on the history. Any two sequences of batched
  insertions and deletions, from tries with possibly different contents, succeed and end in the same
  root hash when they end in the same set.
\<close>

theorem merkle_history:
  assumes "hash32 env" "trie_holds env t A" "trie_holds env t' A'"
    and "keys_ok (A \<union> (\<Union>x\<in>set xs. op_keys x))" "keys_ok (A' \<union> (\<Union>x\<in>set ys. op_keys x))"
    and "fold set_step xs A = fold set_step ys A'"
  shows "\<exists>s s'. mt_run env xs (t, txn) = Inr s \<and> mt_run env ys (t', txn') = Inr s'
    \<and> mt_root_hash env (fst s) = mt_root_hash env (fst s')"
  using mt.history_independent[of env "(t, txn)" A "(t', txn')" A' xs ys] assms
  unfolding mt_run_eq by simp

theorem merkle_history_witness:
  "\<exists>s s'. mt_run (sample_env Map.empty)
       [InsertKeys [[1,2,3,4,5,6], [1,2,3,4,5,7]], DeleteKeys [[1,2,3,4,5,6]]] (empty_trie, txn_new) = Inr s
    \<and> mt_run (sample_env Map.empty) [InsertKeys [[1,2,3,4,5,7]]] (empty_trie, txn_new) = Inr s'
    \<and> mt_root_hash (sample_env Map.empty) (fst s) = mt_root_hash (sample_env Map.empty) (fst s')"
  by (rule merkle_history[OF _ empty_trie_holds empty_trie_holds])
    (simp_all add: keys_ok_two keys_ok_singleton insert_Diff_if insert_commute)



text \<open>
  C5: what an insertion leaves in its batch is enough. From a database whose rows hold \<open>K\<close>, loading the
  trie, inserting, committing the batch and loading again gives a trie that holds \<open>K \<union> set ks\<close> and has
  the root hash that was computed in memory before the commit.
\<close>

theorem merkle_commit_reload:
  assumes "engine_laws ops rows einv" "einv e" "hash32 env" "codec_ok env"
    and "rows_hold env (rows e) K" "keys_ok (K \<union> set ks)" "card (K \<union> set ks) < 2 ^ 32"
  defines "env1 \<equiv> env_db env ops (Some (TransactionDb e))"
  shows "\<exists>t1 t2 txn rs e' t3. mt_reload env1 mt_new = Inr t1 \<and> mt_insert env1 t1 txn_new ks = Inr (t2, txn, rs)
    \<and> db_commit ops (Some (TransactionDb e)) txn = Inr (Some (TransactionDb e')) \<and> rows_hold env (rows e') (K \<union> set ks)
    \<and> mt_reload (env_db env ops (Some (TransactionDb e'))) mt_new = Inr t3
    \<and> trie_holds (env_db env ops (Some (TransactionDb e'))) t3 (K \<union> set ks)
    \<and> mt_root_hash (env_db env ops (Some (TransactionDb e'))) t3 = mt_root_hash env1 t2"
proof -
  have env1: "env1 = env_at env (rows e)" unfolding env1_def by (rule env_db_at[OF assms(1,2)])
  from mt_reload_rows[OF assms(5)] obtain t1 where t1: "mt_reload env1 mt_new = Inr t1" "trie_holds env1 t1 K"
    unfolding env1 by blast
  have "hash32 env1" using assms(3) env1 by simp
  from mt_insert_ok[OF this t1(2) assms(6), of txn_new "rows e"] assms(4,5,7) obtain t2 txn rs where
    t2: "mt_insert env1 t1 txn_new ks = Inr (t2, txn, rs)" "trie_holds env1 t2 (K \<union> set ks)" "hm_ok txn"
      "rows_hold env (overlay (rows e) txn) (K \<union> set ks)" by (auto simp: env1)
  from db_commit_rows[OF assms(1,2) hm_ok_distinct[OF t2(3)]] obtain e' where
    e': "db_commit ops (Some (TransactionDb e)) txn = Inr (Some (TransactionDb e'))" "einv e'"
      "rows e' = overlay (rows e) txn" by blast
  have r': "rows_hold env (rows e') (K \<union> set ks)" using t2(4) e'(3) by simp
  from mt_reload_rows[OF this] obtain t3 where
    t3: "mt_reload (env_at env (rows e')) mt_new = Inr t3" "trie_holds (env_at env (rows e')) t3 (K \<union> set ks)" by blast
  have "mt_root_hash (env_at env (rows e')) t3 = mt_root_hash env1 t2"
    by (rule mt_root_hash_unique[OF t3(2) t2(2)]) (simp add: env1)
  note fin = t3 this
  from t1 t2 e' r' fin[folded env_db_at[OF assms(1) e'(2)]] show ?thesis by blast
qed

theorem merkle_commit_reload_witness:
  "\<exists>t1 t2 txn rs e' t3. mt_reload (env_db (sample_env Map.empty) list_engine (Some (TransactionDb
        [(make_primary_key [] None, serialize_node (sample_env Map.empty) default_node)]))) mt_new = Inr t1
    \<and> mt_insert (env_db (sample_env Map.empty) list_engine (Some (TransactionDb
        [(make_primary_key [] None, serialize_node (sample_env Map.empty) default_node)]))) t1 txn_new [[1,2,3,4,5,6]]
        = Inr (t2, txn, rs)
    \<and> mt_reload (env_db (sample_env Map.empty) list_engine (Some (TransactionDb e'))) mt_new = Inr t3
    \<and> trie_holds (env_db (sample_env Map.empty) list_engine (Some (TransactionDb e'))) t3 {[1,2,3,4,5,6]}"
proof -
  let ?e = "[(make_primary_key [] None, serialize_node (sample_env Map.empty) default_node)]"
  have "map_of ?e = empty_rows" by (auto simp: empty_rows_def)
  then have "rows_hold (sample_env Map.empty) (map_of ?e) {}" by (simp only: empty_rows_hold)
  from merkle_commit_reload[OF list_engine_laws _ _ _ this, of "[[1,2,3,4,5,6]]"]
  show ?thesis by (simp add: keys_ok_singleton hm_ok_def) blast
qed

text \<open>
  C10: emptying a trie and committing leaves no root row, so the next reload of the same database fails
  with \<open>UnableToReloadRoot\<close>.
\<close>

theorem merkle_emptied_not_reloadable:
  assumes "engine_laws ops rows einv" "einv e" "hash32 env"
    and "rows_hold env (rows e) K" "keys_ok (K \<union> set ks)" "K \<noteq> {}" "K \<subseteq> set ks"
  defines "env1 \<equiv> env_db env ops (Some (TransactionDb e))"
  shows "\<exists>t1 t2 txn rs e'. mt_reload env1 mt_new = Inr t1 \<and> mt_delete env1 t1 txn_new ks = Inr (t2, txn, rs)
    \<and> mt_items t2 = Inr 0 \<and> db_commit ops (Some (TransactionDb e)) txn = Inr (Some (TransactionDb e'))
    \<and> mt_reload (env_db env ops (Some (TransactionDb e'))) t2 = Inl (Error UnableToReloadRoot)"
proof -
  have env1: "env1 = env_at env (rows e)" unfolding env1_def by (rule env_db_at[OF assms(1,2)])
  from mt_reload_rows[OF assms(4)] obtain t1 where t1: "mt_reload env1 mt_new = Inr t1" "trie_holds env1 t1 K"
    unfolding env1 by blast
  have h: "hash32 env1" using assms(3) env1 by simp
  have "K - set ks = {}" using assms(7) by auto
  note del = mt_delete_ok[OF h t1(2) assms(5), of txn_new, unfolded this]
  obtain t2 txn rs where
    t2: "mt_delete env1 t1 txn_new ks = Inr (t2, txn, rs)" "trie_holds env1 t2 {}" "hm_ok txn"
      "map_of txn (make_primary_key [] None) = Some None"
    using del assms(6) by auto
  from db_commit_rows[OF assms(1,2) hm_ok_distinct[OF t2(3)]] obtain e' where
    e': "db_commit ops (Some (TransactionDb e)) txn = Inr (Some (TransactionDb e'))" "einv e'"
      "rows e' = overlay (rows e) txn" by blast
  have "mt_reload (env_at env (rows e')) t2 = Inl (Error UnableToReloadRoot)"
    using t2(4) by (simp add: mt_reload_def load_root_def e'(3) overlay_def)
  note fin = this[folded env_db_at[OF assms(1) e'(2)]]
  have "mt_items t2 = Inr 0" using mt_items_ok[OF t2(2)] by simp
  with t1(1) t2(1) e' fin show ?thesis by blast
qed

lemma two_keys_stored:
  "\<exists>m. hm_ok m \<and> rows_hold (sample_env Map.empty) (map_of m) {[1,2,3,4,5,6], [1,2,3,4,5,7]}"
proof -
  let ?e = "[(make_primary_key [] None, serialize_node (sample_env Map.empty) default_node)]"
  let ?ks = "[[1,2,3,4,5,6], [1,2,3,4,5,7]] :: bytes list"
  have "keys_ok ({} \<union> set ?ks)" by (simp add: keys_ok_two)
  from mt_insert_ok[OF _ empty_trie_holds this, of "sample_env Map.empty" txn_new empty_rows]
  obtain txn where txn: "hm_ok txn" "rows_hold (sample_env Map.empty) (overlay empty_rows txn) (set ?ks)" by auto
  have e: "hm_ok ?e" "map_of ?e = empty_rows" by (auto simp: hm_ok_def empty_rows_def)
  from commit_writes_rows[OF list_engine_laws e(1) hm_ok_distinct[OF txn(1)]] e(2) txn(2) show ?thesis by auto
qed

theorem merkle_emptied_not_reloadable_witness:
  "\<exists>e t1 t2 txn rs e'. rows_hold (sample_env Map.empty) (map_of e) {[1,2,3,4,5,6], [1,2,3,4,5,7]}
    \<and> mt_delete (env_db (sample_env Map.empty) list_engine (Some (TransactionDb e))) t1 txn_new
        [[1,2,3,4,5,6], [1,2,3,4,5,7]] = Inr (t2, txn, rs)
    \<and> db_commit list_engine (Some (TransactionDb e)) txn = Inr (Some (TransactionDb e'))
    \<and> mt_reload (env_db (sample_env Map.empty) list_engine (Some (TransactionDb e'))) t2 = Inl (Error UnableToReloadRoot)"
proof -
  from two_keys_stored obtain e where e: "hm_ok e"
    "rows_hold (sample_env Map.empty) (map_of e) {[1,2,3,4,5,6], [1,2,3,4,5,7]}" by blast
  from merkle_emptied_not_reloadable[OF list_engine_laws e(1) _ e(2), of "[[1,2,3,4,5,6], [1,2,3,4,5,7]]"] e(2)
  show ?thesis by (simp add: keys_ok_two) blast
qed



text \<open>
  C7: evicting stale nodes from memory never loses a key: when the rows of the database hold the same set
  as the trie, the trie still holds it after the eviction, with the same root hash, whatever nodes are
  stale.
\<close>

theorem merkle_evict:
  assumes "trie_holds (env_at env m) t K" "rows_hold env m K"
  shows "trie_holds (env_at env m) (mt_evict_stale stale t) K
    \<and> mt_root_hash (env_at env m) (mt_evict_stale stale t) = mt_root_hash (env_at env m) t"
  using mt_evict_ok[OF assms, of stale] mt_root_hash_unique[OF _ assms(1) refl] by blast

theorem merkle_evict_witness:
  "\<exists>t m. trie_holds (sample_env m) (mt_evict_stale (\<lambda>_. True) t) {[1,2,3,4,5,6], [1,2,3,4,5,7]}"
proof -
  from two_keys_stored obtain e where e: "rows_hold (sample_env Map.empty) (map_of e) {[1,2,3,4,5,6], [1,2,3,4,5,7]}"
    by blast
  from mt_reload_rows[OF e, of mt_new] obtain t where
    "trie_holds (env_at (sample_env Map.empty) (map_of e)) t {[1,2,3,4,5,6], [1,2,3,4,5,7]}" by blast
  from merkle_evict[OF this e, of "\<lambda>_. True"] show ?thesis by auto
qed

text \<open>
  C12: the error paths of an update. A non-empty batch with a key shorter than six bytes is refused
  whatever the state; otherwise a trie without a root refuses; an empty batch changes nothing.
\<close>

theorem merkle_update_errors:
  "mt_insert env t txn [] = Inr (t, txn, []) \<and> mt_delete env t txn [] = Inr (t, txn, [])
   \<and> ((\<exists>k\<in>set ks. length k < 6) \<longrightarrow> mt_insert env t txn ks = Inl (Error KeyLengthTooShort)
        \<and> mt_delete env t txn ks = Inl (Error KeyLengthTooShort))
   \<and> (ks \<noteq> [] \<and> (\<forall>k\<in>set ks. 6 \<le> length k) \<longrightarrow> mt_insert env mt_new txn ks = Inl (Error TrieNotInitialized)
        \<and> mt_delete env mt_new txn ks = Inl (Error TrieNotInitialized))"
proof -
  have "list_ex (\<lambda>key. length key < UNCOMPACTED_LENGTH) (map expand_nibbles ks) \<longleftrightarrow> (\<exists>k\<in>set ks. length k < 6)"
    by (auto simp: list_ex_iff UNCOMPACTED_LENGTH_def)
  then show ?thesis by (auto simp: mt_insert_def mt_delete_def mt_update_def mt_new_def Let_def dest: leD)
qed

theorem merkle_update_errors_witness:
  "mt_insert (sample_env Map.empty) empty_trie txn_new [[1], [1,2,3,4,5,6]] = Inl (Error KeyLengthTooShort)
   \<and> mt_delete (sample_env Map.empty) mt_new txn_new [[1,2,3,4,5,6]] = Inl (Error TrieNotInitialized)"
  using merkle_update_errors[of "sample_env Map.empty" empty_trie txn_new "[[1], [1,2,3,4,5,6]]"]
    merkle_update_errors[of "sample_env Map.empty" empty_trie txn_new "[[1,2,3,4,5,6]]"]
  by simp

end
