(* ===== verification/Trie_Scenarios.thy ===== *)
theory Trie_Scenarios
  imports Trie_Spec
begin

text \<open>
  Concrete runs of the trie where the code departs from what its callers expect: the row that compaction
  deletes, and the flags an insertion returns.
\<close>


text \<open>
  C9: compaction deletes the row of the wrong path. When the last but one key below a node is removed,
  the child that is folded into the node keeps its row, and the row that is deleted is that of the path
  obtained by prepending the row prefix byte 8 to the child's path.
\<close>

theorem compact_deletes_wrong_row:
  assumes "compact_node env n txn pfx = Inr (n', txn')"
    and "get_or_load_child env n pfx (fst (hd (tn_children n))) = Inr child" "tn_key child = Some key"
  shows "txn' = txn_delete txn (make_primary_key (8 # pfx @ [fst (hd (tn_children n))]) None)
    \<and> map_of txn' (make_primary_key (pfx @ [fst (hd (tn_children n))]) None)
      = map_of txn (make_primary_key (pfx @ [fst (hd (tn_children n))]) None)"
  using assms
  by (auto simp: compact_node_def delete_to_txn_def make_primary_key_def MerkleTrieNode_prefix_def Let_def split: if_splits)

theorem compact_deletes_wrong_row_witness:
  "\<exists>n'. compact_node (sample_env Map.empty) (TrieNode 1 [(2, Node (TrieNode 1 [] [] (Some [1, 2])))] [] None) txn_new [1]
     = Inr (n', txn_delete txn_new (make_primary_key [8, 1, 2] None))"
proof -
  let ?n = "TrieNode 1 [(2, Node (TrieNode 1 [] [] (Some [1, 2])))] [] None"
  have c: "get_or_load_child (sample_env Map.empty) ?n [1] 2 = Inr (TrieNode 1 [] [] (Some [1, 2]))"
    by (simp add: get_or_load_child_def load_child_def)
  then obtain n' txn' where "compact_node (sample_env Map.empty) ?n txn_new [1] = Inr (n', txn')"
    by (simp add: compact_node_def)
  with compact_deletes_wrong_row[OF this] c show ?thesis by simp
qed



end
