(* ===== verification/Storage_Spec.thy ===== *)
theory Storage_Spec
  imports Kv_Store
begin

text \<open>
  What the stores rely on in the key-value layer: prefix scans, pages, bulk deletion, and the tokens that
  resume an iteration.
\<close>

section \<open>Scans\<close>

text \<open>The rows a scan passes to its callback, collected.\<close>

definition scan ::
  "'e engine_ops \<Rightarrow> 'e rocksdb \<Rightarrow> bytes option \<Rightarrow> bytes option \<Rightarrow> page_options \<Rightarrow> (bytes \<times> bytes) list \<times> (hub_error + bool)" where
  "scan ops db start stop po =
     for_each_iterator_by_prefix_paged ops db start stop po (\<lambda>acc k v. (acc @ [(k, v)], Inr False)) []"

lemma foldl_snoc: "foldl (\<lambda>acc (k, v). acc @ [(k, v)]) acc xs = acc @ xs"
  by (induction xs arbitrary: acc) auto

lemma scan_eq:
  "scan ops (Some (TransactionDb e)) start stop po =
     (let io = get_iterator_options start stop po; items = raw_range ops e (lower_bound io) (upper_bound io)
      in (page_rows (page_size po) (if iter_reverse io then rev items else items), Inr True))"
  by (simp add: scan_def for_each_iterator_by_prefix_paged_def iterate_with_opts_def Let_def iterate_items_page foldl_snoc)



text \<open>
  C14: a forward scan resumed with the last key of a page as its token continues right after that key: it
  passes, in order, the first rows with a larger key below the stop bound, as many as the page size (one
  when the page size is zero).
\<close>

theorem page_resumes_after_token:
  assumes "engine_laws ops rows einv" "einv e"
  shows "\<exists>items. hm_ok items \<and> set items = {(k, v). rows e k = Some v \<and> t < k \<and> k < stop}
    \<and> scan ops (Some (TransactionDb e)) start (Some stop) \<lparr>page_size = Some n, page_token = Some t, page_reverse = False\<rparr>
      = (take (max 1 n) items, Inr True)"
proof -
  let ?items = "raw_range ops e (t @ [0]) stop"
  have "hm_ok ?items" "set ?items = {(k, v). rows e k = Some v \<and> t < k \<and> k < stop}"
    using engine_range_ok[OF assms] engine_range[OF assms, of "t @ [0]" stop] by (auto simp: snoc_0_le_iff)
  then show ?thesis by (intro exI[of _ ?items]) (simp add: scan_eq get_iterator_options_def page_rows_def)
qed

theorem page_resumes_after_token_witness:
  "\<exists>items. ([2, 6], [30]) \<in> set items \<and> ([2, 5], [20]) \<notin> set items \<and>
     scan list_engine (Some (TransactionDb [([2, 5], [20]), ([2, 6], [30])])) None (Some [9])
       \<lparr>page_size = Some 1, page_token = Some [2, 5], page_reverse = False\<rparr> = (take (max 1 1) items, Inr True)"
proof -
  have "hm_ok ([([2, 5], [20]), ([2, 6], [30])] :: (bytes \<times> bytes) list)" by (simp add: hm_ok_def)
  from page_resumes_after_token[OF list_engine_laws this, of "[2, 5]" "[9]" None 1]
  show ?thesis by (elim exE conjE) (intro exI conjI; (assumption | simp))
qed

text \<open>
  C15: paginated deletion ends and deletes exactly the rows between its bounds, whatever the page size, and
  reports their number.
\<close>

theorem delete_paginated_complete:
  assumes "engine_laws ops rows einv" "einv e"
    and "length (raw_range ops e lo hi) < fuel" "length (raw_range ops e lo hi) < 2 ^ 32"
  shows "\<exists>e'. delete_paginated fuel ops (Some (TransactionDb e)) (Some lo) (Some hi)
            \<lparr>page_size = limit, page_token = None, page_reverse = r\<rparr> 0
         = Some (Inr (word_of_nat (length (raw_range ops e lo hi)), Some (TransactionDb e')))
       \<and> rows e' = (\<lambda>k. if lo \<le> k \<and> k < hi then None else rows e k)"
proof -
  let ?po = "\<lparr>page_size = limit, page_token = None, page_reverse = r\<rparr>"
  have "lower_bound (get_iterator_options (Some lo) (Some hi) ?po) = lo"
    "upper_bound (get_iterator_options (Some lo) (Some hi) ?po) = hi"
    by (simp_all add: get_iterator_options_def)
  from delete_paginated_rows[OF assms(1,2) refl, of "Some lo" "Some hi" ?po fuel 0, unfolded this, OF assms(3,4)]
  show ?thesis by (elim exE conjE) (intro exI conjI, simp, assumption)
qed

theorem delete_paginated_complete_witness:
  "\<exists>e'. delete_paginated 3 list_engine (Some (TransactionDb [([1], [10]), ([2, 5], [20]), ([2, 6], [30])]))
        (Some [2]) (Some [3]) \<lparr>page_size = Some 1, page_token = None, page_reverse = False\<rparr> 0
     = Some (Inr (2, Some (TransactionDb e'))) \<and> map_of e' [1] = Some [10] \<and> map_of e' [2, 5] = None"
proof -
  let ?e = "[([1], [10]), ([2, 5], [20]), ([2, 6], [30])] :: (bytes \<times> bytes) list"
  have "hm_ok ?e" "raw_range list_engine ?e [2] [3] = [([2, 5], [20]), ([2, 6], [30])]"
    by (simp_all add: hm_ok_def list_engine_def)
  with delete_paginated_complete[OF list_engine_laws this(1), of "[2]" "[3]" 3 "Some 1" False]
  show ?thesis by fastforce
qed

section \<open>Page tokens of the trie iterator\<close>

text \<open>
  C16: an iteration token survives the trip through its textual form: the segments are length-prefixed and
  read back exactly, for any base64 codec that decodes what it encodes and encodes nothing as the empty
  string.
\<close>

theorem page_token_round_trip:
  assumes "\<forall>x. unb64 (b64 x) = Inr x" "\<forall>x. x \<noteq> [] \<longrightarrow> b64 x \<noteq> []"
    and "length parts < 2 ^ 32" "\<forall>p\<in>set parts. length p < 2 ^ 32"
  shows "decode_trie_page_token unb64 (encode_trie_page_token b64 (Some parts))
    = Inr (if parts = [] then None else Some parts)"
proof (cases "parts = []")
  case False
  let ?n = "u32_to_be (of_nat (length parts))"
  have n: "unat (of_nat (length parts) :: u32) = length parts" using assms(3) by (simp add: unat_of_nat)
  have "length ?n = 4" by simp
  then have "?n @ encode_parts parts \<noteq> []" by (metis append_is_Nil_conv list.size(3) zero_neq_numeral)
  then have ne: "b64 (?n @ encode_parts parts) \<noteq> []" using assms(2) by blast
  from decode_loop_encode_parts[OF assms(4), of ?n "[]"]
  have "decode_loop (length parts) (?n @ encode_parts parts) 4 [] = Inr (parts, length (?n @ encode_parts parts))" by simp
  with ne False show ?thesis by (simp add: decode_trie_page_token_def encode_trie_page_token_def assms(1) n)
qed (simp add: decode_trie_page_token_def encode_trie_page_token_def)

theorem page_token_round_trip_witness:
  "decode_trie_page_token (\<lambda>s. Inr (map (\<lambda>c. of_nat (of_char c)) s))
     (encode_trie_page_token (map (\<lambda>b. char_of (unat b))) (Some [[1, 2], [], [3]])) = Inr (Some [[1, 2], [], [3]])"
proof -
  have "map (\<lambda>c. of_nat (of_char c :: nat)) (map (\<lambda>b. char_of (unat b) :: char) x) = (x :: bytes)" for x
    using unat_byte_less by (induction x) auto
  then show ?thesis
    using page_token_round_trip[of "\<lambda>s. Inr (map (\<lambda>c. of_nat (of_char c)) s)" "map (\<lambda>b. char_of (unat b))" "[[1, 2], [], [3]]"]
    by simp
qed

end
