(* ===== verification/Fallible.thy ===== *)
theory Fallible
  imports Kv_Store
begin

text \<open>
  Results of code that may fail with a \<open>HubError\<close> or panic, and code that also changes a state. A failure
  keeps the state changes made before it, as the mutable batch of the program does.
\<close>

datatype failure = HubFailure hub_error | Panic

type_synonym 'a res = "failure + 'a"
type_synonym ('s, 'e, 'a) stateful = "'s \<Rightarrow> ('e + 'a) \<times> 's"
type_synonym ('s, 'a) action = "('s, failure, 'a) stateful"

definition hub_err :: "string \<Rightarrow> string \<Rightarrow> 'a res" where
  "hub_err code msg = Inl (HubFailure \<lparr>he_code = code, he_message = msg\<rparr>)"

definition from_hub :: "hub_error + 'a \<Rightarrow> 'a res" where
  "from_hub r = map_err HubFailure r"

definition unwrap :: "'a option \<Rightarrow> 'a res" where
  "unwrap x = (case x of None \<Rightarrow> Inl Panic | Some y \<Rightarrow> Inr y)"

fun bind_res :: "'a res \<Rightarrow> ('a \<Rightarrow> 'b res) \<Rightarrow> 'b res" where
  "bind_res (Inl e) f = Inl e"
| "bind_res (Inr x) f = f x"

definition return_st :: "'a \<Rightarrow> ('s, 'e, 'a) stateful" where
  "return_st x s = (Inr x, s)"

definition lift_res :: "'e + 'a \<Rightarrow> ('s, 'e, 'a) stateful" where
  "lift_res r s = (r, s)"

definition bind_st :: "('s, 'e, 'a) stateful \<Rightarrow> ('a \<Rightarrow> ('s, 'e, 'b) stateful) \<Rightarrow> ('s, 'e, 'b) stateful" where
  "bind_st f g s = (case f s of (Inl e, s') \<Rightarrow> (Inl e, s') | (Inr x, s') \<Rightarrow> g x s')"

definition modify_st :: "('s \<Rightarrow> 's) \<Rightarrow> ('s, 'e, unit) stateful" where
  "modify_st f s = (Inr (), f s)"

definition get_st :: "('s, 'e, 's) stateful" where
  "get_st s = (Inr s, s)"

fun each_st :: "('a \<Rightarrow> ('s, 'e, unit) stateful) \<Rightarrow> 'a list \<Rightarrow> ('s, 'e, unit) stateful" where
  "each_st f [] = return_st ()"
| "each_st f (x # xs) = bind_st (f x) (\<lambda>_. each_st f xs)"

text \<open>An action on a part of a larger state.\<close>

definition on_part :: "('t \<Rightarrow> 's) \<Rightarrow> ('s \<Rightarrow> 't \<Rightarrow> 't) \<Rightarrow> ('s, 'e, 'a) stateful \<Rightarrow> ('t, 'e, 'a) stateful" where
  "on_part get put f t = (case f (get t) of (r, s') \<Rightarrow> (r, put s' t))"

lemma from_hub_simps [simp]: "from_hub (Inl e) = Inl (HubFailure e)" "from_hub (Inr x) = Inr x"
  by (simp_all add: from_hub_def)

lemma unwrap_simps [simp]: "unwrap None = Inl Panic" "unwrap (Some x) = Inr x"
  by (simp_all add: unwrap_def)

lemma unwrap_eq_Inr [simp]: "unwrap x = Inr y \<longleftrightarrow> x = Some y"
  by (cases x) auto

lemma bind_res_eq_Inr: "bind_res r f = Inr y \<longleftrightarrow> (\<exists>x. r = Inr x \<and> f x = Inr y)"
  by (cases r) auto

lemma st_simps [simp]:
  "return_st x s = (Inr x, s)" "lift_res r s = (r, s)" "modify_st f s = (Inr (), f s)" "get_st s = (Inr s, s)"
  by (simp_all add: return_st_def lift_res_def modify_st_def get_st_def)

lemma bind_st_ok: "f s = (Inr x, s') \<Longrightarrow> bind_st f g s = g x s'"
  by (simp add: bind_st_def)

lemma bind_st_err: "f s = (Inl e, s') \<Longrightarrow> bind_st f g s = (Inl e, s')"
  by (simp add: bind_st_def)

lemma bind_st_lift [simp]:
  "bind_st (lift_res (Inr x)) g s = g x s" "bind_st (lift_res (Inl e)) g s = (Inl e, s)"
  "bind_st (return_st x) g s = g x s" "bind_st (modify_st f) h s = h () (f s)" "bind_st get_st k s = k s s"
  by (simp_all add: bind_st_def)

lemma bind_st_Inr:
  "bind_st f g s = (Inr y, t) \<longleftrightarrow> (\<exists>x s'. f s = (Inr x, s') \<and> g x s' = (Inr y, t))"
  by (auto simp: bind_st_def split: prod.splits sum.splits)

lemma on_part_simp: "f (get t) = (r, s') \<Longrightarrow> on_part get put f t = (r, put s' t)"
  by (simp add: on_part_def)

section \<open>Text of error messages\<close>

text \<open>Decimal digits, as \<open>{}\<close> prints an unsigned integer.\<close>

fun decimal :: "nat \<Rightarrow> string" where
  "decimal n = (if n < 10 then [char_of (48 + n)] else decimal (n div 10) @ [char_of (48 + n mod 10)])"

declare decimal.simps [simp del]

definition hex_digit :: "nat \<Rightarrow> char" where
  "hex_digit n = (if n < 10 then char_of (48 + n) else char_of (87 + n))"

definition hex_byte :: "u8 \<Rightarrow> string" where
  "hex_byte b = (if unat b < 16 then [hex_digit (unat b)] else [hex_digit (unat b div 16), hex_digit (unat b mod 16)])"

fun join_with :: "string \<Rightarrow> string list \<Rightarrow> string" where
  "join_with sep [] = []"
| "join_with sep [x] = x"
| "join_with sep (x # xs) = x @ sep @ join_with sep xs"

text \<open>A byte vector printed with \<open>{:?}\<close> and with \<open>{:x?}\<close>.\<close>

definition debug_bytes :: "bytes \<Rightarrow> string" where
  "debug_bytes bs = ''['' @ join_with '', '' (map (\<lambda>b. decimal (unat b)) bs) @ '']''"

definition debug_hex_bytes :: "bytes \<Rightarrow> string" where
  "debug_hex_bytes bs = ''['' @ join_with '', '' (map hex_byte bs) @ '']''"

end
