(* ===== verification/Messages.thy ===== *)
theory Messages
  imports Fallible
begin

text \<open>
  The protobuf messages of \<open>proto/definitions\<close> that the stores handle, field by field. A \<open>oneof\<close> is an
  optional value of a datatype, an enum field the integer prost keeps for it, a Rust \<open>String\<close> its UTF-8
  bytes. The binary codec (prost) is a parameter.
\<close>

type_synonym i32 = int
type_synonym utf8 = bytes

section \<open>message.proto\<close>

record cast_id =
  ci_fid :: u64
  ci_hash :: bytes

datatype embed = EmbedUrl utf8 | EmbedCastId cast_id

datatype cast_parent = ParentCastId cast_id | ParentUrl utf8

record cast_add_body =
  ca_embeds_deprecated :: "utf8 list"
  ca_mentions :: "u64 list"
  ca_parent :: "cast_parent option"
  ca_text :: utf8
  ca_mentions_positions :: "u32 list"
  ca_embeds :: "embed option list"
  ca_type :: i32

datatype reaction_target = TargetCastId cast_id | TargetUrl utf8

record reaction_body =
  rb_type :: i32
  rb_target :: "reaction_target option"

record verification_add_address_body =
  va_address :: bytes
  va_claim_signature :: bytes
  va_block_hash :: bytes
  va_verification_type :: u32
  va_chain_id :: u32
  va_protocol :: i32

record verification_remove_body =
  vr_address :: bytes
  vr_protocol :: i32

record user_data_body =
  ud_type :: i32
  ud_value :: utf8

record link_body =
  lb_type :: utf8
  lb_display_timestamp :: "u32 option"
  lb_target :: "u64 option"

record link_compact_state_body =
  lc_type :: utf8
  lc_target_fids :: "u64 list"

record frame_action_body =
  fa_url :: bytes
  fa_button_index :: u32
  fa_cast_id :: "cast_id option"
  fa_input_text :: bytes
  fa_state :: bytes
  fa_transaction_id :: bytes
  fa_address :: bytes

record lend_storage_body =
  ls_to_fid :: u64
  ls_num_units :: u64
  ls_unit_type :: i32

record key_add_body =
  ka_key :: bytes
  ka_key_type :: u32
  ka_custody_signature :: bytes
  ka_deadline :: u32
  ka_nonce :: u32
  ka_metadata :: bytes
  ka_metadata_type :: u32
  ka_registration_tx_hash :: bytes
  ka_scopes :: "i32 list"
  ka_ttl :: u32

record key_remove_body =
  kr_key :: bytes
  kr_signature :: bytes
  kr_signature_type :: u32
  kr_deadline :: u32
  kr_nonce :: u32

record user_name_proof =
  up_timestamp :: u64
  up_name :: bytes
  up_owner :: bytes
  up_signature :: bytes
  up_fid :: u64
  up_type :: i32

datatype message_body =
    CastAddBody cast_add_body
  | CastRemoveBody (cr_target_hash: bytes)
  | ReactionBody reaction_body
  | VerificationAddAddressBody verification_add_address_body
  | VerificationRemoveBody verification_remove_body
  | UserDataBody user_data_body
  | LinkBody link_body
  | UsernameProofBody user_name_proof
  | FrameActionBody frame_action_body
  | LinkCompactStateBody link_compact_state_body
  | LendStorageBody lend_storage_body
  | KeyAddBody key_add_body
  | KeyRemoveBody key_remove_body

record message_data =
  md_type :: i32
  md_fid :: u64
  md_timestamp :: u32
  md_network :: i32
  md_body :: "message_body option"

record message =
  m_data :: "message_data option"
  m_hash :: bytes
  m_hash_scheme :: i32
  m_signature :: bytes
  m_signature_scheme :: i32
  m_signer :: bytes
  m_data_bytes :: "bytes option"

definition default_data :: message_data where
  "default_data = \<lparr>md_type = 0, md_fid = 0, md_timestamp = 0, md_network = 0, md_body = None\<rparr>"

definition default_message :: message where
  "default_message = \<lparr>m_data = None, m_hash = [], m_hash_scheme = 0, m_signature = [], m_signature_scheme = 0,
     m_signer = [], m_data_bytes = None\<rparr>"

datatype message_type =
    MessageType_None | CastAdd | CastRemove | ReactionAdd | ReactionRemove | LinkAdd | LinkRemove
  | VerificationAddEthAddress | VerificationRemove | UserDataAdd | UsernameProof | FrameAction
  | LinkCompactState | LendStorage | KeyAdd | KeyRemove

fun message_type_num :: "message_type \<Rightarrow> nat" where
  "message_type_num MessageType_None = 0"
| "message_type_num CastAdd = 1"
| "message_type_num CastRemove = 2"
| "message_type_num ReactionAdd = 3"
| "message_type_num ReactionRemove = 4"
| "message_type_num LinkAdd = 5"
| "message_type_num LinkRemove = 6"
| "message_type_num VerificationAddEthAddress = 7"
| "message_type_num VerificationRemove = 8"
| "message_type_num UserDataAdd = 11"
| "message_type_num UsernameProof = 12"
| "message_type_num FrameAction = 13"
| "message_type_num LinkCompactState = 14"
| "message_type_num LendStorage = 15"
| "message_type_num KeyAdd = 16"
| "message_type_num KeyRemove = 17"

definition message_types :: "message_type list" where
  "message_types = [MessageType_None, CastAdd, CastRemove, ReactionAdd, ReactionRemove, LinkAdd, LinkRemove,
     VerificationAddEthAddress, VerificationRemove, UserDataAdd, UsernameProof, FrameAction, LinkCompactState,
     LendStorage, KeyAdd, KeyRemove]"

text \<open>\<open>MessageType::try_from\<close>, and the casts of an enum value.\<close>

definition try_message_type :: "i32 \<Rightarrow> message_type option" where
  "try_message_type n = find (\<lambda>t. int (message_type_num t) = n) message_types"

definition message_type_u8 :: "message_type \<Rightarrow> u8" where
  "message_type_u8 t = of_nat (message_type_num t)"

definition message_type_i32 :: "message_type \<Rightarrow> i32" where
  "message_type_i32 t = int (message_type_num t)"

definition SignatureScheme_Ed25519 :: i32 where
  "SignatureScheme_Ed25519 = 1"

definition SignatureScheme_Eip712 :: i32 where
  "SignatureScheme_Eip712 = 2"

definition Protocol_Ethereum :: i32 where
  "Protocol_Ethereum = 0"

definition Protocol_Solana :: i32 where
  "Protocol_Solana = 1"

lemma try_message_type_i32 [simp]: "try_message_type (message_type_i32 t) = Some t"
  by (cases t) (simp_all add: try_message_type_def message_types_def message_type_i32_def)

lemma message_type_i32_inject [simp]: "message_type_i32 t = message_type_i32 t' \<longleftrightarrow> t = t'"
  by (metis option.inject try_message_type_i32)

lemma message_type_u8_of_i32 [simp]: "word_of_int (message_type_i32 t) = message_type_u8 t"
  by (simp add: message_type_i32_def message_type_u8_def)

lemma message_type_u8_inject [simp]: "message_type_u8 t = message_type_u8 t' \<longleftrightarrow> t = t'"
  by (cases t; cases t') (simp_all add: message_type_u8_def)

section \<open>onchain_event.proto\<close>

record signer_event_body =
  se_key :: bytes
  se_key_type :: u32
  se_event_type :: i32
  se_metadata :: bytes
  se_metadata_type :: u32

record id_register_event_body =
  ir_to :: bytes
  ir_event_type :: i32
  ir_from :: bytes
  ir_recovery_address :: bytes

record storage_rent_event_body =
  sr_payer :: bytes
  sr_units :: u32
  sr_expiry :: u32

record tier_purchase_body =
  tp_tier_type :: i32
  tp_for_days :: u64
  tp_payer :: bytes

datatype onchain_event_body =
    SignerEventBody signer_event_body
  | SignerMigratedEventBody u32
  | IdRegisterEventBody id_register_event_body
  | StorageRentEventBody storage_rent_event_body
  | TierPurchaseEventBody tier_purchase_body

record onchain_event =
  oe_type :: i32
  oe_chain_id :: u32
  oe_block_number :: u32
  oe_block_hash :: bytes
  oe_block_timestamp :: u64
  oe_transaction_hash :: bytes
  oe_log_index :: u32
  oe_fid :: u64
  oe_body :: "onchain_event_body option"
  oe_tx_index :: u32
  oe_version :: u32

section \<open>hub_event.proto\<close>

datatype hub_event_type =
    HubEventType_None | MergeMessage | PruneMessage | RevokeMessage | MergeUsernameProof | MergeOnChainEvent
  | MergeFailure | BlockConfirmed

record block_confirmed_body =
  bc_block_number :: u64
  bc_shard_index :: u32
  bc_timestamp :: u64
  bc_block_hash :: bytes
  bc_total_events :: u64
  bc_event_counts_by_type :: "(i32 \<times> u64) list"
  bc_max_block_event_seqnum :: u64

datatype hub_event_body =
    MergeMessageBody (mm_message: "message option") (mm_deleted_messages: "message list")
  | PruneMessageBody (pm_message: "message option")
  | RevokeMessageBody (rm_message: "message option")
  | MergeUsernameProofBody (mu_username_proof: "user_name_proof option")
      (mu_deleted_username_proof: "user_name_proof option") (mu_username_proof_message: "message option")
      (mu_deleted_username_proof_message: "message option")
  | MergeOnChainEventBody (mo_on_chain_event: "onchain_event option")
  | MergeFailureBody (mf_message: "message option") (mf_code: utf8) (mf_reason: utf8)
  | BlockConfirmedBody block_confirmed_body

record hub_event =
  ev_type :: hub_event_type
  ev_id :: u64
  ev_body :: "hub_event_body option"
  ev_block_number :: u64
  ev_shard_index :: u32
  ev_timestamp :: u64

text \<open>\<open>HubEvent::new_event\<close>.\<close>

definition new_event :: "hub_event_type \<Rightarrow> hub_event_body \<Rightarrow> hub_event" where
  "new_event event_type body = \<lparr>ev_type = event_type, ev_id = 0, ev_body = Some body, ev_block_number = 0,
     ev_shard_index = 0, ev_timestamp = 0\<rparr>"

section \<open>The codec\<close>

record proto_codec =
  enc_message :: "message \<Rightarrow> bytes"
  dec_message :: "bytes \<Rightarrow> message option"
  enc_message_data :: "message_data \<Rightarrow> bytes"
  dec_message_data :: "bytes \<Rightarrow> message_data option"
  enc_hub_event :: "hub_event \<Rightarrow> bytes"
  dec_hub_event :: "bytes \<Rightarrow> string + hub_event"
  enc_user_name_proof :: "user_name_proof \<Rightarrow> bytes"
  dec_user_name_proof :: "bytes \<Rightarrow> user_name_proof option"
  enc_onchain_event :: "onchain_event \<Rightarrow> bytes"
  dec_onchain_event :: "bytes \<Rightarrow> string + onchain_event"

text \<open>A decoding failure carries the text prost gives; where the code drops the text, so does the model.\<close>

definition hub_error_from_decode :: "string \<Rightarrow> hub_error" where
  "hub_error_from_decode e = \<lparr>he_code = ''bad_request.decode_error'', he_message = e\<rparr>"

text \<open>What prost documents: decoding an encoding gives the value back.\<close>

definition proto_ok :: "proto_codec \<Rightarrow> bool" where
  "proto_ok pc \<longleftrightarrow> (\<forall>m. dec_message pc (enc_message pc m) = Some m)
     \<and> (\<forall>d. dec_message_data pc (enc_message_data pc d) = Some d)
     \<and> (\<forall>e. dec_hub_event pc (enc_hub_event pc e) = Inr e)
     \<and> (\<forall>p. dec_user_name_proof pc (enc_user_name_proof pc p) = Some p)
     \<and> (\<forall>e. dec_onchain_event pc (enc_onchain_event pc e) = Inr e)"

lemma proto_okD [simp]:
  assumes "proto_ok pc"
  shows "dec_message pc (enc_message pc m) = Some m" "dec_message_data pc (enc_message_data pc d) = Some d"
    "dec_hub_event pc (enc_hub_event pc e) = Inr e" "dec_user_name_proof pc (enc_user_name_proof pc p) = Some p"
    "dec_onchain_event pc (enc_onchain_event pc oe) = Inr oe"
  using assms by (simp_all add: proto_ok_def)

end
