(* ===== verification/Keys.thy ===== *)
theory Keys
  imports Messages
begin

text \<open>
  The key space of the database: \<open>src/storage/constants.rs\<close>, the state context of \<open>src/hyper/mod.rs\<close>, and
  the key and message helpers of \<open>src/storage/store/account/message.rs\<close>.
\<close>

section \<open>Prefixes\<close>

datatype root_prefix =
    Rp_Block | Rp_Shard | Rp_User | Rp_CastsByParent | Rp_CastsByMention | Rp_LinksByTarget | Rp_ReactionsByTarget
  | Rp_MerkleTrieNode | Rp_HubEvents | Rp_FNameUserNameProof | Rp_OnChainEvent | Rp_DBSchemaVersion
  | Rp_VerificationByAddress | Rp_FNameUserNameProofByFid | Rp_UserNameProofByName | Rp_NodeLocalState
  | Rp_BlockIndex | Rp_BlockEvent | Rp_MerkleTrieMetadata | Rp_ReplicationBootstrapStatus
  | Rp_LendStorageByRecipient | Rp_GaslessKey | Rp_HyperUser | Rp_HyperCastsByParent | Rp_HyperCastsByMention
  | Rp_HyperLinksByTarget | Rp_HyperReactionsByTarget | Rp_HyperVerificationByAddress
  | Rp_HyperUserNameProofByName | Rp_HyperLendStorageByRecipient

fun rp_u8 :: "root_prefix \<Rightarrow> u8" where
  "rp_u8 Rp_Block = 1"
| "rp_u8 Rp_Shard = 2"
| "rp_u8 Rp_User = 3"
| "rp_u8 Rp_CastsByParent = 4"
| "rp_u8 Rp_CastsByMention = 5"
| "rp_u8 Rp_LinksByTarget = 6"
| "rp_u8 Rp_ReactionsByTarget = 7"
| "rp_u8 Rp_MerkleTrieNode = 8"
| "rp_u8 Rp_HubEvents = 9"
| "rp_u8 Rp_FNameUserNameProof = 11"
| "rp_u8 Rp_OnChainEvent = 12"
| "rp_u8 Rp_DBSchemaVersion = 13"
| "rp_u8 Rp_VerificationByAddress = 14"
| "rp_u8 Rp_FNameUserNameProofByFid = 15"
| "rp_u8 Rp_UserNameProofByName = 16"
| "rp_u8 Rp_NodeLocalState = 17"
| "rp_u8 Rp_BlockIndex = 18"
| "rp_u8 Rp_BlockEvent = 19"
| "rp_u8 Rp_MerkleTrieMetadata = 20"
| "rp_u8 Rp_ReplicationBootstrapStatus = 21"
| "rp_u8 Rp_LendStorageByRecipient = 22"
| "rp_u8 Rp_GaslessKey = 23"
| "rp_u8 Rp_HyperUser = 30"
| "rp_u8 Rp_HyperCastsByParent = 31"
| "rp_u8 Rp_HyperCastsByMention = 32"
| "rp_u8 Rp_HyperLinksByTarget = 33"
| "rp_u8 Rp_HyperReactionsByTarget = 34"
| "rp_u8 Rp_HyperVerificationByAddress = 35"
| "rp_u8 Rp_HyperUserNameProofByName = 36"
| "rp_u8 Rp_HyperLendStorageByRecipient = 37"

datatype user_postfix =
    CastMessage | LinkMessage | ReactionMessage | VerificationMessage | UserDataMessage | UsernameProofMessage
  | LendStorageMessage | CastAdds | CastRemoves | LinkAdds | LinkRemoves | ReactionAdds | ReactionRemoves
  | VerificationAdds | VerificationRemoves | UserDataAdds | UserNameProofAdds | LinkCompactStateMessage
  | LendStorages | GaslessKeyUserNonce | GaslessKeyAppNonce | GaslessKeyLastUsedAt | GaslessKeyByFid
  | GaslessKeyByPublicKey | GaslessKeyCountByFid

fun postfix_u8 :: "user_postfix \<Rightarrow> u8" where
  "postfix_u8 CastMessage = 1"
| "postfix_u8 LinkMessage = 2"
| "postfix_u8 ReactionMessage = 3"
| "postfix_u8 VerificationMessage = 4"
| "postfix_u8 UserDataMessage = 6"
| "postfix_u8 UsernameProofMessage = 7"
| "postfix_u8 LendStorageMessage = 8"
| "postfix_u8 CastAdds = 87"
| "postfix_u8 CastRemoves = 88"
| "postfix_u8 LinkAdds = 89"
| "postfix_u8 LinkRemoves = 90"
| "postfix_u8 ReactionAdds = 91"
| "postfix_u8 ReactionRemoves = 92"
| "postfix_u8 VerificationAdds = 93"
| "postfix_u8 VerificationRemoves = 94"
| "postfix_u8 UserDataAdds = 97"
| "postfix_u8 UserNameProofAdds = 99"
| "postfix_u8 LinkCompactStateMessage = 100"
| "postfix_u8 LendStorages = 101"
| "postfix_u8 GaslessKeyUserNonce = 102"
| "postfix_u8 GaslessKeyAppNonce = 103"
| "postfix_u8 GaslessKeyLastUsedAt = 104"
| "postfix_u8 GaslessKeyByFid = 105"
| "postfix_u8 GaslessKeyByPublicKey = 106"
| "postfix_u8 GaslessKeyCountByFid = 107"

datatype state_context = Legacy | Hyper

definition allows_pruning :: "state_context \<Rightarrow> bool" where
  "allows_pruning ctx = (ctx = Legacy)"

definition is_hyper :: "state_context \<Rightarrow> bool" where
  "is_hyper ctx = (ctx = Hyper)"

definition ctx_root_prefix :: "state_context \<Rightarrow> root_prefix \<Rightarrow> u8" where
  "ctx_root_prefix ctx p =
     (if is_hyper ctx then
        (case p of
           Rp_User \<Rightarrow> rp_u8 Rp_HyperUser
         | Rp_CastsByParent \<Rightarrow> rp_u8 Rp_HyperCastsByParent
         | Rp_CastsByMention \<Rightarrow> rp_u8 Rp_HyperCastsByMention
         | Rp_LinksByTarget \<Rightarrow> rp_u8 Rp_HyperLinksByTarget
         | Rp_ReactionsByTarget \<Rightarrow> rp_u8 Rp_HyperReactionsByTarget
         | Rp_VerificationByAddress \<Rightarrow> rp_u8 Rp_HyperVerificationByAddress
         | Rp_UserNameProofByName \<Rightarrow> rp_u8 Rp_HyperUserNameProofByName
         | Rp_LendStorageByRecipient \<Rightarrow> rp_u8 Rp_HyperLendStorageByRecipient
         | _ \<Rightarrow> rp_u8 p)
      else rp_u8 p)"

section \<open>Keys\<close>

definition FID_BYTES :: nat where
  "FID_BYTES = 4"

definition TS_HASH_LENGTH :: nat where
  "TS_HASH_LENGTH = 24"

definition HASH_LENGTH :: nat where
  "HASH_LENGTH = 20"

definition TRUE_VALUE :: u8 where
  "TRUE_VALUE = 1"

definition PAGE_SIZE_MAX :: nat where
  "PAGE_SIZE_MAX = 10000"

fun type_to_set_postfix :: "message_type \<Rightarrow> user_postfix res" where
  "type_to_set_postfix CastAdd = Inr CastMessage"
| "type_to_set_postfix CastRemove = Inr CastMessage"
| "type_to_set_postfix ReactionAdd = Inr ReactionMessage"
| "type_to_set_postfix ReactionRemove = Inr ReactionMessage"
| "type_to_set_postfix VerificationAddEthAddress = Inr VerificationMessage"
| "type_to_set_postfix VerificationRemove = Inr VerificationMessage"
| "type_to_set_postfix UserDataAdd = Inr UserDataMessage"
| "type_to_set_postfix LinkAdd = Inr LinkMessage"
| "type_to_set_postfix LinkRemove = Inr LinkMessage"
| "type_to_set_postfix UsernameProof = Inr UsernameProofMessage"
| "type_to_set_postfix LendStorage = Inr LendStorageMessage"
| "type_to_set_postfix MessageType_None =
     hub_err ''internal_error'' ''unable to convert message type to set postfix: MESSAGE_TYPE_NONE''"
| "type_to_set_postfix FrameAction =
     hub_err ''internal_error'' ''unable to convert message type to set postfix: MESSAGE_TYPE_FRAME_ACTION''"
| "type_to_set_postfix LinkCompactState =
     hub_err ''internal_error'' ''unable to convert message type to set postfix: MESSAGE_TYPE_LINK_COMPACT_STATE''"
| "type_to_set_postfix KeyAdd =
     hub_err ''internal_error'' ''unable to convert message type to set postfix: MESSAGE_TYPE_KEY_ADD''"
| "type_to_set_postfix KeyRemove =
     hub_err ''internal_error'' ''unable to convert message type to set postfix: MESSAGE_TYPE_KEY_REMOVE''"

definition make_ts_hash :: "u32 \<Rightarrow> bytes \<Rightarrow> bytes res" where
  "make_ts_hash timestamp hash =
     (if length hash \<noteq> HASH_LENGTH then hub_err ''internal_error'' ''hash length is not 20''
      else Inr (u32_to_be timestamp @ hash))"

definition unpack_ts_hash :: "bytes \<Rightarrow> u32 \<times> bytes" where
  "unpack_ts_hash ts_hash = (u32_from_be (take 4 ts_hash), take 20 (drop 4 ts_hash))"

text \<open>The fid is cut to 32 bits.\<close>

definition make_fid_key :: "u64 \<Rightarrow> bytes" where
  "make_fid_key fid = u32_to_be (ucast fid)"

lemma length_make_fid_key [simp]: "length (make_fid_key fid) = 4"
  by (simp add: make_fid_key_def)

definition read_fid_key :: "bytes \<Rightarrow> nat \<Rightarrow> u64 res" where
  "read_fid_key key offset =
     (if offset + FID_BYTES \<le> length key then Inr (ucast (u32_from_be (take FID_BYTES (drop offset key)))) else Inl Panic)"

definition read_ts_hash :: "bytes \<Rightarrow> nat \<Rightarrow> bytes res" where
  "read_ts_hash key offset =
     (if offset + TS_HASH_LENGTH \<le> length key then Inr (take TS_HASH_LENGTH (drop offset key)) else Inl Panic)"

definition make_user_key_with_prefix :: "u8 \<Rightarrow> u64 \<Rightarrow> bytes" where
  "make_user_key_with_prefix root fid = root # make_fid_key fid"

definition make_user_key :: "u64 \<Rightarrow> bytes" where
  "make_user_key fid = make_user_key_with_prefix (rp_u8 Rp_User) fid"

definition make_message_primary_key_with_prefix :: "u8 \<Rightarrow> u64 \<Rightarrow> u8 \<Rightarrow> bytes option \<Rightarrow> bytes" where
  "make_message_primary_key_with_prefix root fid set_postfix ts_hash =
     make_user_key_with_prefix root fid @ [set_postfix] @ (case ts_hash of Some h \<Rightarrow> h | None \<Rightarrow> [])"

definition make_message_primary_key :: "u64 \<Rightarrow> u8 \<Rightarrow> bytes option \<Rightarrow> bytes" where
  "make_message_primary_key fid set_postfix ts_hash =
     make_message_primary_key_with_prefix (rp_u8 Rp_User) fid set_postfix ts_hash"

definition make_cast_id_key :: "cast_id \<Rightarrow> bytes" where
  "make_cast_id_key cid = make_fid_key (ci_fid cid) @ ci_hash cid"

text \<open>\<open>vec_to_u8_24\<close> of \<open>storage/util.rs\<close>.\<close>

definition vec_to_u8_24 :: "bytes option \<Rightarrow> bytes res" where
  "vec_to_u8_24 v =
     (case v of
        Some x \<Rightarrow> if length x = 24 then Inr x
                  else hub_err ''bad_request.internal_error'' (''message_ts_hash is not 24 bytes: '' @ debug_hex_bytes x)
      | None \<Rightarrow> hub_err ''bad_request.internal_error'' ''message_ts_hash is not 24 bytes: None'')"

section \<open>Stored messages\<close>

definition message_encode :: "proto_codec \<Rightarrow> message \<Rightarrow> bytes" where
  "message_encode pc m =
     (case m_data_bytes m of
        Some db \<Rightarrow> if length db > 0 then enc_message pc (m\<lparr>m_data := None\<rparr>) else enc_message pc m
      | None \<Rightarrow> enc_message pc m)"

definition message_bytes_decode :: "proto_codec \<Rightarrow> message \<Rightarrow> message" where
  "message_bytes_decode pc m =
     (case m_data_bytes m of
        Some db \<Rightarrow> if length db > 0 then m\<lparr>m_data := dec_message_data pc db\<rparr> else m
      | None \<Rightarrow> m)"

definition message_decode :: "proto_codec \<Rightarrow> bytes \<Rightarrow> rocksdb_error + message" where
  "message_decode pc bs =
     (case dec_message pc bs of Some m \<Rightarrow> Inr (message_bytes_decode pc m) | None \<Rightarrow> Inl DecodeError)"

definition message_decode_res :: "proto_codec \<Rightarrow> bytes \<Rightarrow> message res" where
  "message_decode_res pc bs = from_hub (map_err hub_error_from_rocksdb (message_decode pc bs))"

definition get_message_by_key :: "proto_codec \<Rightarrow> db_read \<Rightarrow> txn_batch \<Rightarrow> bytes \<Rightarrow> message option res" where
  "get_message_by_key pc rd txn key =
     bind_res (from_hub (get_from_db_or_txn rd txn key)) (\<lambda>v. case v of
        None \<Rightarrow> Inr None
      | Some bs \<Rightarrow> bind_res (message_decode_res pc bs) (\<lambda>m. Inr (Some m)))"

definition get_message_with_prefix ::
  "proto_codec \<Rightarrow> db_read \<Rightarrow> txn_batch \<Rightarrow> u8 \<Rightarrow> u64 \<Rightarrow> u8 \<Rightarrow> bytes \<Rightarrow> message option res" where
  "get_message_with_prefix pc rd txn root fid set_postfix ts_hash =
     get_message_by_key pc rd txn (make_message_primary_key_with_prefix root fid set_postfix (Some ts_hash))"

definition get_message :: "proto_codec \<Rightarrow> db_read \<Rightarrow> txn_batch \<Rightarrow> u64 \<Rightarrow> u8 \<Rightarrow> bytes \<Rightarrow> message option res" where
  "get_message pc rd txn fid set_postfix ts_hash =
     get_message_with_prefix pc rd txn (rp_u8 Rp_User) fid set_postfix ts_hash"

fun get_many_messages :: "proto_codec \<Rightarrow> db_read \<Rightarrow> bytes list \<Rightarrow> message list res" where
  "get_many_messages pc rd [] = Inr []"
| "get_many_messages pc rd (key # keys) =
     (case rd key of
        Inr (Some v) \<Rightarrow>
          bind_res (message_decode_res pc v) (\<lambda>m. bind_res (get_many_messages pc rd keys) (\<lambda>ms. Inr (m # ms)))
      | _ \<Rightarrow> Inl (HubFailure (not_found (''could not get message with key: '' @ debug_bytes key))))"

text \<open>The primary key of a message that is to be stored or deleted.\<close>

definition message_row_key :: "u8 \<Rightarrow> message \<Rightarrow> bytes res" where
  "message_row_key root m =
     bind_res (unwrap (m_data m)) (\<lambda>data.
     bind_res (make_ts_hash (md_timestamp data) (m_hash m)) (\<lambda>ts_hash.
     bind_res (unwrap (try_message_type (md_type data))) (\<lambda>ty.
     bind_res (type_to_set_postfix ty) (\<lambda>p.
       Inr (make_message_primary_key_with_prefix root (md_fid data) (postfix_u8 p) (Some ts_hash))))))"

definition put_message_transaction_with_prefix :: "proto_codec \<Rightarrow> message \<Rightarrow> u8 \<Rightarrow> (txn_batch, unit) action" where
  "put_message_transaction_with_prefix pc m root =
     bind_st (lift_res (message_row_key root m)) (\<lambda>key. modify_st (\<lambda>txn. txn_put txn key (message_encode pc m)))"

definition delete_message_transaction_with_prefix :: "message \<Rightarrow> u8 \<Rightarrow> (txn_batch, unit) action" where
  "delete_message_transaction_with_prefix m root =
     bind_st (lift_res (message_row_key root m)) (\<lambda>key. modify_st (\<lambda>txn. txn_delete txn key))"

definition put_message_transaction :: "proto_codec \<Rightarrow> message \<Rightarrow> (txn_batch, unit) action" where
  "put_message_transaction pc m = put_message_transaction_with_prefix pc m (rp_u8 Rp_User)"

definition delete_message_transaction :: "message \<Rightarrow> (txn_batch, unit) action" where
  "delete_message_transaction m = delete_message_transaction_with_prefix m (rp_u8 Rp_User)"

definition is_message_in_time_range :: "u32 option \<Rightarrow> u32 option \<Rightarrow> message \<Rightarrow> bool" where
  "is_message_in_time_range start_time stop_time m =
     (let start = (case start_time of Some t \<Rightarrow> t | None \<Rightarrow> 0);
          stop = (case stop_time of Some t \<Rightarrow> t | None \<Rightarrow> - 1)
      in case m_data m of None \<Rightarrow> False | Some data \<Rightarrow> md_timestamp data \<ge> start \<and> md_timestamp data \<le> stop)"

section \<open>Pages of messages\<close>

record messages_page =
  mp_messages :: "message list"
  mp_next_page_token :: "bytes option"

text \<open>The callback keeps the messages found so far and the last key, as the closure does.\<close>

definition page_step ::
  "proto_codec \<Rightarrow> page_options \<Rightarrow> (message \<Rightarrow> bool) \<Rightarrow> message list \<times> bytes \<Rightarrow> bytes \<Rightarrow> bytes
     \<Rightarrow> (message list \<times> bytes) \<times> (hub_error + bool)" where
  "page_step pc po flt acc key value =
     (case message_decode pc value of
        Inl e \<Rightarrow> (acc, Inl (hub_error_from_rocksdb e))
      | Inr m \<Rightarrow>
          if flt m then
            (let messages = fst acc @ [m]
             in if length messages \<ge> (case page_size po of Some n \<Rightarrow> n | None \<Rightarrow> PAGE_SIZE_MAX)
                then ((messages, key), Inr True)
                else ((messages, snd acc), Inr False))
          else (acc, Inr False))"

definition get_messages_page_by_prefix ::
  "proto_codec \<Rightarrow> 'e engine_ops \<Rightarrow> 'e rocksdb \<Rightarrow> bytes \<Rightarrow> page_options \<Rightarrow> (message \<Rightarrow> bool) \<Rightarrow> hub_error + messages_page" where
  "get_messages_page_by_prefix pc ops db pfx po flt =
     (case for_each_iterator_by_prefix ops db (Some pfx) (Some (increment_vec_u8 pfx)) po (page_step pc po flt) ([], []) of
        (_, Inl e) \<Rightarrow> Inl e
      | ((messages, last_key), Inr _) \<Rightarrow>
          Inr \<lparr>mp_messages = messages, mp_next_page_token = (if length last_key > 0 then Some last_key else None)\<rparr>)"

end
