(* ===== verification/Hub_Events.thy ===== *)
theory Hub_Events
  imports Keys
begin

unbundle bit_operations_syntax

text \<open>
  Event identifiers and the event log of \<open>src/storage/store/account/event.rs\<close>: 50 bits of block height and
  14 bits of sequence number, so that the order of identifiers is the order of the events.
\<close>

section \<open>Identifiers\<close>

definition HEIGHT_BITS :: nat where
  "HEIGHT_BITS = 50"

definition SEQUENCE_BITS :: nat where
  "SEQUENCE_BITS = 14"

record event_id_generator =
  current_height :: u64
  current_seq :: u64

definition generator_new :: "u64 option \<Rightarrow> u64 option \<Rightarrow> event_id_generator" where
  "generator_new current_block last_seq =
     \<lparr>current_height = (case current_block of Some h \<Rightarrow> h | None \<Rightarrow> 0), current_seq = (case last_seq of Some s \<Rightarrow> s | None \<Rightarrow> 0)\<rparr>"

definition set_current_height :: "event_id_generator \<Rightarrow> u64 \<Rightarrow> event_id_generator" where
  "set_current_height g height = g\<lparr>current_height := height, current_seq := 0\<rparr>"

definition make_event_id :: "u64 \<Rightarrow> u64 \<Rightarrow> u64" where
  "make_event_id height seq =
     (let shifted_height = push_bit SEQUENCE_BITS height;
          padded_seq = seq AND (push_bit SEQUENCE_BITS 1 - 1)
      in shifted_height OR padded_seq)"

definition make_event_id_for_block_number :: "u64 \<Rightarrow> u64" where
  "make_event_id_for_block_number height = make_event_id height 0"

definition extract_height_and_seq :: "u64 \<Rightarrow> u64 \<times> u64" where
  "extract_height_and_seq event_id = (drop_bit SEQUENCE_BITS event_id, event_id AND (push_bit SEQUENCE_BITS 1 - 1))"

definition generate_id :: "hub_event \<Rightarrow> (event_id_generator, u64) action" where
  "generate_id event g =
     (if current_height g \<ge> 2 ^ HEIGHT_BITS then
        (hub_err ''bad_request.invalid_param'' ''height cannot fit in event id. Height > 50 bits'', g)
      else if current_seq g \<ge> 2 ^ SEQUENCE_BITS then
        (hub_err ''bad_request.invalid_param'' ''sequence cannot fit in event id. Seq> 14 bits'', g)
      else
        (case ev_type event of
           BlockConfirmed \<Rightarrow> (Inr (make_event_id (current_height g) 0), g)
         | _ \<Rightarrow>
             (let g1 = (if current_seq g = 0 then g\<lparr>current_seq := 1\<rparr> else g);
                  seq = current_seq g1;
                  g2 = g1\<lparr>current_seq := current_seq g1 + 1\<rparr>
              in (Inr (make_event_id (current_height g2) seq), g2))))"

section \<open>The log\<close>

definition make_event_key :: "u64 \<Rightarrow> bytes" where
  "make_event_key event_id = rp_u8 Rp_HubEvents # u64_to_be event_id"

definition put_event_transaction :: "proto_codec \<Rightarrow> hub_event \<Rightarrow> (txn_batch, unit) action" where
  "put_event_transaction pc event = modify_st (\<lambda>txn. txn_put txn (make_event_key (ev_id event)) (enc_hub_event pc event))"

text \<open>The state of a store during a block: the batch of the block and the generator.\<close>

record store_state =
  ss_txn :: txn_batch
  ss_gen :: event_id_generator

definition on_txn :: "(txn_batch, 'a) action \<Rightarrow> (store_state, 'a) action" where
  "on_txn f = on_part ss_txn (\<lambda>txn s. s\<lparr>ss_txn := txn\<rparr>) f"

definition on_gen :: "(event_id_generator, 'a) action \<Rightarrow> (store_state, 'a) action" where
  "on_gen f = on_part ss_gen (\<lambda>g s. s\<lparr>ss_gen := g\<rparr>) f"

text \<open>\<open>StoreEventHandler::commit_transaction\<close>; it returns the event with its identifier, which the callers set.\<close>

definition commit_transaction :: "proto_codec \<Rightarrow> bool \<Rightarrow> hub_event \<Rightarrow> (store_state, hub_event) action" where
  "commit_transaction pc no_persist raw_event =
     bind_st (on_gen (generate_id raw_event)) (\<lambda>event_id.
       let event = raw_event\<lparr>ev_id := event_id\<rparr>
       in bind_st (if no_persist then return_st () else on_txn (put_event_transaction pc event)) (\<lambda>_. return_st event))"

record events_page =
  ep_events :: "hub_event list"
  ep_next_page_token :: "bytes option"

definition events_step ::
  "proto_codec \<Rightarrow> page_options \<Rightarrow> hub_event list \<times> bytes \<Rightarrow> bytes \<Rightarrow> bytes \<Rightarrow> (hub_event list \<times> bytes) \<times> (hub_error + bool)" where
  "events_step pc po acc key value =
     (case dec_hub_event pc value of
        Inl e \<Rightarrow> (acc, Inl (hub_error_from_decode e))
      | Inr e \<Rightarrow>
          (let events = fst acc @ [e]
           in if length events \<ge> (case page_size po of Some n \<Rightarrow> n | None \<Rightarrow> 1000)
              then ((events, key), Inr True)
              else ((events, snd acc), Inr False)))"

definition get_events ::
  "proto_codec \<Rightarrow> 'e engine_ops \<Rightarrow> 'e rocksdb \<Rightarrow> u64 \<Rightarrow> u64 option \<Rightarrow> page_options option \<Rightarrow> hub_error + events_page" where
  "get_events pc ops db start_id stop_id page_opts =
     (let start_prefix = make_event_key start_id;
          stop_prefix = (case stop_id of Some i \<Rightarrow> make_event_key i | None \<Rightarrow> increment_vec_u8 (make_event_key (- 1)));
          po = (case page_opts of Some p \<Rightarrow> p | None \<Rightarrow> default_page_options)
      in case for_each_iterator_by_prefix_paged ops db (Some start_prefix) (Some stop_prefix) po (events_step pc po) ([], []) of
        (_, Inl e) \<Rightarrow> Inl e
      | ((events, last_key), Inr _) \<Rightarrow>
          Inr \<lparr>ep_events = events, ep_next_page_token = (if length last_key > 0 then Some last_key else None)\<rparr>)"

definition get_event :: "proto_codec \<Rightarrow> db_read \<Rightarrow> u64 \<Rightarrow> hub_event res" where
  "get_event pc rd event_id =
     (case rd (make_event_key event_id) of
        Inl e \<Rightarrow> Inl (HubFailure (hub_error_from_rocksdb e))
      | Inr None \<Rightarrow> Inl (HubFailure (not_found ''Event not found''))
      | Inr (Some buf) \<Rightarrow> (case dec_hub_event pc buf of
            Inr event \<Rightarrow> Inr event
          | Inl _ \<Rightarrow> hub_err ''internal_error'' ''could not decode event''))"

definition prune_events_util ::
  "nat \<Rightarrow> 'e engine_ops \<Rightarrow> 'e rocksdb \<Rightarrow> u64 \<Rightarrow> page_options \<Rightarrow> (hub_error + (u32 \<times> 'e rocksdb)) option" where
  "prune_events_util fuel ops db stop_height po =
     delete_paginated fuel ops db (Some (make_event_key 0))
       (Some (make_event_key (make_event_id_for_block_number stop_height))) po 0"

section \<open>Order of identifiers\<close>

lemma sequence_mask: "(push_bit SEQUENCE_BITS 1 - 1 :: u64) = mask SEQUENCE_BITS"
  by (simp add: mask_eq_exp_minus_1 push_bit_eq_mult)

lemma make_event_id_eq: "make_event_id h s = push_bit 14 h OR take_bit 14 s"
  unfolding make_event_id_def Let_def sequence_mask take_bit_eq_mask[symmetric] by (simp only: SEQUENCE_BITS_def)

lemma unat_make_event_id:
  assumes "unat h < 2 ^ 50" "unat s < 2 ^ 14"
  shows "unat (make_event_id h s) = unat h * 2 ^ 14 + unat s"
proof -
  have "push_bit 14 h AND take_bit 14 s = 0" by (rule bit_word_eqI) (simp add: bit_simps)
  then have "make_event_id h s = push_bit 14 h + take_bit 14 s"
    by (simp add: make_event_id_eq disjunctive_add_eq_or)
  moreover have s: "unat (take_bit 14 s) = unat s" using assms(2) by (simp add: unsigned_take_bit_eq take_bit_nat_eq_self)
  moreover have h: "unat (push_bit 14 h) = unat h * 2 ^ 14"
    using assms(1) by (simp add: unsigned_push_bit_eq push_bit_nat_def take_bit_nat_eq_self)
  moreover have "unat h * 2 ^ 14 + unat s < 2 ^ 64"
  proof -
    have "unat h * 2 ^ 14 \<le> (2 ^ 50 - 1) * 2 ^ 14" using assms(1) by (intro mult_right_mono) auto
    with assms(2) show ?thesis by simp
  qed
  ultimately show ?thesis by (simp add: unat_word_ariths(1) unat_of_nat)
qed

lemma extract_make_event_id:
  assumes "unat h < 2 ^ 50" "unat s < 2 ^ 14"
  shows "extract_height_and_seq (make_event_id h s) = (h, s)"
proof -
  let ?e = "make_event_id h s"
  have e: "unat ?e = unat h * 2 ^ 14 + unat s" by (rule unat_make_event_id[OF assms])
  have "unat (drop_bit 14 ?e) = unat h" "unat (take_bit 14 ?e) = unat s"
    using assms(2) unsigned_less[of ?e, where 'a = nat, unfolded e]
    by (simp_all add: unsigned_drop_bit_eq unsigned_take_bit_eq drop_bit_nat_def take_bit_nat_def e)
  then have "drop_bit 14 ?e = h" "take_bit 14 ?e = s" by (simp_all only: word_unat_eq_iff)
  then show ?thesis
    unfolding extract_height_and_seq_def sequence_mask take_bit_eq_mask[symmetric] by (simp only: SEQUENCE_BITS_def)
qed

lemma make_event_id_less:
  assumes "unat h < 2 ^ 50" "unat s < 2 ^ 14" "unat h' < 2 ^ 50" "unat s' < 2 ^ 14"
  shows "make_event_id h s < make_event_id h' s' \<longleftrightarrow> h < h' \<or> h = h' \<and> s < s'"
proof -
  have "a * 2 ^ 14 + b < c * 2 ^ 14 + d \<longleftrightarrow> a < c \<or> a = c \<and> b < d" if "b < 2 ^ 14" "d < 2 ^ 14" for a b c d :: nat
    using that by auto
  from this[OF assms(2,4)] show ?thesis
    by (simp add: word_less_nat_alt unat_make_event_id[OF assms(1,2)] unat_make_event_id[OF assms(3,4)] word_unat_eq_iff)
qed

text \<open>Keys of the log are ordered as the identifiers.\<close>

lemma from_be_mono: "length xs = length ys \<Longrightarrow> xs < ys \<longleftrightarrow> from_be xs < from_be ys"
proof (induction xs ys rule: list_induct2)
  case (Cons x xs y ys)
  let ?B = "256 ^ length ys :: nat"
  have b: "from_be xs < ?B" "from_be ys < ?B" using from_be_less[of xs] from_be_less[of ys] Cons.hyps by simp_all
  have "a * B + c < b * B + d \<longleftrightarrow> a < b \<or> a = b \<and> c < d" if "c < B" "d < B" for a b c d B :: nat
  proof (cases "a < b")
    case True
    then have "a * B + B \<le> b * B" using mult_le_mono1[of "Suc a" b B] by simp
    with that True show ?thesis by linarith
  next
    case False
    show ?thesis
    proof (cases "a = b")
      case False
      with \<open>\<not> a < b\<close> have "b * B + B \<le> a * B" using mult_le_mono1[of "Suc b" a B] by simp
      with that False \<open>\<not> a < b\<close> show ?thesis by linarith
    qed simp
  qed
  from this[OF b, of "unat x" "unat y"] show ?case
    by (simp add: from_be_Cons Cons.hyps Cons.IH word_less_nat_alt word_unat_eq_iff)
qed simp

lemma u64_to_be_mono [simp]: "u64_to_be a < u64_to_be b \<longleftrightarrow> a < b"
proof -
  have "from_be (u64_to_be w) = unat w" for w
    using unsigned_less[of w, where 'a = nat] by (simp add: u64_to_be_def from_be_be_bytes)
  then show ?thesis using from_be_mono[of "u64_to_be a" "u64_to_be b"] by (simp add: word_less_nat_alt)
qed

lemma make_event_key_mono [simp]: "make_event_key a < make_event_key b \<longleftrightarrow> a < b"
  by (simp add: make_event_key_def)

section \<open>What a commit does\<close>

lemma commit_transaction_ok:
  assumes "current_height (ss_gen s) < 2 ^ 50" "current_seq (ss_gen s) < 2 ^ 14" "ev_type ev \<noteq> BlockConfirmed"
  defines "seq \<equiv> if current_seq (ss_gen s) = 0 then 1 else current_seq (ss_gen s)"
  defines "ev' \<equiv> ev\<lparr>ev_id := make_event_id (current_height (ss_gen s)) seq\<rparr>"
  shows "commit_transaction pc no_persist ev s =
    (Inr ev', s\<lparr>ss_gen := (ss_gen s)\<lparr>current_seq := seq + 1\<rparr>,
       ss_txn := (if no_persist then ss_txn s else txn_put (ss_txn s) (make_event_key (ev_id ev')) (enc_hub_event pc ev'))\<rparr>)"
proof -
  have "generate_id ev (ss_gen s) = (Inr (make_event_id (current_height (ss_gen s)) seq), (ss_gen s)\<lparr>current_seq := seq + 1\<rparr>)"
    using assms(1,2)[folded not_le] assms(3)
    by (cases "ev_type ev") (simp_all add: generate_id_def HEIGHT_BITS_def SEQUENCE_BITS_def Let_def seq_def)
  then have "on_gen (generate_id ev) s = (Inr (make_event_id (current_height (ss_gen s)) seq), s\<lparr>ss_gen := (ss_gen s)\<lparr>current_seq := seq + 1\<rparr>\<rparr>)"
    by (simp add: on_gen_def on_part_def)
  then show ?thesis
    by (simp add: commit_transaction_def Let_def on_txn_def on_part_def put_event_transaction_def ev'_def bind_st_def)
qed

lemma commit_transaction_rows:
  assumes "current_height (ss_gen s) < 2 ^ 50" "current_seq (ss_gen s) < 2 ^ 14" "ev_type ev \<noteq> BlockConfirmed"
  shows "\<exists>ev' s'. commit_transaction pc no_persist ev s = (Inr ev', s') \<and> ev_body ev' = ev_body ev
    \<and> (ss_txn s' = ss_txn s \<or> (\<exists>k v. ss_txn s' = txn_put (ss_txn s) (make_event_key k) v))"
  by (subst commit_transaction_ok[OF assms]) (cases no_persist, auto)

end
