(* ===== verification/Account_Store.thy ===== *)
theory Account_Store
  imports Hub_Events
begin

text \<open>
  The generic message store of \<open>src/storage/store/account/store.rs\<close>. The trait \<open>StoreDef\<close> is a record of
  its methods, with the default bodies as definitions; a \<open>Store\<close> is a record of the definition, the
  database it reads, the options and the context. Writes go to the batch in the state.
\<close>

section \<open>StoreDef\<close>

type_synonym conflict_finder =
  "proto_codec \<Rightarrow> db_read \<Rightarrow> txn_batch \<Rightarrow> message \<Rightarrow> bytes \<Rightarrow> state_context \<Rightarrow> message list res"

record store_def =
  sd_postfix :: u8
  sd_add_message_type :: u8
  sd_remove_message_type :: u8
  sd_compact_state_message_type :: u8
  sd_is_add_type :: "message \<Rightarrow> bool"
  sd_is_remove_type :: "message \<Rightarrow> bool"
  sd_is_compact_state_type :: "message \<Rightarrow> bool"
  sd_build_secondary_indices :: "bytes \<Rightarrow> message \<Rightarrow> state_context \<Rightarrow> (txn_batch, unit) action"
  sd_delete_secondary_indices :: "bytes \<Rightarrow> message \<Rightarrow> state_context \<Rightarrow> (txn_batch, unit) action"
  sd_make_add_key :: "message \<Rightarrow> state_context \<Rightarrow> bytes res"
  sd_make_remove_key :: "message \<Rightarrow> state_context \<Rightarrow> bytes res"
  sd_make_compact_state_add_key :: "message \<Rightarrow> state_context \<Rightarrow> bytes res"
  sd_make_compact_state_prefix :: "u64 \<Rightarrow> state_context \<Rightarrow> bytes res"
  sd_prune_size_limit :: u32
  sd_message_compare :: "u8 \<Rightarrow> bytes \<Rightarrow> u8 \<Rightarrow> bytes \<Rightarrow> int res"
  sd_get_merge_conflicts :: "conflict_finder option"
  sd_revoke_event_args :: "message \<Rightarrow> hub_event"
  sd_merge_event_args :: "message \<Rightarrow> message list \<Rightarrow> hub_event"
  sd_prune_event_args :: "message \<Rightarrow> hub_event"

definition remove_type_supported :: "store_def \<Rightarrow> bool" where
  "remove_type_supported sd \<longleftrightarrow> sd_remove_message_type sd \<noteq> message_type_u8 MessageType_None"

definition compact_state_type_supported :: "store_def \<Rightarrow> bool" where
  "compact_state_type_supported sd \<longleftrightarrow> sd_compact_state_message_type sd \<noteq> message_type_u8 MessageType_None"

text \<open>Default bodies.\<close>

definition no_secondary_indices :: "bytes \<Rightarrow> message \<Rightarrow> state_context \<Rightarrow> (txn_batch, unit) action" where
  "no_secondary_indices ts_hash m ctx = return_st ()"

definition default_message_compare :: "u8 \<Rightarrow> u8 \<Rightarrow> u8 \<Rightarrow> bytes \<Rightarrow> u8 \<Rightarrow> bytes \<Rightarrow> int res" where
  "default_message_compare add_type remove_type a_type a_ts_hash b_type b_ts_hash =
     (if length a_ts_hash < 4 \<or> length b_ts_hash < 4 then Inl Panic
      else let ts_compare = bytes_compare (take 4 a_ts_hash) (take 4 b_ts_hash)
      in if ts_compare \<noteq> 0 then Inr ts_compare
         else if a_type = remove_type \<and> b_type = add_type then Inr 1
         else if a_type = add_type \<and> b_type = remove_type then Inr (- 1)
         else if length a_ts_hash < 24 \<or> length b_ts_hash < 24 then Inl Panic
         else Inr (bytes_compare (take 20 (drop 4 a_ts_hash)) (take 20 (drop 4 b_ts_hash))))"

definition default_revoke_event :: "message \<Rightarrow> hub_event" where
  "default_revoke_event m = new_event RevokeMessage (RevokeMessageBody (Some m))"

definition default_merge_event :: "message \<Rightarrow> message list \<Rightarrow> hub_event" where
  "default_merge_event m merge_conflicts = new_event MergeMessage (MergeMessageBody (Some m) merge_conflicts)"

definition default_prune_event :: "message \<Rightarrow> hub_event" where
  "default_prune_event m = new_event PruneMessage (PruneMessageBody (Some m))"

text \<open>
  One half of \<open>get_merge_conflicts\<close>: the message that the index row of \<open>key\<close> points to, when it has to give
  way to the new message.
\<close>

definition index_conflict ::
  "store_def \<Rightarrow> proto_codec \<Rightarrow> db_read \<Rightarrow> txn_batch \<Rightarrow> message \<Rightarrow> bytes \<Rightarrow> state_context
     \<Rightarrow> u8 \<Rightarrow> bytes \<Rightarrow> string \<Rightarrow> message list res" where
  "index_conflict sd pc rd txn m ts_hash ctx existing_type key conflict_text =
     bind_res (from_hub (get_from_db_or_txn rd txn key)) (\<lambda>existing_ts_hash. case existing_ts_hash of
        None \<Rightarrow> Inr []
      | Some h \<Rightarrow>
          bind_res (unwrap (m_data m)) (\<lambda>data.
          bind_res (sd_message_compare sd existing_type h (word_of_int (md_type data)) ts_hash) (\<lambda>compare.
            if compare > 0 then hub_err ''bad_request.conflict'' conflict_text
            else if compare = 0 then Inl (HubFailure (duplicate_error ''message has already been merged''))
            else bind_res (vec_to_u8_24 (Some h)) (\<lambda>h24.
              bind_res (get_message_with_prefix pc rd txn (ctx_root_prefix ctx Rp_User) (md_fid data) (sd_postfix sd) h24)
                (\<lambda>existing. Inr (case existing of Some m \<Rightarrow> [m] | None \<Rightarrow> []))))))"

definition default_get_merge_conflicts :: "store_def \<Rightarrow> conflict_finder" where
  "default_get_merge_conflicts sd pc rd txn m ts_hash ctx =
     bind_res
       (if remove_type_supported sd then
          bind_res (sd_make_remove_key sd m ctx) (\<lambda>remove_key.
            index_conflict sd pc rd txn m ts_hash ctx (sd_remove_message_type sd) remove_key
              ''message conflicts with a more recent remove'')
        else Inr [])
       (\<lambda>removes.
     bind_res (sd_make_add_key sd m ctx) (\<lambda>add_key.
     bind_res (index_conflict sd pc rd txn m ts_hash ctx (sd_add_message_type sd) add_key
         ''message conflicts with a more recent add'') (\<lambda>adds.
       Inr (removes @ adds))))"

definition get_merge_conflicts :: "store_def \<Rightarrow> conflict_finder" where
  "get_merge_conflicts sd =
     (case sd_get_merge_conflicts sd of Some f \<Rightarrow> f | None \<Rightarrow> default_get_merge_conflicts sd)"

section \<open>Store\<close>

record store_options =
  conflict_free :: bool
  save_hub_events :: bool

definition default_store_options :: store_options where
  "default_store_options = \<lparr>conflict_free = False, save_hub_events = True\<rparr>"

text \<open>The event handler is split: its generator is in the state, \<open>st_no_persist\<close> its flag.\<close>

record 'e store =
  st_def :: store_def
  st_no_persist :: bool
  st_ops :: "'e engine_ops"
  st_db :: "'e rocksdb"
  st_opts :: store_options
  st_ctx :: state_context
  st_codec :: proto_codec

definition st_read :: "'e store \<Rightarrow> db_read" where
  "st_read st = db_get (st_ops st) (st_db st)"

definition new_with_store_def_ctx ::
  "'e engine_ops \<Rightarrow> 'e rocksdb \<Rightarrow> proto_codec \<Rightarrow> bool \<Rightarrow> store_def \<Rightarrow> store_options \<Rightarrow> state_context \<Rightarrow> 'e store" where
  "new_with_store_def_ctx ops db pc no_persist sd opts ctx =
     \<lparr>st_def = sd, st_no_persist = no_persist, st_ops = ops, st_db = db, st_opts = opts, st_ctx = ctx, st_codec = pc\<rparr>"

definition new_with_store_def_opts ::
  "'e engine_ops \<Rightarrow> 'e rocksdb \<Rightarrow> proto_codec \<Rightarrow> bool \<Rightarrow> store_def \<Rightarrow> store_options \<Rightarrow> 'e store" where
  "new_with_store_def_opts ops db pc no_persist sd opts = new_with_store_def_ctx ops db pc no_persist sd opts Legacy"

definition new_with_store_def :: "'e engine_ops \<Rightarrow> 'e rocksdb \<Rightarrow> proto_codec \<Rightarrow> bool \<Rightarrow> store_def \<Rightarrow> 'e store" where
  "new_with_store_def ops db pc no_persist sd =
     new_with_store_def_ctx ops db pc no_persist sd default_store_options Legacy"

definition with_state_context :: "'e store \<Rightarrow> state_context \<Rightarrow> 'e store" where
  "with_state_context st ctx = st\<lparr>st_ctx := ctx\<rparr>"

definition with_event_handler :: "'e store \<Rightarrow> bool \<Rightarrow> 'e store" where
  "with_event_handler st no_persist = st\<lparr>st_no_persist := no_persist\<rparr>"

definition user_prefix :: "'e store \<Rightarrow> u8" where
  "user_prefix st = ctx_root_prefix (st_ctx st) Rp_User"

definition fid_missing :: "message \<Rightarrow> bool" where
  "fid_missing m = (case m_data m of None \<Rightarrow> True | Some data \<Rightarrow> md_fid data = 0)"

text \<open>The tail that \<open>get_add\<close> and \<open>get_remove\<close> share: follow an index row to its message.\<close>

definition get_indexed :: "'e store \<Rightarrow> txn_batch \<Rightarrow> message \<Rightarrow> bytes \<Rightarrow> message option res" where
  "get_indexed st txn partial_message key =
     bind_res (from_hub (get_from_db_or_txn (st_read st) txn key)) (\<lambda>message_ts_hash.
       case message_ts_hash of
         None \<Rightarrow> Inr None
       | Some h \<Rightarrow>
           bind_res (vec_to_u8_24 (Some h)) (\<lambda>h24.
           bind_res (unwrap (m_data partial_message)) (\<lambda>data.
             get_message_with_prefix (st_codec st) (st_read st) txn (user_prefix st) (md_fid data) (sd_postfix (st_def st)) h24)))"

definition get_add :: "'e store \<Rightarrow> message \<Rightarrow> txn_batch option \<Rightarrow> message option res" where
  "get_add st partial_message maybe_txn =
     (if fid_missing partial_message then hub_err ''bad_request.invalid_param'' ''fid is required''
      else let txn = (case maybe_txn of Some t \<Rightarrow> t | None \<Rightarrow> txn_new)
      in bind_res (sd_make_add_key (st_def st) partial_message (st_ctx st)) (get_indexed st txn partial_message))"

definition get_remove :: "'e store \<Rightarrow> message \<Rightarrow> message option res" where
  "get_remove st partial_message =
     (if \<not> remove_type_supported (st_def st) then hub_err ''bad_request.validation_failure'' ''remove type not supported''
      else if fid_missing partial_message then hub_err ''bad_request.invalid_param'' ''fid is required''
      else bind_res (sd_make_remove_key (st_def st) partial_message (st_ctx st)) (get_indexed st txn_new partial_message))"

definition fid_messages_prefix :: "'e store \<Rightarrow> u64 \<Rightarrow> bytes" where
  "fid_messages_prefix st fid = make_message_primary_key_with_prefix (user_prefix st) fid (sd_postfix (st_def st)) None"

definition page_filter :: "(message \<Rightarrow> bool) option \<Rightarrow> message \<Rightarrow> bool" where
  "page_filter flt m = (case flt of Some f \<Rightarrow> f m | None \<Rightarrow> True)"

definition get_adds_by_fid ::
  "'e store \<Rightarrow> u64 \<Rightarrow> page_options \<Rightarrow> (message \<Rightarrow> bool) option \<Rightarrow> messages_page res" where
  "get_adds_by_fid st fid po flt =
     from_hub (get_messages_page_by_prefix (st_codec st) (st_ops st) (st_db st) (fid_messages_prefix st fid) po
       (\<lambda>m. sd_is_add_type (st_def st) m \<and> page_filter flt m))"

definition get_removes_by_fid ::
  "'e store \<Rightarrow> u64 \<Rightarrow> page_options \<Rightarrow> (message \<Rightarrow> bool) option \<Rightarrow> messages_page res" where
  "get_removes_by_fid st fid po flt =
     (if \<not> remove_type_supported (st_def st) then hub_err ''bad_request.validation_failure'' ''remove type not supported''
      else from_hub (get_messages_page_by_prefix (st_codec st) (st_ops st) (st_db st) (fid_messages_prefix st fid) po
        (\<lambda>m. sd_is_remove_type (st_def st) m \<and> page_filter flt m)))"

section \<open>Writes to the batch\<close>

definition put_add_compact_state_transaction :: "'e store \<Rightarrow> message \<Rightarrow> (txn_batch, unit) action" where
  "put_add_compact_state_transaction st m =
     (if \<not> compact_state_type_supported (st_def st) then
        lift_res (hub_err ''bad_request.validation_failure'' ''compact state type not supported'')
      else bind_st (lift_res (sd_make_compact_state_add_key (st_def st) m (st_ctx st))) (\<lambda>key.
        modify_st (\<lambda>txn. txn_put txn key (message_encode (st_codec st) m))))"

definition put_add_transaction :: "'e store \<Rightarrow> bytes \<Rightarrow> message \<Rightarrow> (txn_batch, unit) action" where
  "put_add_transaction st ts_hash m =
     bind_st (put_message_transaction_with_prefix (st_codec st) m (user_prefix st)) (\<lambda>_.
     bind_st (lift_res (sd_make_add_key (st_def st) m (st_ctx st))) (\<lambda>adds_key.
     bind_st (modify_st (\<lambda>txn. txn_put txn adds_key ts_hash)) (\<lambda>_.
       sd_build_secondary_indices (st_def st) ts_hash m (st_ctx st))))"

definition delete_compact_state_transaction :: "'e store \<Rightarrow> message \<Rightarrow> (txn_batch, unit) action" where
  "delete_compact_state_transaction st m =
     (if \<not> compact_state_type_supported (st_def st) then
        lift_res (hub_err ''bad_request.validation_failure'' ''compact state type not supported'')
      else bind_st (lift_res (sd_make_compact_state_add_key (st_def st) m (st_ctx st))) (\<lambda>key.
        modify_st (\<lambda>txn. txn_delete txn key)))"

definition delete_add_transaction :: "'e store \<Rightarrow> bytes \<Rightarrow> message \<Rightarrow> (txn_batch, unit) action" where
  "delete_add_transaction st ts_hash m =
     bind_st (sd_delete_secondary_indices (st_def st) ts_hash m (st_ctx st)) (\<lambda>_.
     bind_st (lift_res (sd_make_add_key (st_def st) m (st_ctx st))) (\<lambda>add_key.
     bind_st (modify_st (\<lambda>txn. txn_delete txn add_key)) (\<lambda>_.
       delete_message_transaction_with_prefix m (user_prefix st))))"

definition put_remove_transaction :: "'e store \<Rightarrow> bytes \<Rightarrow> message \<Rightarrow> (txn_batch, unit) action" where
  "put_remove_transaction st ts_hash m =
     (if \<not> remove_type_supported (st_def st) then
        lift_res (hub_err ''bad_request.validation_failure'' ''remove type not supported'')
      else
        bind_st (put_message_transaction_with_prefix (st_codec st) m (user_prefix st)) (\<lambda>_.
        bind_st (lift_res (sd_make_remove_key (st_def st) m (st_ctx st))) (\<lambda>removes_key.
          modify_st (\<lambda>txn. txn_put txn removes_key ts_hash))))"

definition delete_remove_transaction :: "'e store \<Rightarrow> message \<Rightarrow> (txn_batch, unit) action" where
  "delete_remove_transaction st m =
     (if \<not> remove_type_supported (st_def st) then
        lift_res (hub_err ''bad_request.validation_failure'' ''remove type not supported'')
      else
        bind_st (lift_res (sd_make_remove_key (st_def st) m (st_ctx st))) (\<lambda>remove_key.
        bind_st (modify_st (\<lambda>txn. txn_delete txn remove_key)) (\<lambda>_.
          delete_message_transaction_with_prefix m (user_prefix st))))"

definition message_ts_hash :: "message \<Rightarrow> bytes res" where
  "message_ts_hash m = bind_res (unwrap (m_data m)) (\<lambda>data. make_ts_hash (md_timestamp data) (m_hash m))"

definition delete_one :: "'e store \<Rightarrow> message \<Rightarrow> (txn_batch, unit) action" where
  "delete_one st m =
     bind_st
       (if sd_is_compact_state_type (st_def st) m then delete_compact_state_transaction st m
        else if sd_is_add_type (st_def st) m then
          bind_st (lift_res (message_ts_hash m)) (\<lambda>ts_hash. delete_add_transaction st ts_hash m)
        else return_st ())
       (\<lambda>_. if remove_type_supported (st_def st) \<and> sd_is_remove_type (st_def st) m
            then delete_remove_transaction st m else return_st ())"

definition delete_many_transaction :: "'e store \<Rightarrow> message list \<Rightarrow> (txn_batch, unit) action" where
  "delete_many_transaction st messages = each_st (delete_one st) messages"

section \<open>Merge\<close>

definition read_compact_state_details :: "message \<Rightarrow> (u64 \<times> u32 \<times> u64 list) res" where
  "read_compact_state_details m =
     (case m_data m of
        None \<Rightarrow> hub_err ''bad_request.validation_failure'' ''Invalid compact state message: no data''
      | Some data \<Rightarrow>
          (case md_body data of
             Some (LinkCompactStateBody body) \<Rightarrow> Inr (md_fid data, md_timestamp data, lc_target_fids body)
           | _ \<Rightarrow> hub_err ''bad_request.validation_failure'' ''Invalid compact state message: No link compact state body''))"

text \<open>
  A scan of the committed rows whose callback changes a state, may fail, and stops the scan by returning
  true. The first failure ends the scan and is its result.
\<close>

definition for_each_action ::
  "'e engine_ops \<Rightarrow> 'e rocksdb \<Rightarrow> bytes \<Rightarrow> page_options \<Rightarrow> (bytes \<Rightarrow> bytes \<Rightarrow> ('s, bool) action) \<Rightarrow> ('s, bool) action" where
  "for_each_action ops db pfx po f s =
     (case for_each_iterator_by_prefix ops db (Some pfx) (Some (increment_vec_u8 pfx)) po
             (\<lambda>(s, _) k v. case f k v s of
                (Inl e, s') \<Rightarrow> ((s', Some e), Inr True)
              | (Inr b, s') \<Rightarrow> ((s', None), Inr b)) (s, None) of
        ((s', _), Inl e) \<Rightarrow> (Inl (HubFailure e), s')
      | ((s', Some e), Inr _) \<Rightarrow> (Inl e, s')
      | ((s', None), Inr b) \<Rightarrow> (Inr b, s'))"

definition link_target :: "message \<Rightarrow> u64 option" where
  "link_target m = (case m_data m of
     Some data \<Rightarrow> (case md_body data of Some (LinkBody body) \<Rightarrow> lb_target body | _ \<Rightarrow> None)
   | None \<Rightarrow> None)"

text \<open>The closure of \<open>merge_compact_state\<close>: which older messages the compact state replaces.\<close>

definition compact_step ::
  "'e store \<Rightarrow> u32 \<Rightarrow> u64 list \<Rightarrow> bytes \<Rightarrow> bytes \<Rightarrow> (message list, bool) action" where
  "compact_step st compact_state_timestamp target_fids key value =
     bind_st (lift_res (message_decode_res (st_codec st) value)) (\<lambda>m.
     bind_st (lift_res (unwrap (m_data m))) (\<lambda>data.
       if md_timestamp data > compact_state_timestamp then return_st True
       else if sd_is_remove_type (st_def st) m then bind_st (modify_st (\<lambda>acc. acc @ [m])) (\<lambda>_. return_st False)
       else if sd_is_add_type (st_def st) m then
         (case link_target m of
            Some target_fid \<Rightarrow>
              if target_fid \<notin> set target_fids then bind_st (modify_st (\<lambda>acc. acc @ [m])) (\<lambda>_. return_st False)
              else return_st False
          | None \<Rightarrow> return_st False)
       else return_st False))"

definition compact_conflict :: "'e store \<Rightarrow> message \<Rightarrow> txn_batch \<Rightarrow> message list res" where
  "compact_conflict st m txn =
     bind_res (sd_make_compact_state_add_key (st_def st) m (st_ctx st)) (\<lambda>compact_state_key.
     bind_res (from_hub (get_from_db_or_txn (st_read st) txn compact_state_key)) (\<lambda>existing.
       case existing of
         None \<Rightarrow> Inr []
       | Some bs \<Rightarrow>
           if conflict_free (st_opts st) then Inr []
           else (case message_decode (st_codec st) bs of
               Inl _ \<Rightarrow> Inr []
             | Inr old \<Rightarrow>
                 bind_res (unwrap (m_data old)) (\<lambda>old_data.
                 bind_res (unwrap (m_data m)) (\<lambda>data.
                   if md_timestamp old_data < md_timestamp data then Inr [old]
                   else hub_err ''bad_request.conflict'' ''A newer Compact State message is already merged'')))))"

definition merge_compact_state :: "'e store \<Rightarrow> message \<Rightarrow> (store_state, hub_event) action" where
  "merge_compact_state st m =
     bind_st get_st (\<lambda>s.
     bind_st (lift_res (compact_conflict st m (ss_txn s))) (\<lambda>old.
     bind_st (lift_res (read_compact_state_details m)) (\<lambda>(fid, compact_state_timestamp, target_fids).
     bind_st (lift_res (case for_each_action (st_ops st) (st_db st) (fid_messages_prefix st fid) default_page_options
                  (compact_step st compact_state_timestamp target_fids) old of
                (Inl e, _) \<Rightarrow> Inl e
              | (Inr _, conflicts) \<Rightarrow> Inr conflicts)) (\<lambda>merge_conflicts.
     bind_st (on_txn (delete_many_transaction st merge_conflicts)) (\<lambda>_.
     bind_st (on_txn (put_add_compact_state_transaction st m)) (\<lambda>_.
       commit_transaction (st_codec st) (st_no_persist st) (sd_merge_event_args (st_def st) m merge_conflicts)))))))"

text \<open>The compact state a new message has to respect, if the store has one for it.\<close>

definition current_compact_state :: "'e store \<Rightarrow> message \<Rightarrow> txn_batch \<Rightarrow> (u32 \<times> u64 list) option res" where
  "current_compact_state st m txn =
     (if compact_state_type_supported (st_def st) \<and> \<not> conflict_free (st_opts st) then
        bind_res (sd_make_compact_state_add_key (st_def st) m (st_ctx st)) (\<lambda>compact_state_key.
        bind_res (from_hub (get_from_db_or_txn (st_read st) txn compact_state_key)) (\<lambda>existing.
          case existing of
            None \<Rightarrow> Inr None
          | Some bs \<Rightarrow>
              bind_res (message_decode_res (st_codec st) bs) (\<lambda>cm.
              bind_res (read_compact_state_details cm) (\<lambda>(_, ts, targets). Inr (Some (ts, targets))))))
      else Inr None)"

definition check_add_compact :: "'e store \<Rightarrow> message \<Rightarrow> txn_batch \<Rightarrow> unit res" where
  "check_add_compact st m txn =
     bind_res (current_compact_state st m txn) (\<lambda>cs.
       case cs of
         None \<Rightarrow> Inr ()
       | Some (compact_state_timestamp, target_fids) \<Rightarrow>
           bind_res (unwrap (m_data m)) (\<lambda>data.
             (case link_target m of
                Some target_fid \<Rightarrow>
                  if md_timestamp data < compact_state_timestamp \<and> target_fid \<notin> set target_fids
                  then hub_err ''bad_request.conflict''
                         (''Target fid '' @ decimal (unat target_fid) @ '' not in the compact state target fids'')
                  else Inr ()
              | None \<Rightarrow> Inr ())))"

definition check_remove_compact :: "'e store \<Rightarrow> message \<Rightarrow> txn_batch \<Rightarrow> unit res" where
  "check_remove_compact st m txn =
     bind_res (current_compact_state st m txn) (\<lambda>cs.
       case cs of
         None \<Rightarrow> Inr ()
       | Some (compact_state_timestamp, _) \<Rightarrow>
           bind_res (unwrap (m_data m)) (\<lambda>data.
             if md_timestamp data < compact_state_timestamp
             then hub_err ''bad_request.prunable''
                    ''Remove message earlier than the compact state message will be immediately pruned''
             else Inr ()))"

text \<open>The part \<open>merge_add\<close> and \<open>merge_remove\<close> share: find the conflicts and delete them.\<close>

definition clear_conflicts :: "'e store \<Rightarrow> bytes \<Rightarrow> message \<Rightarrow> (store_state, message list) action" where
  "clear_conflicts st ts_hash m =
     (if conflict_free (st_opts st) then return_st []
      else
        bind_st get_st (\<lambda>s.
        bind_st (lift_res (get_merge_conflicts (st_def st) (st_codec st) (st_read st) (ss_txn s) m ts_hash (st_ctx st)))
          (\<lambda>merge_conflicts.
        bind_st (on_txn (delete_many_transaction st merge_conflicts)) (\<lambda>_. return_st merge_conflicts))))"

definition finish_merge :: "'e store \<Rightarrow> message \<Rightarrow> message list \<Rightarrow> (store_state, hub_event) action" where
  "finish_merge st m merge_conflicts =
     (let event = sd_merge_event_args (st_def st) m merge_conflicts
      in if save_hub_events (st_opts st) then commit_transaction (st_codec st) (st_no_persist st) event
         else return_st event)"

definition merge_add :: "'e store \<Rightarrow> bytes \<Rightarrow> message \<Rightarrow> (store_state, hub_event) action" where
  "merge_add st ts_hash m =
     bind_st get_st (\<lambda>s.
     bind_st (lift_res (check_add_compact st m (ss_txn s))) (\<lambda>_.
     bind_st (clear_conflicts st ts_hash m) (\<lambda>merge_conflicts.
     bind_st (on_txn (put_add_transaction st ts_hash m)) (\<lambda>_.
       finish_merge st m merge_conflicts))))"

definition merge_remove :: "'e store \<Rightarrow> bytes \<Rightarrow> message \<Rightarrow> (store_state, hub_event) action" where
  "merge_remove st ts_hash m =
     bind_st get_st (\<lambda>s.
     bind_st (lift_res (check_remove_compact st m (ss_txn s))) (\<lambda>_.
     bind_st (clear_conflicts st ts_hash m) (\<lambda>merge_conflicts.
     bind_st (on_txn (put_remove_transaction st ts_hash m)) (\<lambda>_.
       finish_merge st m merge_conflicts))))"

definition store_merge :: "'e store \<Rightarrow> message \<Rightarrow> (store_state, hub_event) action" where
  "store_merge st m =
     (let sd = st_def st
      in if \<not> sd_is_add_type sd m \<and> \<not> (remove_type_supported sd \<and> sd_is_remove_type sd m)
            \<and> \<not> (compact_state_type_supported sd \<and> sd_is_compact_state_type sd m)
         then lift_res (hub_err ''bad_request.validation_failure'' ''invalid message type'')
         else bind_st (lift_res (message_ts_hash m)) (\<lambda>ts_hash.
           if sd_is_compact_state_type sd m then merge_compact_state st m
           else if sd_is_add_type sd m then merge_add st ts_hash m
           else merge_remove st ts_hash m))"

section \<open>Revoke and prune\<close>

definition store_revoke :: "'e store \<Rightarrow> message \<Rightarrow> (store_state, hub_event) action" where
  "store_revoke st m =
     bind_st (lift_res (message_ts_hash m)) (\<lambda>ts_hash.
     bind_st (on_txn
       (if sd_is_compact_state_type (st_def st) m then delete_compact_state_transaction st m
        else if sd_is_add_type (st_def st) m then delete_add_transaction st ts_hash m
        else if remove_type_supported (st_def st) \<and> sd_is_remove_type (st_def st) m then delete_remove_transaction st m
        else lift_res (hub_err ''bad_request.invalid_param'' ''invalid message type''))) (\<lambda>_.
       commit_transaction (st_codec st) (st_no_persist st) (sd_revoke_event_args (st_def st) m)))"

definition prune_message :: "'e store \<Rightarrow> message \<Rightarrow> (store_state, hub_event option) action" where
  "prune_message st m =
     (if compact_state_type_supported (st_def st) \<and> sd_is_compact_state_type (st_def st) m then return_st None
      else
        bind_st
          (if sd_is_add_type (st_def st) m then
             bind_st (lift_res (message_ts_hash m)) (\<lambda>ts_hash. on_txn (delete_add_transaction st ts_hash m))
           else if remove_type_supported (st_def st) \<and> sd_is_remove_type (st_def st) m then
             on_txn (delete_remove_transaction st m)
           else return_st ())
          (\<lambda>_. bind_st (commit_transaction (st_codec st) (st_no_persist st) (sd_prune_event_args (st_def st) m))
            (\<lambda>event. return_st (Some event))))"

record scan_state =
  sc_store :: store_state
  sc_count :: u32
  sc_events :: "hub_event list"

definition on_store :: "(store_state, 'a) action \<Rightarrow> (scan_state, 'a) action" where
  "on_store f = on_part sc_store (\<lambda>s sc. sc\<lparr>sc_store := s\<rparr>) f"

definition prune_step :: "'e store \<Rightarrow> u32 \<Rightarrow> bytes \<Rightarrow> bytes \<Rightarrow> (scan_state, bool) action" where
  "prune_step st max_count key value =
     bind_st get_st (\<lambda>sc.
       if sc_count sc \<le> max_count then return_st True
       else
         bind_st (lift_res (message_decode_res (st_codec st) value)) (\<lambda>m.
         bind_st (on_store (prune_message st m)) (\<lambda>pruned.
           case pruned of
             Some event \<Rightarrow>
               bind_st (modify_st (\<lambda>sc. sc\<lparr>sc_count := sc_count sc - 1, sc_events := sc_events sc @ [event]\<rparr>))
                 (\<lambda>_. return_st False)
           | None \<Rightarrow> return_st False)))"

definition prune_messages :: "'e store \<Rightarrow> u64 \<Rightarrow> u32 \<Rightarrow> u32 \<Rightarrow> (store_state, hub_event list) action" where
  "prune_messages st fid current_count max_count s =
     (if \<not> allows_pruning (st_ctx st) then (Inr [], s)
      else if current_count \<le> max_count then (Inr [], s)
      else case for_each_action (st_ops st) (st_db st) (fid_messages_prefix st fid) default_page_options (prune_step st max_count)
                  \<lparr>sc_store = s, sc_count = current_count, sc_events = []\<rparr> of
             (Inl e, sc) \<Rightarrow> (Inl e, sc_store sc)
           | (Inr _, sc) \<Rightarrow> (Inr (sc_events sc), sc_store sc))"

text \<open>A message that cannot be revoked is skipped; a panic is not.\<close>

definition revoke_step :: "'e store \<Rightarrow> bytes \<Rightarrow> bytes \<Rightarrow> bytes \<Rightarrow> (scan_state, bool) action" where
  "revoke_step st signer key value =
     bind_st (lift_res (message_decode_res (st_codec st) value)) (\<lambda>m sc.
       if bytes_compare (m_signer m) signer = 0 then
         (case store_revoke st m (sc_store sc) of
            (Inr event, s') \<Rightarrow> (Inr False, sc\<lparr>sc_store := s', sc_events := sc_events sc @ [event]\<rparr>)
          | (Inl (HubFailure _), s') \<Rightarrow> (Inr False, sc\<lparr>sc_store := s'\<rparr>)
          | (Inl Panic, s') \<Rightarrow> (Inl Panic, sc\<lparr>sc_store := s'\<rparr>))
       else (Inr False, sc))"

definition revoke_messages_by_signer :: "'e store \<Rightarrow> u64 \<Rightarrow> bytes \<Rightarrow> (store_state, hub_event list) action" where
  "revoke_messages_by_signer st fid signer s =
     (case for_each_action (st_ops st) (st_db st) (fid_messages_prefix st fid) default_page_options (revoke_step st signer)
             \<lparr>sc_store = s, sc_count = 0, sc_events = []\<rparr> of
        (Inl e, sc) \<Rightarrow> (Inl e, sc_store sc)
      | (Inr _, sc) \<Rightarrow> (Inr (sc_events sc), sc_store sc))"

definition get_all_messages_by_fid ::
  "'e store \<Rightarrow> u64 \<Rightarrow> u32 option \<Rightarrow> u32 option \<Rightarrow> page_options \<Rightarrow> messages_page res" where
  "get_all_messages_by_fid st fid start_time stop_time po =
     from_hub (get_messages_page_by_prefix (st_codec st) (st_ops st) (st_db st) (fid_messages_prefix st fid) po
       (\<lambda>m. is_message_in_time_range start_time stop_time m
          \<and> (sd_is_add_type (st_def st) m \<or> (remove_type_supported (st_def st) \<and> sd_is_remove_type (st_def st) m))))"

definition get_compact_state_messages_by_fid :: "'e store \<Rightarrow> u64 \<Rightarrow> page_options \<Rightarrow> messages_page res" where
  "get_compact_state_messages_by_fid st fid po =
     (if \<not> compact_state_type_supported (st_def st) then Inl (HubFailure (invalid_parameter ''compact state not supported''))
      else bind_res (sd_make_compact_state_prefix (st_def st) fid (st_ctx st)) (\<lambda>pfx.
        from_hub (get_messages_page_by_prefix (st_codec st) (st_ops st) (st_db st) pfx po
          (\<lambda>m. compact_state_type_supported (st_def st) \<and> sd_is_compact_state_type (st_def st) m))))"

section \<open>Secondary indices\<close>

text \<open>
  The queries by parent, by mention and by target share one shape: an index key is the scanned prefix, a
  \<open>tsHash\<close> and the fid of the author; the closure collects the primary keys of the messages.
\<close>

definition index_step ::
  "'e store \<Rightarrow> bytes \<Rightarrow> page_options \<Rightarrow> (bytes \<Rightarrow> bool) \<Rightarrow> bytes \<Rightarrow> bytes \<Rightarrow> (bytes list \<times> bytes, bool) action" where
  "index_step st pfx po keep key value =
     (if keep value then
        bind_st (lift_res (read_fid_key key (length pfx + TS_HASH_LENGTH))) (\<lambda>fid.
        bind_st (lift_res (read_ts_hash key (length pfx))) (\<lambda>ts_hash (message_keys, last_key).
          let message_keys' = message_keys @ [make_message_primary_key fid (sd_postfix (st_def st)) (Some ts_hash)]
          in if length message_keys' \<ge> (case page_size po of Some n \<Rightarrow> n | None \<Rightarrow> PAGE_SIZE_MAX)
             then (Inr True, message_keys', key)
             else (Inr False, message_keys', last_key)))
      else return_st False)"

definition get_messages_by_index :: "'e store \<Rightarrow> bytes \<Rightarrow> page_options \<Rightarrow> (bytes \<Rightarrow> bool) \<Rightarrow> messages_page res" where
  "get_messages_by_index st pfx po keep =
     (case for_each_action (st_ops st) (st_db st) pfx po (index_step st pfx po keep) ([], []) of
        (Inl e, _) \<Rightarrow> Inl e
      | (Inr _, message_keys, last_key) \<Rightarrow>
          bind_res (get_many_messages (st_codec st) (st_read st) message_keys) (\<lambda>messages.
            Inr \<lparr>mp_messages = messages, mp_next_page_token = (if length last_key > 0 then Some last_key else None)\<rparr>))"

end
