(* ===== verification/Batch_Order.thy ===== *)
theory Batch_Order
  imports Account_Store
begin

text \<open>
  The batch of a block stays a map: no operation of a store leaves a key in it twice. Committing the batch
  writes its rows in some order, so this is what makes the committed rows those the operations saw.
\<close>

named_theorems keeps_intros \<open>operations that keep the batch a map\<close>

definition keeps :: "('s \<Rightarrow> bool) \<Rightarrow> ('s, 'a) action \<Rightarrow> bool" where
  "keeps P f \<longleftrightarrow> (\<forall>s. P s \<longrightarrow> P (snd (f s)))"

abbreviation "batch_ok s \<equiv> hm_ok (ss_txn s)"

lemma keeps_bind [keeps_intros]: "keeps P f \<Longrightarrow> (\<And>x. keeps P (g x)) \<Longrightarrow> keeps P (bind_st f g)"
  unfolding keeps_def bind_st_def by (simp split: prod.split sum.split) (metis snd_conv)

lemma keeps_basic [keeps_intros]: "keeps P (return_st x)" "keeps P (lift_res r)" "keeps P get_st"
  by (simp_all add: keeps_def)

lemma keeps_if [keeps_intros]: "(c \<Longrightarrow> keeps P f) \<Longrightarrow> (\<not> c \<Longrightarrow> keeps P g) \<Longrightarrow> keeps P (if c then f else g)"
  by simp

lemma keeps_modify [keeps_intros]:
  "keeps hm_ok (modify_st (\<lambda>txn. txn_put txn k v))" "keeps hm_ok (modify_st (\<lambda>txn. txn_delete txn k))"
  by (simp_all add: keeps_def modify_st_def)

lemma keeps_each [keeps_intros]: "(\<And>x. keeps P (f x)) \<Longrightarrow> keeps P (each_st f xs)"
  by (induction xs) (simp_all add: keeps_basic keeps_bind)

lemma keeps_on_txn [keeps_intros]: "keeps hm_ok f \<Longrightarrow> keeps batch_ok (on_txn f)"
  by (simp add: keeps_def on_txn_def on_part_def case_prod_beta)

lemma keeps_on_gen [keeps_intros]: "keeps batch_ok (on_gen f)"
  by (simp add: keeps_def on_gen_def on_part_def case_prod_beta)

lemma keeps_foldl:
  "hm_ok txn \<Longrightarrow> hm_ok (foldl (\<lambda>txn key. txn_put txn key v) txn keys)" "hm_ok txn \<Longrightarrow> hm_ok (foldl txn_delete txn keys)"
  by (induction keys arbitrary: txn) auto

text \<open>The two methods of a definition that write to the batch.\<close>

definition indices_keep :: "store_def \<Rightarrow> bool" where
  "indices_keep sd \<longleftrightarrow> (\<forall>h m ctx. keeps hm_ok (sd_build_secondary_indices sd h m ctx)
     \<and> keeps hm_ok (sd_delete_secondary_indices sd h m ctx))"

lemma messages_keep [keeps_intros]:
  "keeps hm_ok (put_message_transaction_with_prefix pc m root)" "keeps hm_ok (delete_message_transaction_with_prefix m root)"
  by (auto simp: put_message_transaction_with_prefix_def delete_message_transaction_with_prefix_def intro!: keeps_intros)

lemma commit_keeps [keeps_intros]: "keeps batch_ok (commit_transaction pc no_persist ev)"
  by (auto simp: commit_transaction_def put_event_transaction_def Let_def intro!: keeps_intros)

lemma transactions_keep:
  assumes "indices_keep (st_def st)"
  shows "keeps hm_ok (put_add_transaction st h m)" "keeps hm_ok (put_remove_transaction st h m)"
    "keeps hm_ok (delete_add_transaction st h m)" "keeps hm_ok (delete_remove_transaction st m)"
    "keeps hm_ok (put_add_compact_state_transaction st m)" "keeps hm_ok (delete_compact_state_transaction st m)"
  using assms by (auto simp: indices_keep_def put_add_transaction_def put_remove_transaction_def delete_add_transaction_def
      delete_remove_transaction_def put_add_compact_state_transaction_def delete_compact_state_transaction_def intro!: keeps_intros)

lemma delete_many_keeps: "indices_keep (st_def st) \<Longrightarrow> keeps hm_ok (delete_many_transaction st ms)"
  by (auto simp: delete_many_transaction_def delete_one_def intro!: keeps_intros transactions_keep)

lemma store_merge_keeps:
  assumes "indices_keep (st_def st)"
  shows "keeps batch_ok (store_merge st m)"
proof -
  note k = transactions_keep[OF assms] delete_many_keeps[OF assms]
  have "keeps batch_ok (clear_conflicts st h m)" for h
    by (auto simp: clear_conflicts_def intro!: keeps_intros k)
  moreover have "keeps batch_ok (finish_merge st m ws)" for ws
    by (auto simp: finish_merge_def Let_def intro!: keeps_intros)
  moreover have "keeps batch_ok (merge_compact_state st m)"
    by (auto simp: merge_compact_state_def split: prod.split intro!: keeps_intros k)
  ultimately show ?thesis
    by (auto simp: store_merge_def merge_add_def merge_remove_def Let_def intro!: keeps_intros k)
qed

lemma store_revoke_keeps:
  assumes "indices_keep (st_def st)"
  shows "keeps batch_ok (store_revoke st m)"
  by (auto simp: store_revoke_def intro!: keeps_intros transactions_keep[OF assms])

end
