(* ===== verification/Message_Set.thy ===== *)
theory Message_Set
  imports Batch_Order
begin

text \<open>
  The contract of a message store: for every slot (what a message is about) the store keeps the message
  with the highest priority, add or remove, and nothing else. The laws a \<open>StoreDef\<close> has to obey are the
  assumptions of the locale \<open>message_set\<close>; merging, revoking and reading are proved in it once, and each
  store of the program interprets it.
\<close>

section \<open>Messages as the stores see them\<close>

definition msg_fid :: "message \<Rightarrow> u64" where
  "msg_fid m = (case m_data m of Some d \<Rightarrow> md_fid d | None \<Rightarrow> 0)"

definition msg_ts_hash :: "message \<Rightarrow> bytes" where
  "msg_ts_hash m = (case m_data m of Some d \<Rightarrow> u32_to_be (md_timestamp d) @ m_hash m | None \<Rightarrow> [])"

definition user_key :: "state_context \<Rightarrow> bytes \<Rightarrow> bool" where
  "user_key ctx k \<longleftrightarrow> k \<noteq> [] \<and> hd k = ctx_root_prefix ctx Rp_User"

definition msg_row :: "state_context \<Rightarrow> store_def \<Rightarrow> message \<Rightarrow> bytes" where
  "msg_row ctx sd m =
     make_message_primary_key_with_prefix (ctx_root_prefix ctx Rp_User) (msg_fid m) (sd_postfix sd) (Some (msg_ts_hash m))"

text \<open>A message whose type belongs to the store and whose hash has the right length.\<close>

definition stored_in :: "store_def \<Rightarrow> message \<Rightarrow> bool" where
  "stored_in sd m \<longleftrightarrow> length (m_hash m) = 20 \<and> (\<exists>d t p. m_data m = Some d \<and> md_type d = message_type_i32 t
     \<and> type_to_set_postfix t = Inr p \<and> postfix_u8 p = sd_postfix sd
     \<and> message_type_u8 t = (if sd_is_add_type sd m then sd_add_message_type sd else sd_remove_message_type sd))"

lemma stored_inD:
  assumes "stored_in sd m"
  shows "message_ts_hash m = Inr (msg_ts_hash m)" "length (msg_ts_hash m) = 24"
    and "message_row_key (ctx_root_prefix ctx Rp_User) m = Inr (msg_row ctx sd m)"
  using assms by (auto simp: stored_in_def message_ts_hash_def msg_ts_hash_def make_ts_hash_def HASH_LENGTH_def
      message_row_key_def msg_row_def msg_fid_def)

lemma user_key_row [simp]: "user_key ctx (msg_row ctx sd m)"
  by (simp add: user_key_def msg_row_def make_message_primary_key_with_prefix_def make_user_key_with_prefix_def)

lemma event_key_not_user [simp]: "\<not> user_key ctx (make_event_key i)"
  by (cases ctx) (simp_all add: user_key_def make_event_key_def ctx_root_prefix_def is_hyper_def)

text \<open>What a store reads back.\<close>

definition stored_ok :: "proto_codec \<Rightarrow> message \<Rightarrow> bool" where
  "stored_ok pc m \<longleftrightarrow> message_decode pc (message_encode pc m) = Inr m"

lemma stored_okI:
  assumes "proto_ok pc" "\<And>b. m_data_bytes m = Some b \<Longrightarrow> b \<noteq> [] \<Longrightarrow> dec_message_data pc b = m_data m"
  shows "stored_ok pc m"
  using assms by (auto simp: stored_ok_def message_decode_def message_encode_def message_bytes_decode_def split: option.split)

text \<open>Room for \<open>n\<close> more events in the block.\<close>

definition event_room :: "nat \<Rightarrow> event_id_generator \<Rightarrow> bool" where
  "event_room n g \<longleftrightarrow> current_height g < 2 ^ 50 \<and> max 1 (unat (current_seq g)) + n \<le> 2 ^ 14"

lemma commit_room:
  assumes "event_room (Suc n) (ss_gen s)" "ev_type ev \<noteq> BlockConfirmed"
  shows "\<exists>i s'. commit_transaction pc no_persist ev s = (Inr (ev\<lparr>ev_id := i\<rparr>), s') \<and> event_room n (ss_gen s')
    \<and> (\<forall>k. user_key ctx k \<longrightarrow> map_of (ss_txn s') k = map_of (ss_txn s) k)"
proof -
  let ?g = "ss_gen s"
  let ?seq = "if current_seq ?g = 0 then 1 else current_seq ?g"
  have u: "unat ?seq = max 1 (unat (current_seq ?g))" by (auto simp: unat_eq_0 max_def Suc_le_eq unat_gt_0)
  then have lt: "unat ?seq + Suc n \<le> 2 ^ 14" using assms(1) by (simp add: event_room_def)
  have "unat (current_seq ?g) < 2 ^ 14" using lt u by simp
  then have seq: "current_seq ?g < 2 ^ 14" by (simp add: word_less_nat_alt)
  have "unat (?seq + 1) = Suc (unat ?seq)" using lt by (subst unat_word_ariths(1)) simp
  then have "event_room n (?g\<lparr>current_seq := ?seq + 1\<rparr>)" using assms(1) lt by (simp add: event_room_def)
  then show ?thesis
    using commit_transaction_ok[OF _ seq assms(2), of pc no_persist] assms(1)
    by (auto simp: event_room_def Let_def split: if_splits)
qed

section \<open>What a store holds\<close>

text \<open>A store with definition \<open>sd\<close>, over a database with rows \<open>m0\<close>.\<close>

definition store_uses :: "store_def \<Rightarrow> state_context \<Rightarrow> proto_codec \<Rightarrow> 'e store \<Rightarrow> (bytes \<rightharpoonup> bytes) \<Rightarrow> bool" where
  "store_uses sd ctx pc st m0 \<longleftrightarrow> st_def st = sd \<and> st_ctx st = ctx \<and> st_codec st = pc \<and> st_read st = reads m0
     \<and> \<not> conflict_free (st_opts st)"

text \<open>The rows of one slot: the message itself and the index row of its kind.\<close>

definition slot_rows ::
  "store_def \<Rightarrow> state_context \<Rightarrow> proto_codec \<Rightarrow> ('k \<Rightarrow> bytes) \<Rightarrow> ('k \<Rightarrow> bytes)
     \<Rightarrow> (bytes \<rightharpoonup> bytes) \<Rightarrow> ('k \<rightharpoonup> message) \<Rightarrow> 'k \<Rightarrow> bool" where
  "slot_rows sd ctx pc akey rkey rows A k = (case A k of
     None \<Rightarrow> rows (akey k) = None \<and> (remove_type_supported sd \<longrightarrow> rows (rkey k) = None)
   | Some w \<Rightarrow> rows (msg_row ctx sd w) = Some (message_encode pc w)
       \<and> rows (akey k) = (if sd_is_add_type sd w then Some (msg_ts_hash w) else None)
       \<and> (remove_type_supported sd \<longrightarrow> rows (rkey k) = (if sd_is_add_type sd w then None else Some (msg_ts_hash w))))"

text \<open>The rows hold exactly the messages \<open>A\<close>, one per slot.\<close>

definition store_holds ::
  "store_def \<Rightarrow> state_context \<Rightarrow> proto_codec \<Rightarrow> (message \<Rightarrow> 'k) \<Rightarrow> ('k \<Rightarrow> bytes) \<Rightarrow> ('k \<Rightarrow> bytes) \<Rightarrow> (message \<Rightarrow> bool)
     \<Rightarrow> (bytes \<rightharpoonup> bytes) \<Rightarrow> ('k \<rightharpoonup> message) \<Rightarrow> bool" where
  "store_holds sd ctx pc slot akey rkey valid rows A \<longleftrightarrow>
     (\<forall>k w. A k = Some w \<longrightarrow> valid w \<and> slot w = k)
     \<and> (\<forall>m. valid m \<longrightarrow> slot_rows sd ctx pc akey rkey rows A (slot m))
     \<and> (\<forall>k k' w w'. A k = Some w \<longrightarrow> A k' = Some w' \<longrightarrow> msg_row ctx sd w = msg_row ctx sd w' \<longrightarrow> k = k')
     \<and> (\<forall>m. valid m \<longrightarrow> rows (msg_row ctx sd m) \<noteq> None \<longrightarrow> (\<exists>k w. A k = Some w \<and> msg_row ctx sd w = msg_row ctx sd m))"

text \<open>What the new message \<open>m\<close> finds in its slot: the messages it replaces, or why it is refused.\<close>

definition conflict_text :: "store_def \<Rightarrow> message \<Rightarrow> string" where
  "conflict_text sd w =
     (if sd_is_add_type sd w then ''message conflicts with a more recent add'' else ''message conflicts with a more recent remove'')"

definition slot_verdict ::
  "store_def \<Rightarrow> (message \<Rightarrow> 'k) \<Rightarrow> (message \<Rightarrow> bytes) \<Rightarrow> ('k \<rightharpoonup> message) \<Rightarrow> message \<Rightarrow> message list res" where
  "slot_verdict sd slot prio A m = (case A (slot m) of
     None \<Rightarrow> Inr []
   | Some w \<Rightarrow>
       if prio m < prio w then hub_err ''bad_request.conflict'' (conflict_text sd w)
       else if prio w = prio m then Inl (HubFailure (duplicate_error ''message has already been merged''))
       else Inr [w])"

text \<open>Merging as a function on the contents, and a run of merges.\<close>

definition absorb :: "(message \<Rightarrow> 'k) \<Rightarrow> (message \<Rightarrow> bytes) \<Rightarrow> message \<Rightarrow> ('k \<rightharpoonup> message) \<Rightarrow> ('k \<rightharpoonup> message)" where
  "absorb slot prio m A = (case A (slot m) of
     None \<Rightarrow> A(slot m \<mapsto> m)
   | Some w \<Rightarrow> if prio w < prio m then A(slot m \<mapsto> m) else A)"

definition merge_all :: "'e store \<Rightarrow> message list \<Rightarrow> store_state \<Rightarrow> store_state" where
  "merge_all st ms s = fold (\<lambda>m s. snd (store_merge st m s)) ms s"

text \<open>Of the messages \<open>S\<close>, the one with the highest priority in each slot.\<close>

definition winners :: "(message \<Rightarrow> 'k) \<Rightarrow> (message \<Rightarrow> bytes) \<Rightarrow> message set \<Rightarrow> ('k \<rightharpoonup> message) \<Rightarrow> bool" where
  "winners slot prio S A \<longleftrightarrow>
     (\<forall>k w. A k = Some w \<longrightarrow> w \<in> S \<and> slot w = k \<and> (\<forall>m\<in>S. slot m = k \<longrightarrow> prio m \<le> prio w))
     \<and> (\<forall>m\<in>S. A (slot m) \<noteq> None)"

lemma winners_absorb:
  assumes "winners slot prio S A"
  shows "winners slot prio (insert m S) (absorb slot prio m A)"
proof (cases "A (slot m)")
  case None
  then have "slot x \<noteq> slot m" if "x \<in> S" for x using assms that unfolding winners_def by metis
  then show ?thesis using assms None by (auto simp: winners_def absorb_def)
next
  case (Some w)
  then have w: "w \<in> S" "slot w = slot m" "\<And>x. x \<in> S \<Longrightarrow> slot x = slot m \<Longrightarrow> prio x \<le> prio w"
    using assms unfolding winners_def by blast+
  show ?thesis
  proof (cases "prio w < prio m")
    case True
    then have "prio x \<le> prio m" if "x \<in> S" "slot x = slot m" for x using w(3)[OF that] by simp
    with True Some assms show ?thesis unfolding winners_def absorb_def by (auto split: if_splits)
  next
    case False
    with Some assms w show ?thesis unfolding winners_def absorb_def by auto
  qed
qed

lemma winners_fold: "winners slot prio S A \<Longrightarrow> winners slot prio (set ms \<union> S) (fold (absorb slot prio) ms A)"
proof (induction ms arbitrary: S A)
  case (Cons m ms)
  from Cons.IH[OF winners_absorb[OF Cons.prems]] show ?case by simp
qed simp

lemma winners_le:
  assumes "winners slot prio S A" "winners slot prio S B" "A k = Some w"
    and "\<forall>a\<in>S. \<forall>b\<in>S. slot a = slot b \<longrightarrow> prio a = prio b \<longrightarrow> a = b"
  shows "B k = Some w"
proof -
  have w: "w \<in> S" "slot w = k" "\<And>m. m \<in> S \<Longrightarrow> slot m = k \<Longrightarrow> prio m \<le> prio w"
    using assms(1,3) unfolding winners_def by blast+
  then obtain v where v: "B k = Some v" using assms(2) unfolding winners_def by blast
  then have "v \<in> S" "slot v = k" "prio w \<le> prio v" using assms(2) w(1,2) unfolding winners_def by blast+
  with w assms(4) v show ?thesis by (metis order.antisym)
qed

lemma winners_unique:
  assumes "winners slot prio S A" "winners slot prio S B"
    and "\<forall>a\<in>S. \<forall>b\<in>S. slot a = slot b \<longrightarrow> prio a = prio b \<longrightarrow> a = b"
  shows "A = B"
proof
  fix k
  show "A k = B k"
  proof (cases "A k")
    case None
    then show ?thesis using winners_le[OF assms(2,1) _ assms(3), of k] by (cases "B k") auto
  qed (simp add: winners_le[OF assms(1,2) _ assms(3)])
qed

lemma winners_empty: "winners slot prio {} Map.empty" by (simp add: winners_def)

text \<open>The run in the database.\<close>

definition store_over :: "store_def \<Rightarrow> state_context \<Rightarrow> proto_codec \<Rightarrow> 'e engine_ops \<Rightarrow> 'e \<Rightarrow> 'e store \<Rightarrow> bool" where
  "store_over sd ctx pc ops e st \<longleftrightarrow> st_def st = sd \<and> st_ctx st = ctx \<and> st_codec st = pc \<and> st_ops st = ops
     \<and> st_db st = Some (TransactionDb e) \<and> \<not> conflict_free (st_opts st)"

lemma store_over_uses:
  "store_over sd ctx pc ops e st \<Longrightarrow> engine_laws ops rows einv \<Longrightarrow> einv e \<Longrightarrow> store_uses sd ctx pc st (rows e)"
  by (simp add: store_over_def store_uses_def st_read_def db_get_reads)

lemma merge_all_keeps: "indices_keep (st_def st) \<Longrightarrow> hm_ok (ss_txn s) \<Longrightarrow> hm_ok (ss_txn (merge_all st ms s))"
proof (induction ms arbitrary: s)
  case (Cons m ms)
  then show ?case using store_merge_keeps[of st m] by (simp add: merge_all_def keeps_def)
qed (simp add: merge_all_def)

lemma merge_all_committed:
  assumes "engine_laws ops rows einv" "einv e" "store_over sd ctx pc ops e st" "indices_keep sd" "hm_ok (ss_txn s)"
  obtains e' where "db_commit ops (st_db st) (ss_txn (merge_all st ms s)) = Inr (Some (TransactionDb e'))"
    and "store_uses sd ctx pc (st\<lparr>st_db := Some (TransactionDb e')\<rparr>) (overlay (rows e) (ss_txn (merge_all st ms s)))"
proof -
  have "hm_ok (ss_txn (merge_all st ms s))"
    using merge_all_keeps[of st s ms] assms(3-5) by (simp add: store_over_def)
  from db_commit_rows[OF assms(1,2) hm_ok_distinct[OF this]] obtain e' where
    e': "db_commit ops (Some (TransactionDb e)) (ss_txn (merge_all st ms s)) = Inr (Some (TransactionDb e'))"
      "einv e'" "rows e' = overlay (rows e) (ss_txn (merge_all st ms s))" by blast
  have "store_over sd ctx pc ops e' (st\<lparr>st_db := Some (TransactionDb e')\<rparr>)" using assms(3) by (simp add: store_over_def)
  from store_over_uses[OF this assms(1) e'(2)] e' assms(3) show ?thesis
    by (intro that[of e']) (simp_all add: store_over_def)
qed

section \<open>The contract\<close>

locale message_set =
  fixes sd :: store_def and ctx :: state_context and pc :: proto_codec
    and slot :: "message \<Rightarrow> 'k" and akey rkey :: "'k \<Rightarrow> bytes"
    and valid :: "message \<Rightarrow> bool" and prio :: "message \<Rightarrow> bytes"
  assumes default_conflicts: "sd_get_merge_conflicts sd = None"
    and not_compact: "valid m \<Longrightarrow> \<not> sd_is_compact_state_type sd m"
    and kinds: "valid m \<Longrightarrow> sd_is_add_type sd m \<noteq> (remove_type_supported sd \<and> sd_is_remove_type sd m)"
    and typed: "valid m \<Longrightarrow> stored_in sd m"
    and stored: "valid m \<Longrightarrow> stored_ok pc m"
    and add_key: "valid m \<Longrightarrow> sd_make_add_key sd m ctx = Inr (akey (slot m))"
    and remove_key: "valid m \<Longrightarrow> remove_type_supported sd \<Longrightarrow> sd_make_remove_key sd m ctx = Inr (rkey (slot m))"
    and user_keys: "valid m \<Longrightarrow> user_key ctx (akey (slot m)) \<and> (remove_type_supported sd \<longrightarrow> user_key ctx (rkey (slot m)))"
    and akey_inj: "valid m \<Longrightarrow> valid m' \<Longrightarrow> akey (slot m) = akey (slot m') \<Longrightarrow> slot m = slot m'"
    and rkey_inj: "valid m \<Longrightarrow> valid m' \<Longrightarrow> remove_type_supported sd \<Longrightarrow> rkey (slot m) = rkey (slot m') \<Longrightarrow> slot m = slot m'"
    and keys_disjoint: "valid m \<Longrightarrow> valid m' \<Longrightarrow>
      akey (slot m) \<noteq> msg_row ctx sd m'
        \<and> (remove_type_supported sd \<longrightarrow> akey (slot m) \<noteq> rkey (slot m') \<and> rkey (slot m) \<noteq> msg_row ctx sd m')"
    and slot_fid: "valid m \<Longrightarrow> valid m' \<Longrightarrow> slot m = slot m' \<Longrightarrow> make_fid_key (msg_fid m) = make_fid_key (msg_fid m')"
    and compare: "valid m \<Longrightarrow> valid m' \<Longrightarrow> slot m = slot m' \<Longrightarrow>
      sd_message_compare sd (if sd_is_add_type sd m then sd_add_message_type sd else sd_remove_message_type sd) (msg_ts_hash m)
        (if sd_is_add_type sd m' then sd_add_message_type sd else sd_remove_message_type sd) (msg_ts_hash m')
      = Inr (bytes_compare (prio m) (prio m'))"
    and build_ok: "valid m \<Longrightarrow> sd_is_add_type sd m \<Longrightarrow>
      \<exists>txn'. sd_build_secondary_indices sd (msg_ts_hash m) m ctx txn = (Inr (), txn')
        \<and> (\<forall>k. user_key ctx k \<longrightarrow> map_of txn' k = map_of txn k)"
    and delete_ok: "valid m \<Longrightarrow> sd_is_add_type sd m \<Longrightarrow>
      \<exists>txn'. sd_delete_secondary_indices sd (msg_ts_hash m) m ctx txn = (Inr (), txn')
        \<and> (\<forall>k. user_key ctx k \<longrightarrow> map_of txn' k = map_of txn k)"
    and event_kinds: "ev_type (sd_merge_event_args sd m ws) \<noteq> BlockConfirmed"
      "ev_type (sd_revoke_event_args sd m) \<noteq> BlockConfirmed" "ev_type (sd_prune_event_args sd m) \<noteq> BlockConfirmed"
begin

abbreviation "row \<equiv> msg_row ctx sd"
abbreviation "is_add \<equiv> sd_is_add_type sd"
abbreviation "removes \<equiv> remove_type_supported sd"
abbreviation "uses \<equiv> store_uses sd ctx pc"
abbreviation "cell \<equiv> slot_rows sd ctx pc akey rkey"
abbreviation "holds \<equiv> store_holds sd ctx pc slot akey rkey valid"
abbreviation "verdict \<equiv> slot_verdict sd slot prio"

text \<open>The index row of a message.\<close>

definition ikey :: "message \<Rightarrow> bytes" where
  "ikey m = (if is_add m then akey (slot m) else rkey (slot m))"

lemma holdsD:
  assumes "holds rows A"
  shows "A k = Some w \<Longrightarrow> valid w \<and> slot w = k"
    and "valid m \<Longrightarrow> cell rows A (slot m)"
    and "A k = Some w \<Longrightarrow> A k' = Some w' \<Longrightarrow> row w = row w' \<Longrightarrow> k = k'"
    and "valid m \<Longrightarrow> rows (row m) \<noteq> None \<Longrightarrow> \<exists>k w. A k = Some w \<and> row w = row m"
  using assms unfolding store_holds_def by blast+

lemma holds_cong:
  assumes "holds rows A" "\<And>k. user_key ctx k \<Longrightarrow> rows' k = rows k"
  shows "holds rows' A"
proof -
  have "cell rows' A (slot m) = cell rows A (slot m)" if "valid m" for m
    using user_keys[OF that] assms(2) by (simp add: slot_rows_def split: option.split)
  moreover have "rows' (row m) = rows (row m)" for m by (rule assms(2)) simp
  ultimately show ?thesis using assms(1) unfolding store_holds_def by simp
qed

lemma remove_kind: "valid m \<Longrightarrow> \<not> is_add m \<Longrightarrow> removes \<and> sd_is_remove_type sd m"
  using kinds by blast

lemma add_kind: "valid m \<Longrightarrow> is_add m \<Longrightarrow> \<not> (removes \<and> sd_is_remove_type sd m)"
  using kinds by blast

lemma ikey_user: "valid m \<Longrightarrow> user_key ctx (ikey m)"
  using user_keys remove_kind by (simp add: ikey_def)

lemma ikey_ne_row: "valid m \<Longrightarrow> valid m' \<Longrightarrow> ikey m \<noteq> row m'"
  using keys_disjoint remove_kind by (simp add: ikey_def)

subsection \<open>Writes\<close>

lemma delete_one_ok:
  assumes "uses st m0" "valid w"
  shows "\<exists>txn'. delete_one st w txn = (Inr (), txn')
    \<and> (\<forall>k. user_key ctx k \<longrightarrow> map_of txn' k = (if k = ikey w \<or> k = row w then Some None else map_of txn k))"
proof -
  note [simp] = bind_st_def stored_inD[OF typed[OF assms(2)]] delete_message_transaction_with_prefix_def user_prefix_def
    not_compact[OF assms(2)] add_key[OF assms(2)] assms(1)[unfolded store_uses_def]
  show ?thesis
  proof (cases "is_add w")
    case True
    from delete_ok[OF assms(2) True] obtain t1 where t1: "sd_delete_secondary_indices sd (msg_ts_hash w) w ctx txn = (Inr (), t1)"
      "\<forall>k. user_key ctx k \<longrightarrow> map_of t1 k = map_of txn k" by blast
    then show ?thesis using True add_kind[OF assms(2) True]
      by (auto simp: delete_one_def delete_add_transaction_def ikey_def)
  next
    case False
    then show ?thesis using remove_kind[OF assms(2) False] remove_key[OF assms(2)]
      by (auto simp: delete_one_def delete_remove_transaction_def ikey_def)
  qed
qed

lemma put_ok:
  assumes "uses st m0" "valid m"
  shows "\<exists>txn'. (if is_add m then put_add_transaction st (msg_ts_hash m) m else put_remove_transaction st (msg_ts_hash m) m) txn
      = (Inr (), txn')
    \<and> (\<forall>k. user_key ctx k \<longrightarrow> map_of txn' k =
         (if k = ikey m then Some (Some (msg_ts_hash m)) else if k = row m then Some (Some (message_encode pc m)) else map_of txn k))"
proof -
  note [simp] = bind_st_def stored_inD[OF typed[OF assms(2)]] put_message_transaction_with_prefix_def user_prefix_def
    add_key[OF assms(2)] assms(1)[unfolded store_uses_def]
  show ?thesis
  proof (cases "is_add m")
    case True
    let ?t = "txn_put (txn_put txn (row m) (message_encode pc m)) (akey (slot m)) (msg_ts_hash m)"
    from build_ok[OF assms(2) True, of ?t] obtain t1 where
      "sd_build_secondary_indices sd (msg_ts_hash m) m ctx ?t = (Inr (), t1)"
      "\<forall>k. user_key ctx k \<longrightarrow> map_of t1 k = map_of ?t k" by blast
    then show ?thesis using True by (auto simp: put_add_transaction_def ikey_def)
  next
    case False
    then show ?thesis using remove_kind[OF assms(2) False] remove_key[OF assms(2)]
      by (auto simp: put_remove_transaction_def ikey_def)
  qed
qed

subsection \<open>The abstract state under a write\<close>

lemma ikey_distinct:
  assumes "valid m" "valid m'" "slot m' \<noteq> slot m"
  shows "akey (slot m') \<noteq> ikey m" "removes \<Longrightarrow> rkey (slot m') \<noteq> ikey m"
proof -
  show "akey (slot m') \<noteq> ikey m"
    using akey_inj[OF assms(2,1)] keys_disjoint[OF assms(2,1)] remove_kind[OF assms(1)] assms(3) by (auto simp: ikey_def)
  assume removes
  with rkey_inj[OF assms(2,1)] keys_disjoint[OF assms(1,2)] assms(3) show "rkey (slot m') \<noteq> ikey m"
    by (auto simp: ikey_def dest: sym)
qed

lemma holds_insert:
  assumes "holds rows A" "valid m" "A (slot m) = None" "\<And>k w. A k = Some w \<Longrightarrow> row w \<noteq> row m"
    and rows': "\<And>k. user_key ctx k \<Longrightarrow> rows' k =
      (if k = ikey m then Some (msg_ts_hash m) else if k = row m then Some (message_encode pc m) else rows k)"
  shows "holds rows' (A(slot m \<mapsto> m))"
  unfolding store_holds_def
proof (intro conjI allI impI)
  fix m' assume m': "valid m'"
  note uk = user_keys[OF m'] user_keys[OF assms(2)]
  show "cell rows' (A(slot m \<mapsto> m)) (slot m')"
  proof (cases "slot m' = slot m")
    case True
    have c: "rows (akey (slot m)) = None" "removes \<longrightarrow> rows (rkey (slot m)) = None"
      using holdsD(2)[OF assms(1,2)] assms(3) by (simp_all add: slot_rows_def)
    have n: "row m \<noteq> ikey m" "akey (slot m) \<noteq> row m" "removes \<longrightarrow> rkey (slot m) \<noteq> row m \<and> akey (slot m) \<noteq> rkey (slot m)"
      using ikey_ne_row[OF assms(2,2)] keys_disjoint[OF assms(2,2)] by auto
    show ?thesis using c n uk True remove_kind[OF assms(2)] by (auto simp: slot_rows_def rows' ikey_def)
  next
    case False
    have "rows' (akey (slot m')) = rows (akey (slot m'))" "removes \<longrightarrow> rows' (rkey (slot m')) = rows (rkey (slot m'))"
      using ikey_distinct[OF assms(2) m' False] keys_disjoint[OF m' assms(2)] uk by (simp_all add: rows')
    moreover have "rows' (row w) = rows (row w)" if "A (slot m') = Some w" for w
      using assms(4)[OF that] ikey_ne_row[OF assms(2), of w] holdsD(1)[OF assms(1) that] by (auto simp: rows')
    ultimately show ?thesis using holdsD(2)[OF assms(1) m'] False by (auto simp: slot_rows_def split: option.splits)
  qed
next
  fix m' assume m': "valid m'" "rows' (row m') \<noteq> None"
  show "\<exists>k w. (A(slot m \<mapsto> m)) k = Some w \<and> row w = row m'"
  proof (cases "row m' = row m")
    case False
    have "rows (row m') \<noteq> None" using m'(2) False ikey_ne_row[OF assms(2) m'(1)] by (auto simp: rows' split: if_splits)
    from holdsD(4)[OF assms(1) m'(1) this] obtain k w where "A k = Some w" "row w = row m'" by blast
    then show ?thesis using assms(3) by (intro exI[of _ k] exI[of _ w]) auto
  qed (intro exI[of _ "slot m"] exI[of _ m], simp)
next
  fix k w assume "(A(slot m \<mapsto> m)) k = Some w"
  then show "valid w" "slot w = k" using assms(2) holdsD(1)[OF assms(1)] by (auto split: if_splits)
next
  fix k k' w w' assume "(A(slot m \<mapsto> m)) k = Some w" "(A(slot m \<mapsto> m)) k' = Some w'" "row w = row w'"
  then show "k = k'" using assms(4) holdsD(3)[OF assms(1)] by (auto split: if_splits)
qed

lemma holds_remove:
  assumes "holds rows A" "A k0 = Some w0"
    and rows': "\<And>k. user_key ctx k \<Longrightarrow> rows' k = (if k = ikey w0 \<or> k = row w0 then None else rows k)"
  shows "holds rows' (A(k0 := None))"
  unfolding store_holds_def
proof (intro conjI allI impI)
  have w0: "valid w0" "slot w0 = k0" using holdsD(1)[OF assms(1,2)] by auto
  fix m' assume m': "valid m'"
  note uk = user_keys[OF m'] user_keys[OF w0(1)]
  show "cell rows' (A(k0 := None)) (slot m')"
  proof (cases "slot m' = k0")
    case True
    have c: "cell rows A k0" using holdsD(2)[OF assms(1) w0(1)] w0(2) by simp
    show ?thesis using c assms(2) uk True w0(2) by (auto simp: slot_rows_def rows' ikey_def split: if_splits)
  next
    case False
    have "rows' (akey (slot m')) = rows (akey (slot m'))" "removes \<longrightarrow> rows' (rkey (slot m')) = rows (rkey (slot m'))"
      using ikey_distinct[OF w0(1) m'] False w0(2) keys_disjoint[OF m' w0(1)] uk by (simp_all add: rows')
    moreover have "rows' (row w) = rows (row w)" if "A (slot m') = Some w" for w
    proof -
      have "row w \<noteq> row w0" using holdsD(3)[OF assms(1) that assms(2)] False by blast
      then show ?thesis using ikey_ne_row[OF w0(1), of w] holdsD(1)[OF assms(1) that] by (auto simp: rows')
    qed
    ultimately show ?thesis using holdsD(2)[OF assms(1) m'] False by (auto simp: slot_rows_def split: option.splits)
  qed
next
  fix m' assume m': "valid m'" "rows' (row m') \<noteq> None"
  then have ne: "row m' \<noteq> row w0" "rows (row m') \<noteq> None" by (auto simp: rows' split: if_splits)
  from holdsD(4)[OF assms(1) m'(1) ne(2)] obtain k w where "A k = Some w" "row w = row m'" by blast
  with ne(1) assms(2) show "\<exists>k w. (A(k0 := None)) k = Some w \<and> row w = row m'" by (intro exI[of _ k] exI[of _ w]) auto
next
  fix k w assume "(A(k0 := None)) k = Some w"
  then show "valid w" "slot w = k" using holdsD(1)[OF assms(1)] by (auto split: if_splits)
next
  fix k k' w w' assume "(A(k0 := None)) k = Some w" "(A(k0 := None)) k' = Some w'" "row w = row w'"
  then show "k = k'" using holdsD(3)[OF assms(1)] by (auto split: if_splits)
qed

subsection \<open>Reads\<close>

lemma read_stored:
  assumes "holds (overlay m0 txn) A" "A k = Some w" "make_fid_key fid = make_fid_key (msg_fid w)"
  shows "get_message_with_prefix pc (reads m0) txn (ctx_root_prefix ctx Rp_User) fid (sd_postfix sd) (msg_ts_hash w) = Inr (Some w)"
proof -
  have w: "valid w" "slot w = k" using holdsD(1)[OF assms(1,2)] by auto
  have "make_message_primary_key_with_prefix (ctx_root_prefix ctx Rp_User) fid (sd_postfix sd) (Some (msg_ts_hash w)) = row w"
    using assms(3) by (simp add: msg_row_def make_message_primary_key_with_prefix_def make_user_key_with_prefix_def)
  moreover have "overlay m0 txn (row w) = Some (message_encode pc w)"
    using holdsD(2)[OF assms(1) w(1)] assms(2) w(2) by (simp add: slot_rows_def)
  moreover have "message_decode_res pc (message_encode pc w) = Inr w"
    using stored[OF w(1)] by (simp add: message_decode_res_def stored_ok_def)
  ultimately show ?thesis by (simp add: get_message_with_prefix_def get_message_by_key_def)
qed

lemma vec_to_u8_24_ts: "valid w \<Longrightarrow> vec_to_u8_24 (Some (msg_ts_hash w)) = Inr (msg_ts_hash w)"
  using stored_inD(2)[OF typed] by (simp add: vec_to_u8_24_def)

text \<open>Following an index row of a slot.\<close>

lemma get_indexed_ok:
  assumes "uses st m0" "holds (overlay m0 txn) A" "valid m" "m_data p = Some d" "make_fid_key (md_fid d) = make_fid_key (msg_fid m)"
  shows "get_indexed st txn p (akey (slot m)) = Inr (case A (slot m) of Some w \<Rightarrow> if is_add w then Some w else None | None \<Rightarrow> None)"
    and "removes \<Longrightarrow> get_indexed st txn p (rkey (slot m)) = Inr (case A (slot m) of Some w \<Rightarrow> if is_add w then None else Some w | None \<Rightarrow> None)"
proof -
  note c = holdsD(2)[OF assms(2,3)]
  have rd: "get_message_with_prefix pc (reads m0) txn (ctx_root_prefix ctx Rp_User) (md_fid d) (sd_postfix sd) (msg_ts_hash w) = Inr (Some w)"
    "vec_to_u8_24 (Some (msg_ts_hash w)) = Inr (msg_ts_hash w)"
    if "A (slot m) = Some w" for w
  proof -
    have w: "valid w" "slot w = slot m" using holdsD(1)[OF assms(2) that] by auto
    show "vec_to_u8_24 (Some (msg_ts_hash w)) = Inr (msg_ts_hash w)" by (rule vec_to_u8_24_ts[OF w(1)])
    have "make_fid_key (md_fid d) = make_fid_key (msg_fid w)" using slot_fid[OF assms(3) w(1)] w(2) assms(5) by simp
    from read_stored[OF assms(2) that this]
    show "get_message_with_prefix pc (reads m0) txn (ctx_root_prefix ctx Rp_User) (md_fid d) (sd_postfix sd) (msg_ts_hash w) = Inr (Some w)" .
  qed
  show "get_indexed st txn p (akey (slot m)) = Inr (case A (slot m) of Some w \<Rightarrow> if is_add w then Some w else None | None \<Rightarrow> None)"
    using c rd assms(1,4) by (auto simp: get_indexed_def store_uses_def slot_rows_def user_prefix_def split: option.splits)
  show "get_indexed st txn p (rkey (slot m)) = Inr (case A (slot m) of Some w \<Rightarrow> if is_add w then None else Some w | None \<Rightarrow> None)" if removes
    using c rd assms(1,4) that by (auto simp: get_indexed_def store_uses_def slot_rows_def user_prefix_def split: option.splits)
qed

lemma get_add_ok:
  assumes "uses st m0" "holds (overlay m0 txn) A" "valid m" "m_data p = Some d" "make_fid_key (md_fid d) = make_fid_key (msg_fid m)"
    and "md_fid d \<noteq> 0" "sd_make_add_key sd p ctx = Inr (akey (slot m))"
  shows "get_add st p (Some txn) = Inr (case A (slot m) of Some w \<Rightarrow> if is_add w then Some w else None | None \<Rightarrow> None)"
  using get_indexed_ok(1)[OF assms(1-5)] assms(1,4,6,7) by (simp add: get_add_def fid_missing_def store_uses_def)

lemma get_remove_ok:
  assumes "uses st m0" "holds m0 A" "valid m" "m_data p = Some d" "make_fid_key (md_fid d) = make_fid_key (msg_fid m)"
    and "md_fid d \<noteq> 0" "sd_make_remove_key sd p ctx = Inr (rkey (slot m))" "removes"
  shows "get_remove st p = Inr (case A (slot m) of Some w \<Rightarrow> if is_add w then None else Some w | None \<Rightarrow> None)"
proof -
  have "holds (overlay m0 txn_new) A" using assms(2) by simp
  from get_indexed_ok(2)[OF assms(1) this assms(3-5,8)] show ?thesis
    using assms(1,4,6-8) by (simp add: get_remove_def fid_missing_def store_uses_def)
qed

subsection \<open>Conflicts\<close>

lemma index_conflict_hit:
  assumes "holds (overlay m0 txn) A" "valid m" "A (slot m) = Some w" "overlay m0 txn key = Some (msg_ts_hash w)"
    and "ty = (if is_add w then sd_add_message_type sd else sd_remove_message_type sd)" "txt = conflict_text sd w"
  shows "index_conflict sd pc (reads m0) txn m (msg_ts_hash m) ctx ty key txt = verdict A m"
proof -
  have w: "valid w" "slot w = slot m" using holdsD(1)[OF assms(1,3)] by auto
  from typed[OF assms(2)] obtain d t where d: "m_data m = Some d" "md_type d = message_type_i32 t"
    "message_type_u8 t = (if is_add m then sd_add_message_type sd else sd_remove_message_type sd)"
    by (auto simp: stored_in_def)
  have "md_fid d = msg_fid m" using d(1) by (simp add: msg_fid_def)
  then have "make_fid_key (md_fid d) = make_fid_key (msg_fid w)" using slot_fid[OF assms(2) w(1)] w(2) by simp
  note rd = read_stored[OF assms(1,3) this] vec_to_u8_24_ts[OF w(1)]
  have "sd_message_compare sd ty (msg_ts_hash w) (message_type_u8 t) (msg_ts_hash m) = Inr (bytes_compare (prio w) (prio m))"
    using compare[OF w(1) assms(2) w(2)] assms(5) d(3) by simp
  then show ?thesis
    using rd d assms(3,4,6) by (simp add: index_conflict_def slot_verdict_def)
qed

lemma index_conflict_miss:
  "overlay m0 txn key = None \<Longrightarrow> index_conflict sd pc (reads m0) txn m (msg_ts_hash m) ctx ty key txt = Inr []"
  by (simp add: index_conflict_def)

lemma conflicts_ok:
  assumes "holds (overlay m0 txn) A" "valid m"
  shows "get_merge_conflicts sd pc (reads m0) txn m (msg_ts_hash m) ctx = verdict A m"
proof -
  have g: "get_merge_conflicts sd = default_get_merge_conflicts sd" by (simp add: get_merge_conflicts_def default_conflicts)
  note c = holdsD(2)[OF assms]
  show ?thesis
  proof (cases "A (slot m)")
    case None
    then show ?thesis using c add_key[OF assms(2)] remove_key[OF assms(2)]
      by (simp add: g default_get_merge_conflicts_def index_conflict_miss slot_rows_def slot_verdict_def)
  next
    case (Some w)
    note hit = index_conflict_hit[OF assms Some]
    show ?thesis
    proof (cases "is_add w")
      case True
      have "overlay m0 txn (akey (slot m)) = Some (msg_ts_hash w)" using c Some True by (simp add: slot_rows_def)
      from hit[OF this] True have "index_conflict sd pc (reads m0) txn m (msg_ts_hash m) ctx (sd_add_message_type sd)
          (akey (slot m)) ''message conflicts with a more recent add'' = verdict A m" by (simp add: conflict_text_def)
      moreover have "removes \<Longrightarrow> overlay m0 txn (rkey (slot m)) = None" using c Some True by (simp add: slot_rows_def)
      ultimately show ?thesis using add_key[OF assms(2)] remove_key[OF assms(2)]
        by (cases "verdict A m") (simp_all add: g default_get_merge_conflicts_def index_conflict_miss)
    next
      case False
      have rem: removes using remove_kind[of w] holdsD(1)[OF assms(1) Some] False by simp
      have "overlay m0 txn (rkey (slot m)) = Some (msg_ts_hash w)" using c Some False rem by (simp add: slot_rows_def)
      from hit[OF this] False have "index_conflict sd pc (reads m0) txn m (msg_ts_hash m) ctx (sd_remove_message_type sd)
          (rkey (slot m)) ''message conflicts with a more recent remove'' = verdict A m" by (simp add: conflict_text_def)
      moreover have "overlay m0 txn (akey (slot m)) = None" using c Some False rem by (simp add: slot_rows_def)
      ultimately show ?thesis using add_key[OF assms(2)] remove_key[OF assms(2)] rem
        by (cases "verdict A m") (simp_all add: g default_get_merge_conflicts_def index_conflict_miss)
    qed
  qed
qed

subsection \<open>Merge\<close>

text \<open>The test against a compact state; without one it is passed.\<close>

definition passes :: "'e store \<Rightarrow> message \<Rightarrow> txn_batch \<Rightarrow> bool" where
  "passes st m txn \<longleftrightarrow> (if is_add m then check_add_compact st m txn else check_remove_compact st m txn) = Inr ()"

lemma passes_trivial: "uses st m0 \<Longrightarrow> \<not> compact_state_type_supported sd \<Longrightarrow> passes st m txn"
  by (simp add: passes_def check_add_compact_def check_remove_compact_def current_compact_state_def store_uses_def)

lemma store_merge_eq:
  assumes "uses st m0" "valid m" "passes st m (ss_txn s)"
  shows "store_merge st m s = bind_st (clear_conflicts st (msg_ts_hash m) m) (\<lambda>ws.
    bind_st (on_txn (if is_add m then put_add_transaction st (msg_ts_hash m) m else put_remove_transaction st (msg_ts_hash m) m))
      (\<lambda>_. finish_merge st m ws)) s"
proof (cases "is_add m")
  case True
  then show ?thesis
    using assms(1,3) not_compact[OF assms(2)] stored_inD(1)[OF typed[OF assms(2)]]
    by (simp add: store_merge_def store_uses_def merge_add_def passes_def)
next
  case False
  then show ?thesis
    using assms(1,3) not_compact[OF assms(2)] stored_inD(1)[OF typed[OF assms(2)]] remove_kind[OF assms(2)]
    by (simp add: store_merge_def store_uses_def merge_remove_def passes_def)
qed

text \<open>A message the compact state refuses changes nothing.\<close>

lemma merge_refused:
  assumes "uses st m0" "valid m"
    and "(if is_add m then check_add_compact st m txn else check_remove_compact st m txn) = Inl e" "txn = ss_txn s"
  shows "store_merge st m s = (Inl e, s)"
  using assms not_compact[OF assms(2)] stored_inD(1)[OF typed[OF assms(2)]] remove_kind[OF assms(2)]
  by (cases "is_add m") (simp_all add: store_merge_def store_uses_def merge_add_def merge_remove_def)

lemma clear_conflicts_err:
  assumes "uses st m0" "holds (overlay m0 (ss_txn s)) A" "valid m" "verdict A m = Inl e"
  shows "clear_conflicts st (msg_ts_hash m) m s = (Inl e, s)"
  using assms(1,4) conflicts_ok[OF assms(2,3)] by (simp add: clear_conflicts_def store_uses_def)

lemma clear_conflicts_ok:
  assumes "uses st m0" "holds (overlay m0 (ss_txn s)) A" "valid m" "verdict A m = Inr ws"
  shows "\<exists>txn'. clear_conflicts st (msg_ts_hash m) m s = (Inr ws, s\<lparr>ss_txn := txn'\<rparr>)
    \<and> holds (overlay m0 txn') (A(slot m := None))"
proof (cases "A (slot m)")
  case None
  with assms(4) have "ws = []" by (simp add: slot_verdict_def)
  moreover have "A(slot m := None) = A" using None by auto
  ultimately show ?thesis using assms(1,2,4) conflicts_ok[OF assms(2,3)]
    by (intro exI[of _ "ss_txn s"]) (simp add: clear_conflicts_def store_uses_def delete_many_transaction_def bind_st_def on_txn_def on_part_def)
next
  case (Some w)
  with assms(4) have ws: "ws = [w]" by (auto simp: slot_verdict_def hub_err_def split: if_splits)
  have w: "valid w" "slot w = slot m" using holdsD(1)[OF assms(2) Some] by auto
  from delete_one_ok[OF assms(1) w(1)] obtain txn' where
    t: "delete_one st w (ss_txn s) = (Inr (), txn')"
      "\<forall>k. user_key ctx k \<longrightarrow> map_of txn' k = (if k = ikey w \<or> k = row w then Some None else map_of (ss_txn s) k)" by blast
  have "holds (overlay m0 txn') (A(slot m := None))"
    by (rule holds_remove[OF assms(2) Some]) (simp add: overlay_def t(2))
  moreover have "clear_conflicts st (msg_ts_hash m) m s = (Inr ws, s\<lparr>ss_txn := txn'\<rparr>)"
    using assms(1,4) conflicts_ok[OF assms(2,3)] ws t(1)
    by (simp add: clear_conflicts_def store_uses_def delete_many_transaction_def bind_st_def on_txn_def on_part_def)
  ultimately show ?thesis by blast
qed

lemma merge_rejected:
  assumes "uses st m0" "holds (overlay m0 (ss_txn s)) A" "valid m" "passes st m (ss_txn s)" "verdict A m = Inl e"
  shows "store_merge st m s = (Inl e, s)"
  using store_merge_eq[OF assms(1,3,4)] clear_conflicts_err[OF assms(1-3,5)] by (simp add: bind_st_def)

lemma merge_accepted:
  assumes "uses st m0" "holds (overlay m0 (ss_txn s)) A" "valid m" "passes st m (ss_txn s)" "verdict A m = Inr ws"
    and "event_room (Suc n) (ss_gen s)" "\<forall>k w. A k = Some w \<longrightarrow> row w = row m \<longrightarrow> k = slot m"
  shows "\<exists>i s'. store_merge st m s = (Inr ((sd_merge_event_args sd m ws)\<lparr>ev_id := i\<rparr>), s')
    \<and> holds (overlay m0 (ss_txn s')) (A(slot m \<mapsto> m)) \<and> event_room n (ss_gen s')"
proof -
  from clear_conflicts_ok[OF assms(1-3,5)] obtain t1 where
    t1: "clear_conflicts st (msg_ts_hash m) m s = (Inr ws, s\<lparr>ss_txn := t1\<rparr>)" "holds (overlay m0 t1) (A(slot m := None))" by blast
  from put_ok[OF assms(1,3), of t1] obtain t2 where
    t2: "(if is_add m then put_add_transaction st (msg_ts_hash m) m else put_remove_transaction st (msg_ts_hash m) m) t1 = (Inr (), t2)"
      "\<forall>k. user_key ctx k \<longrightarrow> map_of t2 k = (if k = ikey m then Some (Some (msg_ts_hash m))
        else if k = row m then Some (Some (message_encode pc m)) else map_of t1 k)" by blast
  have h2: "holds (overlay m0 t2) (A(slot m \<mapsto> m))"
  proof -
    have "holds (overlay m0 t2) ((A(slot m := None))(slot m \<mapsto> m))"
      by (rule holds_insert[OF t1(2) assms(3)]) (use assms(7) in \<open>auto simp: overlay_def t2(2) split: if_splits\<close>)
    then show ?thesis by simp
  qed
  have p: "on_txn (if is_add m then put_add_transaction st (msg_ts_hash m) m else put_remove_transaction st (msg_ts_hash m) m)
      (s\<lparr>ss_txn := t1\<rparr>) = (Inr (), s\<lparr>ss_txn := t2\<rparr>)"
    using t2(1) by (simp add: on_txn_def on_part_def)
  have eq: "store_merge st m s = finish_merge st m ws (s\<lparr>ss_txn := t2\<rparr>)"
    unfolding store_merge_eq[OF assms(1,3,4)] using t1(1) p by (simp add: bind_st_def)
  show ?thesis
  proof (cases "save_hub_events (st_opts st)")
    case True
    have "event_room (Suc n) (ss_gen (s\<lparr>ss_txn := t2\<rparr>))" using assms(6) by simp
    from commit_room[OF this event_kinds(1)[of m ws], of pc "st_no_persist st" ctx] obtain i s' where
      c: "commit_transaction pc (st_no_persist st) (sd_merge_event_args sd m ws) (s\<lparr>ss_txn := t2\<rparr>)
          = (Inr ((sd_merge_event_args sd m ws)\<lparr>ev_id := i\<rparr>), s')" "event_room n (ss_gen s')"
        "\<forall>k. user_key ctx k \<longrightarrow> map_of (ss_txn s') k = map_of t2 k" by auto
    have "holds (overlay m0 (ss_txn s')) (A(slot m \<mapsto> m))" by (rule holds_cong[OF h2]) (simp add: overlay_def c(3))
    with c eq True assms(1) show ?thesis by (auto simp: finish_merge_def store_uses_def)
  next
    case False
    have "(sd_merge_event_args sd m ws)\<lparr>ev_id := ev_id (sd_merge_event_args sd m ws)\<rparr> = sd_merge_event_args sd m ws" by simp
    moreover have "event_room n (ss_gen s)" using assms(6) by (simp add: event_room_def)
    ultimately show ?thesis using eq False assms(1) h2
      by (intro exI[of _ "ev_id (sd_merge_event_args sd m ws)"] exI[of _ "s\<lparr>ss_txn := t2\<rparr>"]) (simp add: finish_merge_def store_uses_def)
  qed
qed

subsection \<open>Revoke\<close>

lemma revoke_ok:
  assumes "uses st m0" "holds (overlay m0 (ss_txn s)) A" "A (slot w) = Some w" "event_room (Suc n) (ss_gen s)"
  shows "\<exists>i s'. store_revoke st w s = (Inr ((sd_revoke_event_args sd w)\<lparr>ev_id := i\<rparr>), s')
    \<and> holds (overlay m0 (ss_txn s')) (A(slot w := None)) \<and> event_room n (ss_gen s')"
proof -
  have w: "valid w" using holdsD(1)[OF assms(2,3)] by auto
  from delete_one_ok[OF assms(1) w] obtain t1 where
    t1: "delete_one st w (ss_txn s) = (Inr (), t1)"
      "\<forall>k. user_key ctx k \<longrightarrow> map_of t1 k = (if k = ikey w \<or> k = row w then Some None else map_of (ss_txn s) k)" by blast
  have h1: "holds (overlay m0 t1) (A(slot w := None))"
    by (rule holds_remove[OF assms(2,3)]) (simp add: overlay_def t1(2))
  have "on_txn (if is_add w then delete_add_transaction st (msg_ts_hash w) w else delete_remove_transaction st w) s
      = (Inr (), s\<lparr>ss_txn := t1\<rparr>)"
    using t1(1) assms(1) not_compact[OF w] stored_inD(1)[OF typed[OF w]] add_kind[OF w] remove_kind[OF w]
    by (auto simp: on_txn_def on_part_def delete_one_def store_uses_def bind_st_def split: if_splits prod.splits sum.splits)
  then have eq: "store_revoke st w s = commit_transaction pc (st_no_persist st) (sd_revoke_event_args sd w) (s\<lparr>ss_txn := t1\<rparr>)"
    using assms(1) not_compact[OF w] stored_inD(1)[OF typed[OF w]] remove_kind[OF w]
    by (cases "is_add w") (simp_all add: store_revoke_def store_uses_def bind_st_def)
  have "event_room (Suc n) (ss_gen (s\<lparr>ss_txn := t1\<rparr>))" using assms(4) by simp
  from commit_room[OF this event_kinds(2)[of w], of pc "st_no_persist st" ctx] obtain i s' where
    c: "commit_transaction pc (st_no_persist st) (sd_revoke_event_args sd w) (s\<lparr>ss_txn := t1\<rparr>)
        = (Inr ((sd_revoke_event_args sd w)\<lparr>ev_id := i\<rparr>), s')" "event_room n (ss_gen s')"
      "\<forall>k. user_key ctx k \<longrightarrow> map_of (ss_txn s') k = map_of t1 k" by auto
  have "holds (overlay m0 (ss_txn s')) (A(slot w := None))" by (rule holds_cong[OF h1]) (simp add: overlay_def c(3))
  with c eq show ?thesis by auto
qed

subsection \<open>Runs of merges\<close>

lemma merge_absorb:
  assumes "uses st m0" "holds (overlay m0 (ss_txn s)) A" "valid m" "passes st m (ss_txn s)" "event_room (Suc n) (ss_gen s)"
    and "\<forall>k w. A k = Some w \<longrightarrow> row w = row m \<longrightarrow> k = slot m"
  shows "holds (overlay m0 (ss_txn (snd (store_merge st m s)))) (absorb slot prio m A)
    \<and> event_room n (ss_gen (snd (store_merge st m s)))"
proof (cases "verdict A m")
  case (Inl e)
  then have "absorb slot prio m A = A"
    by (auto simp: slot_verdict_def absorb_def split: option.splits if_splits)
  moreover have "event_room n (ss_gen s)" using assms(5) by (simp add: event_room_def)
  ultimately show ?thesis using merge_rejected[OF assms(1-4) Inl] assms(2) by simp
next
  case (Inr ws)
  then have "absorb slot prio m A = A(slot m \<mapsto> m)"
    by (auto simp: slot_verdict_def absorb_def hub_err_def not_less split: option.splits if_splits)
  then show ?thesis using merge_accepted[OF assms(1-4) Inr assms(5,6)] by force
qed

lemma merge_all_ok:
  assumes "uses st m0" "\<not> compact_state_type_supported sd" "holds (overlay m0 (ss_txn s)) A" "\<forall>m\<in>set ms. valid m"
    and "event_room (length ms) (ss_gen s)" "ran A \<union> set ms \<subseteq> W"
    and "\<forall>a\<in>W. \<forall>b\<in>W. row a = row b \<longrightarrow> slot a = slot b"
  shows "holds (overlay m0 (ss_txn (merge_all st ms s))) (fold (absorb slot prio) ms A)"
  using assms(3-6)
proof (induction ms arbitrary: s A)
  case (Cons m ms)
  have m: "valid m" "m \<in> W" using Cons.prems(2,4) by auto
  have "\<forall>k w. A k = Some w \<longrightarrow> row w = row m \<longrightarrow> k = slot m"
  proof (intro allI impI)
    fix k w
    assume w: "A k = Some w" "row w = row m"
    then have "w \<in> W" using Cons.prems(4) by (auto simp: ran_def)
    with assms(7) m(2) w(2) have "slot w = slot m" by blast
    with holdsD(1)[OF Cons.prems(1) w(1)] show "k = slot m" by simp
  qed
  from merge_absorb[OF assms(1) Cons.prems(1) m(1) passes_trivial[OF assms(1,2)] Cons.prems(3)[simplified] this]
  have n: "holds (overlay m0 (ss_txn (snd (store_merge st m s)))) (absorb slot prio m A)"
    "event_room (length ms) (ss_gen (snd (store_merge st m s)))" by blast+
  have "ran (absorb slot prio m A) \<subseteq> insert m (ran A)"
    by (auto simp: absorb_def ran_def split: option.splits if_splits)
  then show ?case using Cons.IH[OF n(1) _ n(2)] Cons.prems(2,4) by (auto simp: merge_all_def)
qed (simp add: merge_all_def)

text \<open>Into an empty store, the outcome of a run is a function of the set of messages.\<close>

lemma merge_all_winners:
  assumes "uses st m0" "\<not> compact_state_type_supported sd" "holds (overlay m0 (ss_txn s)) Map.empty" "\<forall>m\<in>set ms. valid m"
    and "event_room (length ms) (ss_gen s)" "\<forall>a\<in>set ms. \<forall>b\<in>set ms. row a = row b \<longrightarrow> slot a = slot b"
  shows "\<exists>A. winners slot prio (set ms) A \<and> holds (overlay m0 (ss_txn (merge_all st ms s))) A"
proof -
  have "holds (overlay m0 (ss_txn (merge_all st ms s))) (fold (absorb slot prio) ms Map.empty)"
    by (rule merge_all_ok[OF assms(1-3) _ assms(5) _ assms(6)]) (use assms(4) in auto)
  moreover have "winners slot prio (set ms) (fold (absorb slot prio) ms Map.empty)"
    using winners_fold[OF winners_empty, of slot prio ms] by simp
  ultimately show ?thesis by blast
qed

text \<open>What a reader finds once the run is in the database.\<close>

lemma read_winner:
  assumes "uses st m0" "\<not> compact_state_type_supported sd" "holds (overlay m0 (ss_txn s)) Map.empty" "\<forall>m\<in>set ms. valid m"
    and "event_room (length ms) (ss_gen s)" "\<forall>a\<in>set ms. \<forall>b\<in>set ms. row a = row b \<longrightarrow> slot a = slot b"
    and "m \<in> set ms" "uses st' (overlay m0 (ss_txn (merge_all st ms s)))"
  obtains w where "w \<in> set ms" "slot w = slot m" "\<forall>x\<in>set ms. slot x = slot m \<longrightarrow> prio x \<le> prio w"
    and "\<And>p d. m_data p = Some d \<Longrightarrow> md_fid d = msg_fid m \<Longrightarrow> md_fid d \<noteq> 0 \<Longrightarrow> sd_make_add_key sd p ctx = Inr (akey (slot m))
      \<Longrightarrow> get_add st' p None = Inr (if is_add w then Some w else None)"
    and "\<And>p d. m_data p = Some d \<Longrightarrow> md_fid d = msg_fid m \<Longrightarrow> md_fid d \<noteq> 0 \<Longrightarrow> sd_make_remove_key sd p ctx = Inr (rkey (slot m))
      \<Longrightarrow> removes \<Longrightarrow> get_remove st' p = Inr (if is_add w then None else Some w)"
proof -
  obtain A where A: "winners slot prio (set ms) A" "holds (overlay m0 (ss_txn (merge_all st ms s))) A"
    using merge_all_winners[OF assms(1-6)] by blast
  then obtain w where w: "A (slot m) = Some w" using assms(7) unfolding winners_def by blast
  have m: "valid m" using assms(4,7) by blast
  have ws: "w \<in> set ms" "slot w = slot m" "\<forall>x\<in>set ms. slot x = slot m \<longrightarrow> prio x \<le> prio w"
    using A(1) w unfolding winners_def by blast+
  have txn: "get_add st' p None = get_add st' p (Some txn_new)" for p by (simp add: get_add_def)
  have A': "holds (overlay (overlay m0 (ss_txn (merge_all st ms s))) txn_new) A" using A(2) by simp
  show ?thesis
  proof (rule that[OF ws])
    fix p d assume p: "m_data p = Some d" "md_fid d = msg_fid m" "md_fid d \<noteq> 0" "sd_make_add_key sd p ctx = Inr (akey (slot m))"
    show "get_add st' p None = Inr (if is_add w then Some w else None)"
      unfolding txn using get_add_ok[OF assms(8) A' m p(1) _ p(3,4)] p(2) w by simp
  next
    fix p d assume p: "m_data p = Some d" "md_fid d = msg_fid m" "md_fid d \<noteq> 0" "sd_make_remove_key sd p ctx = Inr (rkey (slot m))" removes
    show "get_remove st' p = Inr (if is_add w then None else Some w)"
      using get_remove_ok[OF assms(8) A(2) m p(1) _ p(3-5)] p(2) w by simp
  qed
qed

end

end
