(* ===== verification/Keyed_Set.thy ===== *)
theory Keyed_Set
  imports Message_Set
begin

text \<open>
  The layout the account stores share: an index row is the user prefix, the fid, a postfix and what the
  message is about. A store with that layout satisfies the contract of \<open>Message_Set\<close>; the locale
  \<open>keyed_set\<close> asks only for what differs between the stores.
\<close>

section \<open>Index rows\<close>

definition slot_key :: "state_context \<Rightarrow> user_postfix \<Rightarrow> bytes \<times> bytes \<Rightarrow> bytes" where
  "slot_key ctx p s = ctx_root_prefix ctx Rp_User # fst s @ postfix_u8 p # snd s"

definition msg_slot :: "(message \<Rightarrow> bytes) \<Rightarrow> message \<Rightarrow> bytes \<times> bytes" where
  "msg_slot tail m = (make_fid_key (msg_fid m), tail m)"

lemma user_key_slot_key [simp]: "user_key ctx (slot_key ctx p s)"
  by (simp add: user_key_def slot_key_def)

lemma slot_key_inj: "slot_key ctx p (msg_slot t m) = slot_key ctx p (msg_slot t m') \<longleftrightarrow> msg_slot t m = msg_slot t m'"
  by (simp add: slot_key_def msg_slot_def)

lemma slot_key_other:
  "postfix_u8 p \<noteq> postfix_u8 q \<Longrightarrow> slot_key ctx p (msg_slot t m) \<noteq> slot_key ctx q (msg_slot t m')"
  by (simp add: slot_key_def msg_slot_def)

lemma slot_key_row: "postfix_u8 p \<noteq> sd_postfix sd \<Longrightarrow> slot_key ctx p (msg_slot t m) \<noteq> msg_row ctx sd m'"
  by (simp add: slot_key_def msg_slot_def msg_row_def make_message_primary_key_with_prefix_def make_user_key_with_prefix_def)

lemma stored_inI:
  assumes "length (m_hash m) = 20" "m_data m = Some d" "md_type d = message_type_i32 t" "type_to_set_postfix t = Inr p"
    and "postfix_u8 p = sd_postfix sd"
    and "message_type_u8 t = (if sd_is_add_type sd m then sd_add_message_type sd else sd_remove_message_type sd)"
  shows "stored_in sd m"
  using assms unfolding stored_in_def by blast

section \<open>Order\<close>

text \<open>Last writer wins, a remove before an add of the same second, then the hash.\<close>

definition lww_prio :: "store_def \<Rightarrow> message \<Rightarrow> bytes" where
  "lww_prio sd m = take 4 (msg_ts_hash m) @ (if sd_is_add_type sd m then 0 else 1) # drop 4 (msg_ts_hash m)"

lemma bytes_compare_append:
  "length a = length b \<Longrightarrow> bytes_compare (a @ c) (b @ d) = (if a = b then bytes_compare c d else bytes_compare a b)"
  by (induction a b rule: list_induct2) auto

lemma bytes_compare_ts_hash:
  assumes "length a = 24" "length b = 24"
  shows "(if take 4 a \<noteq> take 4 b then bytes_compare (take 4 a) (take 4 b) else bytes_compare (drop 4 a) (drop 4 b)) = bytes_compare a b"
  using bytes_compare_append[of "take 4 a" "take 4 b" "drop 4 a" "drop 4 b"] assms by auto

lemma default_compare_ok:
  assumes "stored_in sd m" "stored_in sd m'"
    and "sd_message_compare sd = default_message_compare (sd_add_message_type sd) (sd_remove_message_type sd)"
    and "sd_add_message_type sd \<noteq> sd_remove_message_type sd"
  shows "sd_message_compare sd
      (if sd_is_add_type sd m then sd_add_message_type sd else sd_remove_message_type sd) (msg_ts_hash m)
      (if sd_is_add_type sd m' then sd_add_message_type sd else sd_remove_message_type sd) (msg_ts_hash m')
    = Inr (bytes_compare (lww_prio sd m) (lww_prio sd m'))"
  using assms(4) stored_inD(2)[OF assms(1)] stored_inD(2)[OF assms(2)]
  by (auto simp: assms(3) default_message_compare_def lww_prio_def bytes_compare_append Let_def)

text \<open>Two messages of one slot and one priority have the same timestamp and hash.\<close>

lemma lww_prio_inject:
  assumes "stored_in sd m" "stored_in sd m'" "lww_prio sd m = lww_prio sd m'"
  shows "msg_ts_hash m = msg_ts_hash m'"
proof -
  have "take 4 (msg_ts_hash m) = take 4 (msg_ts_hash m') \<and> drop 4 (msg_ts_hash m) = drop 4 (msg_ts_hash m')"
    using assms(3) stored_inD(2)[OF assms(1)] stored_inD(2)[OF assms(2)] by (simp add: lww_prio_def)
  then show ?thesis by (metis append_take_drop_id)
qed

section \<open>The locale\<close>

locale keyed_set =
  fixes sd :: store_def and ctx :: state_context and pc :: proto_codec
    and about :: "message \<Rightarrow> bytes" and ap rp :: user_postfix
    and ok :: "message \<Rightarrow> bool" and prio :: "message \<Rightarrow> bytes"
  assumes ok_conflicts: "sd_get_merge_conflicts sd = None"
    and ok_not_compact: "ok m \<Longrightarrow> \<not> sd_is_compact_state_type sd m"
    and ok_kinds: "ok m \<Longrightarrow> sd_is_add_type sd m \<noteq> (remove_type_supported sd \<and> sd_is_remove_type sd m)"
    and ok_typed: "ok m \<Longrightarrow> stored_in sd m"
    and ok_add_key: "ok m \<Longrightarrow> sd_make_add_key sd m ctx = Inr (slot_key ctx ap (msg_slot about m))"
    and ok_remove_key: "ok m \<Longrightarrow> remove_type_supported sd \<Longrightarrow> sd_make_remove_key sd m ctx = Inr (slot_key ctx rp (msg_slot about m))"
    and ok_postfixes: "postfix_u8 ap \<noteq> sd_postfix sd"
      "remove_type_supported sd \<Longrightarrow> postfix_u8 ap \<noteq> postfix_u8 rp \<and> postfix_u8 rp \<noteq> sd_postfix sd"
    and ok_compare: "ok m \<Longrightarrow> ok m' \<Longrightarrow>
      sd_message_compare sd (if sd_is_add_type sd m then sd_add_message_type sd else sd_remove_message_type sd) (msg_ts_hash m)
        (if sd_is_add_type sd m' then sd_add_message_type sd else sd_remove_message_type sd) (msg_ts_hash m')
      = Inr (bytes_compare (prio m) (prio m'))"
    and ok_build: "ok m \<Longrightarrow> sd_is_add_type sd m \<Longrightarrow>
      \<exists>txn'. sd_build_secondary_indices sd (msg_ts_hash m) m ctx txn = (Inr (), txn')
        \<and> (\<forall>k. user_key ctx k \<longrightarrow> map_of txn' k = map_of txn k)"
    and ok_delete: "ok m \<Longrightarrow> sd_is_add_type sd m \<Longrightarrow>
      \<exists>txn'. sd_delete_secondary_indices sd (msg_ts_hash m) m ctx txn = (Inr (), txn')
        \<and> (\<forall>k. user_key ctx k \<longrightarrow> map_of txn' k = map_of txn k)"
    and ok_events: "ev_type (sd_merge_event_args sd m ws) \<noteq> BlockConfirmed"
      "ev_type (sd_revoke_event_args sd m) \<noteq> BlockConfirmed" "ev_type (sd_prune_event_args sd m) \<noteq> BlockConfirmed"

sublocale keyed_set \<subseteq> ms: message_set sd ctx pc "msg_slot about" "slot_key ctx ap" "slot_key ctx rp" "\<lambda>m. ok m \<and> stored_ok pc m" prio
  by unfold_locales
    (use ok_conflicts ok_not_compact ok_kinds ok_typed ok_add_key ok_remove_key ok_postfixes ok_compare ok_build ok_delete ok_events
      in \<open>auto simp: slot_key_inj slot_key_other slot_key_row\<close>, simp add: msg_slot_def)

text \<open>Messages with different hashes have different rows.\<close>

definition hashes_distinct :: "message set \<Rightarrow> bool" where
  "hashes_distinct S \<longleftrightarrow> (\<forall>a\<in>S. \<forall>b\<in>S. m_hash a = m_hash b \<longrightarrow> a = b)"

lemma msg_row_hash: "msg_row ctx sd a = msg_row ctx sd b \<Longrightarrow> stored_in sd a \<Longrightarrow> stored_in sd b \<Longrightarrow> m_hash a = m_hash b"
  by (auto simp: msg_row_def make_message_primary_key_with_prefix_def make_user_key_with_prefix_def stored_in_def msg_ts_hash_def)

lemma hashes_distinct_rows:
  assumes "hashes_distinct S" "\<forall>m\<in>S. stored_in sd m"
  shows "\<forall>a\<in>S. \<forall>b\<in>S. msg_row ctx sd a = msg_row ctx sd b \<longrightarrow> slot a = slot b"
proof (intro ballI impI)
  fix a b assume "a \<in> S" "b \<in> S" "msg_row ctx sd a = msg_row ctx sd b"
  then have "a = b" using assms msg_row_hash[of ctx sd a b] unfolding hashes_distinct_def by blast
  then show "slot a = slot b" by simp
qed

lemma lww_prio_determines:
  assumes "\<forall>m\<in>S. stored_in sd m" "hashes_distinct S" "a \<in> S" "b \<in> S" "lww_prio sd a = lww_prio sd b"
  shows "a = b"
proof -
  have st: "stored_in sd a" "stored_in sd b" using assms(1,3,4) by blast+
  from lww_prio_inject[OF st assms(5)] have "m_hash a = m_hash b" using st by (auto simp: stored_in_def msg_ts_hash_def)
  then show ?thesis using assms(2-4) unfolding hashes_distinct_def by blast
qed

text \<open>Among adds the priority is the timestamp hash.\<close>

lemma lww_prio_adds:
  assumes "lww_prio sd a \<le> lww_prio sd b" "sd_is_add_type sd a \<and> length (msg_ts_hash a) = 24" "sd_is_add_type sd b \<and> length (msg_ts_hash b) = 24"
  shows "msg_ts_hash a \<le> msg_ts_hash b"
proof -
  have "bytes_compare (lww_prio sd a) (lww_prio sd b) = bytes_compare (msg_ts_hash a) (msg_ts_hash b)"
    using assms(2,3) bytes_compare_ts_hash[of "msg_ts_hash a" "msg_ts_hash b"] by (auto simp: lww_prio_def bytes_compare_append)
  then show ?thesis using assms(1) by (metis bytes_compare_pos_iff not_le)
qed

lemma default_events_not_block [simp]:
  "ev_type (default_merge_event m ws) \<noteq> BlockConfirmed" "ev_type (default_revoke_event m) \<noteq> BlockConfirmed"
  "ev_type (default_prune_event m) \<noteq> BlockConfirmed"
  by (simp_all add: default_merge_event_def default_revoke_event_def default_prune_event_def new_event_def)

context keyed_set
begin

lemma committed_winner:
  assumes "engine_laws ops rows einv" "einv e" "store_over sd ctx pc ops e st" "indices_keep sd" "\<not> compact_state_type_supported sd"
    and "hm_ok (ss_txn s)" "ms.holds (overlay (rows e) (ss_txn s)) Map.empty" "\<forall>m\<in>set ms. ok m \<and> stored_ok pc m"
    and "hashes_distinct (set ms)" "event_room (length ms) (ss_gen s)" "m \<in> set ms"
  obtains e' w where "db_commit ops (st_db st) (ss_txn (merge_all st ms s)) = Inr (Some (TransactionDb e'))"
    and "w \<in> set ms" "msg_slot about w = msg_slot about m" "\<forall>x\<in>set ms. msg_slot about x = msg_slot about m \<longrightarrow> prio x \<le> prio w"
    and "\<forall>p d. m_data p = Some d \<and> md_fid d = msg_fid m \<and> md_fid d \<noteq> 0
        \<and> sd_make_add_key sd p ctx = Inr (slot_key ctx ap (msg_slot about m))
      \<longrightarrow> get_add (st\<lparr>st_db := Some (TransactionDb e')\<rparr>) p None = Inr (if sd_is_add_type sd w then Some w else None)"
    and "\<forall>p d. m_data p = Some d \<and> md_fid d = msg_fid m \<and> md_fid d \<noteq> 0
        \<and> sd_make_remove_key sd p ctx = Inr (slot_key ctx rp (msg_slot about m)) \<and> remove_type_supported sd
      \<longrightarrow> get_remove (st\<lparr>st_db := Some (TransactionDb e')\<rparr>) p = Inr (if sd_is_add_type sd w then None else Some w)"
proof -
  obtain e' where e': "db_commit ops (st_db st) (ss_txn (merge_all st ms s)) = Inr (Some (TransactionDb e'))"
    "ms.uses (st\<lparr>st_db := Some (TransactionDb e')\<rparr>) (overlay (rows e) (ss_txn (merge_all st ms s)))"
    using merge_all_committed[OF assms(1-4,6)] by blast
  have rows: "\<forall>a\<in>set ms. \<forall>b\<in>set ms. msg_row ctx sd a = msg_row ctx sd b \<longrightarrow> msg_slot about a = msg_slot about b"
    by (rule hashes_distinct_rows[OF assms(9)]) (use assms(8) ok_typed in blast)
  show ?thesis
    by (rule ms.read_winner[OF store_over_uses[OF assms(3,1,2)] assms(5,7,8,10) rows assms(11) e'(2)], rule that[OF e'(1)])
      (assumption | intro allI impI, elim conjE, assumption?)+
qed

end

text \<open>Rows of another root prefix do not touch user rows.\<close>

lemma user_rows_kept:
  assumes "\<forall>key\<in>set keys. \<not> user_key ctx key" "user_key ctx k"
  shows "map_of (foldl (\<lambda>txn key. txn_put txn key v) txn keys) k = map_of txn k"
    and "map_of (foldl txn_delete txn keys) k = map_of txn k"
proof -
  have "k \<notin> set keys" using assms by blast
  then show "map_of (foldl (\<lambda>txn key. txn_put txn key v) txn keys) k = map_of txn k"
    "map_of (foldl txn_delete txn keys) k = map_of txn k"
    by (induction keys arbitrary: txn) auto
qed

text \<open>The index prefixes of a context.\<close>

lemma index_prefix_not_user [simp]:
  "\<not> user_key ctx (ctx_root_prefix ctx Rp_CastsByParent # k)" "\<not> user_key ctx (ctx_root_prefix ctx Rp_CastsByMention # k)"
  "\<not> user_key ctx (ctx_root_prefix ctx Rp_LinksByTarget # k)" "\<not> user_key ctx (ctx_root_prefix ctx Rp_ReactionsByTarget # k)"
  "\<not> user_key ctx (ctx_root_prefix ctx Rp_VerificationByAddress # k)"
  "\<not> user_key ctx (ctx_root_prefix ctx Rp_LendStorageByRecipient # k)"
  by (cases ctx; simp add: user_key_def ctx_root_prefix_def is_hyper_def)+

end
