(* ===== verification/Store_Scans.thy ===== *)
theory Store_Scans
  imports Keyed_Set
begin

text \<open>
  Operations that walk over all messages of an account: pruning, revoking by signer, replacing links by a
  compact state. A walk sees the messages the committed rows hold, in the order of timestamp and hash.
\<close>

section \<open>Walks\<close>

primrec run_items :: "(bytes \<Rightarrow> bytes \<Rightarrow> ('s, bool) action) \<Rightarrow> (bytes \<times> bytes) list \<Rightarrow> ('s, bool) action" where
  "run_items f [] s = (Inr True, s)"
| "run_items f (kv # items) s = (case f (fst kv) (snd kv) s of
     (Inl e, s') \<Rightarrow> (Inl e, s')
   | (Inr b, s') \<Rightarrow> if b then (Inr False, s') else run_items f items s')"

lemma iterate_run_items:
  "iterate_items (\<lambda>(s, _) k v. case f k v s of (Inl e, s') \<Rightarrow> ((s', Some e), Inr True) | (Inr b, s') \<Rightarrow> ((s', None), Inr b)) None c (s, None) items
     = (case run_items f items s of (Inl e, s') \<Rightarrow> ((s', Some e), Inr False) | (Inr b, s') \<Rightarrow> ((s', None), Inr b))"
proof (induction items arbitrary: s)
  case (Cons kv items)
  obtain k v where kv: "kv = (k, v)" by force
  show ?case
  proof (cases "f k v s")
    case (Pair r s')
    then show ?thesis using Cons.IH[of s'] kv by (cases r) auto
  qed
qed simp

lemma for_each_action_run:
  "for_each_action ops (Some (TransactionDb e)) pfx default_page_options f s
     = run_items f (raw_range ops e pfx (increment_vec_u8 pfx)) s"
  by (simp add: for_each_action_def for_each_iterator_by_prefix_def for_each_iterator_by_prefix_paged_def iterate_with_opts_def
      get_iterator_options_def default_page_options_def iterate_run_items split: prod.split sum.split)

lemma increment_snoc: "b \<noteq> 255 \<Longrightarrow> increment_vec_u8 (xs @ [b]) = xs @ [b + 1]"
  by (simp add: increment_vec_u8_def)

lemma window_prefix:
  assumes "b \<noteq> (255 :: u8)"
  shows "xs @ [b] \<le> k \<and> k < xs @ [b + 1] \<longleftrightarrow> prefix (xs @ [b]) k"
proof (induction xs arbitrary: k)
  case Nil
  show ?case
  proof (cases k)
    case (Cons a r)
    have "[b] \<le> a # r \<longleftrightarrow> b \<le> a" by auto
    moreover have "a # r < [b + 1] \<longleftrightarrow> a \<le> b" using byte_less_Suc[OF assms] by simp
    moreover have "b \<le> a \<and> a \<le> b \<longleftrightarrow> b = a" by auto
    moreover have "prefix [b] (a # r) \<longleftrightarrow> b = a" by simp
    ultimately show ?thesis unfolding Cons append_Nil by blast
  qed simp
next
  case (Cons x xs)
  show ?case
  proof (cases k)
    case k: (Cons a r)
    consider "x < a" "\<not> a < x" "x \<noteq> a" "a \<noteq> x" | "x = a" | "a < x" "\<not> x < a" "x \<noteq> a" "a \<noteq> x" by force
    then show ?thesis using Cons.IH[of r] by cases (simp_all add: k)
  qed simp
qed

text \<open>Under the prefix of an account there are only messages.\<close>

definition fid_prefix :: "state_context \<Rightarrow> store_def \<Rightarrow> u64 \<Rightarrow> bytes" where
  "fid_prefix ctx sd fid = make_message_primary_key_with_prefix (ctx_root_prefix ctx Rp_User) fid (sd_postfix sd) None"

definition only_messages :: "state_context \<Rightarrow> store_def \<Rightarrow> u64 \<Rightarrow> (bytes \<rightharpoonup> bytes) \<Rightarrow> ('k \<rightharpoonup> message) \<Rightarrow> bool" where
  "only_messages ctx sd fid rows A \<longleftrightarrow>
     (\<forall>k. rows k \<noteq> None \<longrightarrow> prefix (fid_prefix ctx sd fid) k \<longrightarrow> (\<exists>s w. A s = Some w \<and> k = msg_row ctx sd w))"

text \<open>The rows of a store with one add message.\<close>

definition add_rows :: "state_context \<Rightarrow> store_def \<Rightarrow> proto_codec \<Rightarrow> bytes \<Rightarrow> message \<Rightarrow> (bytes \<times> bytes) list" where
  "add_rows ctx sd pc key m = hm_insert key (msg_ts_hash m) (hm_insert (msg_row ctx sd m) (message_encode pc m) [])"

lemma add_rows_only:
  assumes "\<not> prefix (fid_prefix ctx sd fid) key"
  shows "only_messages ctx sd fid (map_of (add_rows ctx sd pc key m)) [s \<mapsto> m]"
  using assms by (auto simp: only_messages_def add_rows_def split: if_splits)

lemma fid_prefix_slot: "postfix_u8 p \<noteq> sd_postfix sd \<Longrightarrow> \<not> prefix (fid_prefix ctx sd fid) (slot_key ctx p (msg_slot about m))"
  by (auto simp: fid_prefix_def slot_key_def msg_slot_def make_message_primary_key_with_prefix_def make_user_key_with_prefix_def prefix_def)

lemma prefix_row:
  "prefix (fid_prefix ctx sd fid) (msg_row ctx sd w) \<longleftrightarrow> make_fid_key (msg_fid w) = make_fid_key fid"
  by (auto simp: fid_prefix_def msg_row_def make_message_primary_key_with_prefix_def make_user_key_with_prefix_def prefix_def)

lemma row_fid: "make_fid_key (msg_fid w) = make_fid_key fid \<Longrightarrow> msg_row ctx sd w = fid_prefix ctx sd fid @ msg_ts_hash w"
  by (simp add: fid_prefix_def msg_row_def make_message_primary_key_with_prefix_def make_user_key_with_prefix_def)

context message_set
begin

definition listing :: "u64 \<Rightarrow> ('k \<rightharpoonup> message) \<Rightarrow> message list \<Rightarrow> bool" where
  "listing fid A ws \<longleftrightarrow> sorted_wrt (<) (map msg_ts_hash ws)
     \<and> set ws = {w. A (slot w) = Some w \<and> make_fid_key (msg_fid w) = make_fid_key fid}"

lemma fid_scan:
  assumes "engine_laws ops rows einv" "einv e" "holds (rows e) A" "only_messages ctx sd fid (rows e) A" "sd_postfix sd \<noteq> 255"
  obtains ws where "raw_range ops e (fid_prefix ctx sd fid) (increment_vec_u8 (fid_prefix ctx sd fid)) = map (\<lambda>w. (row w, message_encode pc w)) ws"
    and "listing fid A ws"
proof -
  let ?P = "fid_prefix ctx sd fid"
  let ?items = "raw_range ops e ?P (increment_vec_u8 ?P)"
  define ws where "ws = map (\<lambda>(k, v). projr (message_decode pc v)) ?items"
  have P: "?P = (ctx_root_prefix ctx Rp_User # make_fid_key fid) @ [sd_postfix sd]"
    by (simp add: fid_prefix_def make_message_primary_key_with_prefix_def make_user_key_with_prefix_def)
  have win: "(?P \<le> k \<and> k < increment_vec_u8 ?P) = prefix ?P k" for k
    unfolding P increment_snoc[OF assms(5)] by (rule window_prefix[OF assms(5)])
  have items: "set ?items = {(k, v). rows e k = Some v \<and> prefix ?P k}"
    unfolding engine_range[OF assms(1,2)] win ..
  have wit: "\<exists>w. A (slot w) = Some w \<and> k = row w \<and> v = message_encode pc w \<and> projr (message_decode pc v) = w" if "(k, v) \<in> set ?items" for k v
  proof -
    from that items have kv: "rows e k = Some v" "prefix ?P k" by auto
    with assms(4) obtain s w where w: "A s = Some w" "k = row w" unfolding only_messages_def by blast
    have vw: "valid w" "slot w = s" using holdsD(1)[OF assms(3) w(1)] by auto
    have "rows e (row w) = Some (message_encode pc w)"
      using holdsD(2)[OF assms(3) vw(1)] vw(2) w(1) by (simp add: slot_rows_def)
    with kv(1) w(2) stored[OF vw(1)] w(1) vw(2) show ?thesis by (auto simp: stored_ok_def)
  qed
  have eq: "?items = map (\<lambda>w. (row w, message_encode pc w)) ws"
    unfolding ws_def using wit by (auto simp: comp_def intro!: map_idI[symmetric] split: prod.split)
  have sub: "A (slot w) = Some w \<and> make_fid_key (msg_fid w) = make_fid_key fid" if "w \<in> set ws" for w
  proof -
    from that eq have "(row w, message_encode pc w) \<in> set ?items" by auto
    moreover from that obtain k v where "(k, v) \<in> set ?items" "w = projr (message_decode pc v)" unfolding ws_def by auto
    ultimately show ?thesis using items wit[of k v] by (auto simp: prefix_row)
  qed
  have "w \<in> set ws" if "A (slot w) = Some w" "make_fid_key (msg_fid w) = make_fid_key fid" for w
  proof -
    have v: "valid w" using holdsD(1)[OF assms(3) that(1)] by simp
    have "rows e (row w) = Some (message_encode pc w)" using holdsD(2)[OF assms(3) v] that(1) by (simp add: slot_rows_def)
    with that(2) items have "(row w, message_encode pc w) \<in> set ?items" by (simp add: prefix_row)
    from wit[OF this] stored[OF v] have "w = projr (message_decode pc (message_encode pc w))" by (simp add: stored_ok_def)
    with \<open>(row w, message_encode pc w) \<in> set ?items\<close> show ?thesis unfolding ws_def by force
  qed
  moreover have "sorted_wrt (<) (map msg_ts_hash ws)"
  proof -
    have "sorted_wrt (<) (map row ws)" using engine_range_ok[OF assms(1,2), of ?P "increment_vec_u8 ?P"] eq
      by (simp add: hm_ok_def comp_def)
    moreover have "map row ws = map (\<lambda>h. ?P @ h) (map msg_ts_hash ws)" using sub row_fid by (simp add: comp_def)
    ultimately show ?thesis by (simp add: sorted_wrt_map list_less_append_same_length)
  qed
  ultimately have "listing fid A ws" using sub unfolding listing_def by blast
  with eq that show ?thesis by blast
qed

text \<open>A walk over an account.\<close>

lemma fid_walk:
  assumes "engine_laws ops rows einv" "einv e" "store_over sd ctx pc ops e st" "holds (rows e) A" "only_messages ctx sd fid (rows e) A"
    and "sd_postfix sd \<noteq> 255" "\<forall>k. user_key ctx k \<longrightarrow> overlay (rows e) (ss_txn s) k = rows e k"
  obtains ws where "listing fid A ws" "holds (overlay (rows e) (ss_txn s)) A"
    and "\<forall>f acc. for_each_action (st_ops st) (st_db st) (fid_messages_prefix st fid) default_page_options f acc
      = run_items f (map (\<lambda>w. (row w, message_encode pc w)) ws) acc"
proof -
  obtain ws where ws: "raw_range ops e (fid_prefix ctx sd fid) (increment_vec_u8 (fid_prefix ctx sd fid)) = map (\<lambda>w. (row w, message_encode pc w)) ws"
    "listing fid A ws" using fid_scan[OF assms(1,2,4-6)] by blast
  have "holds (overlay (rows e) (ss_txn s)) A" by (rule holds_cong[OF assms(4)]) (simp add: assms(7))
  moreover have "fid_messages_prefix st fid = fid_prefix ctx sd fid"
    using assms(3) by (simp add: fid_messages_prefix_def fid_prefix_def user_prefix_def store_over_def)
  ultimately show ?thesis using ws assms(3) by (intro that[of ws]) (simp_all add: for_each_action_run store_over_def)
qed

lemma listing_slots:
  assumes "listing fid A ws"
  shows "distinct (map slot ws)" "\<forall>w\<in>set ws. A (slot w) = Some w"
proof -
  show a: "\<forall>w\<in>set ws. A (slot w) = Some w" using assms by (auto simp: listing_def)
  have "distinct (map msg_ts_hash ws)" using assms by (simp add: listing_def strict_sorted_iff)
  then have "distinct ws" by (simp add: distinct_map)
  moreover have "inj_on slot (set ws)" using a by (metis inj_onI option.inject)
  ultimately show "distinct (map slot ws)" by (simp add: distinct_map)
qed

lemma scan_decode: "valid w \<Longrightarrow> message_decode_res pc (message_encode pc w) = Inr w"
  using stored[of w] by (simp add: message_decode_res_def stored_ok_def)

subsection \<open>Pruning\<close>

lemma prune_ok:
  assumes "uses st m0" "holds (overlay m0 (ss_txn s)) A" "A (slot w) = Some w" "event_room (Suc n) (ss_gen s)"
  shows "\<exists>i s'. prune_message st w s = (Inr (Some ((sd_prune_event_args sd w)\<lparr>ev_id := i\<rparr>)), s')
    \<and> holds (overlay m0 (ss_txn s')) (A(slot w := None)) \<and> event_room n (ss_gen s')"
proof -
  have w: "valid w" using holdsD(1)[OF assms(2,3)] by auto
  from delete_one_ok[OF assms(1) w] obtain t1 where
    t1: "delete_one st w (ss_txn s) = (Inr (), t1)"
      "\<forall>k. user_key ctx k \<longrightarrow> map_of t1 k = (if k = ikey w \<or> k = row w then Some None else map_of (ss_txn s) k)" by blast
  have h1: "holds (overlay m0 t1) (A(slot w := None))"
    by (rule holds_remove[OF assms(2,3)]) (simp add: overlay_def t1(2))
  have del: "(if is_add w then bind_st (lift_res (message_ts_hash w)) (\<lambda>ts_hash. on_txn (delete_add_transaction st ts_hash w))
      else if removes \<and> sd_is_remove_type sd w then on_txn (delete_remove_transaction st w) else return_st ()) s = (Inr (), s\<lparr>ss_txn := t1\<rparr>)"
    using t1(1) assms(1) not_compact[OF w] stored_inD(1)[OF typed[OF w]] add_kind[OF w] remove_kind[OF w]
    by (auto simp: on_txn_def on_part_def delete_one_def store_uses_def bind_st_def split: if_splits prod.splits sum.splits)
  have st: "st_def st = sd" "st_codec st = pc" using assms(1) by (simp_all add: store_uses_def)
  have eq: "prune_message st w s = bind_st (commit_transaction pc (st_no_persist st) (sd_prune_event_args sd w))
      (\<lambda>event. return_st (Some event)) (s\<lparr>ss_txn := t1\<rparr>)"
    unfolding prune_message_def st by (simp only: not_compact[OF w] simp_thms if_False) (rule bind_st_ok, rule del)
  have "event_room (Suc n) (ss_gen (s\<lparr>ss_txn := t1\<rparr>))" using assms(4) by simp
  from commit_room[OF this event_kinds(3)[of w], of pc "st_no_persist st" ctx] obtain i s' where
    c: "commit_transaction pc (st_no_persist st) (sd_prune_event_args sd w) (s\<lparr>ss_txn := t1\<rparr>)
        = (Inr ((sd_prune_event_args sd w)\<lparr>ev_id := i\<rparr>), s')" "event_room n (ss_gen s')"
      "\<forall>k. user_key ctx k \<longrightarrow> map_of (ss_txn s') k = map_of t1 k" by auto
  have "holds (overlay m0 (ss_txn s')) (A(slot w := None))" by (rule holds_cong[OF h1]) (simp add: overlay_def c(3))
  with c eq show ?thesis by (auto simp: bind_st_ok)
qed

text \<open>The messages \<open>ws\<close> taken out of the store, with one event each.\<close>

definition without :: "('k \<rightharpoonup> message) \<Rightarrow> message list \<Rightarrow> ('k \<rightharpoonup> message)" where
  "without A ws = (\<lambda>k. if k \<in> slot ` set ws then None else A k)"

lemma without_simps [simp]: "without A [] = A" "without A (w # ws) = without (A(slot w := None)) ws"
  by (auto simp: without_def fun_eq_iff)

lemma prune_run:
  assumes "uses st m0"
  shows "holds (overlay m0 (ss_txn (sc_store sc))) A \<Longrightarrow> \<forall>w\<in>set ws. A (slot w) = Some w \<Longrightarrow> distinct (map slot ws)
    \<Longrightarrow> event_room (length ws) (ss_gen (sc_store sc)) \<Longrightarrow>
    \<exists>b evs sc'. run_items (prune_step st max_count) (map (\<lambda>w. (row w, message_encode pc w)) ws) sc = (Inr b, sc')
      \<and> sc_events sc' = sc_events sc @ evs
      \<and> list_all2 (\<lambda>ev w. \<exists>i. ev = (sd_prune_event_args sd w)\<lparr>ev_id := i\<rparr>) evs (take (unat (sc_count sc) - unat max_count) ws)
      \<and> holds (overlay m0 (ss_txn (sc_store sc'))) (without A (take (unat (sc_count sc) - unat max_count) ws))"
proof (induction ws arbitrary: sc A)
  case (Cons w ws)
  show ?case
  proof (cases "sc_count sc \<le> max_count")
    case True
    then show ?thesis using Cons.prems(1) by (auto simp: prune_step_def word_le_nat_alt)
  next
    case False
    have w: "valid w" using holdsD(1)[OF Cons.prems(1)] Cons.prems(2) by auto
    from prune_ok[OF assms Cons.prems(1), of w "length ws"] Cons.prems(2,4) obtain i s' where
      p: "prune_message st w (sc_store sc) = (Inr (Some ((sd_prune_event_args sd w)\<lparr>ev_id := i\<rparr>)), s')"
        "holds (overlay m0 (ss_txn s')) (A(slot w := None))" "event_room (length ws) (ss_gen s')" by auto
    let ?ev = "(sd_prune_event_args sd w)\<lparr>ev_id := i\<rparr>"
    let ?sc = "sc\<lparr>sc_store := s', sc_count := sc_count sc - 1, sc_events := sc_events sc @ [?ev]\<rparr>"
    have step: "prune_step st max_count (row w) (message_encode pc w) sc = (Inr False, ?sc)"
      using False p(1) scan_decode[OF w] assms by (simp add: prune_step_def store_uses_def on_store_def on_part_def bind_st_def)
    have other: "\<forall>v\<in>set ws. (A(slot w := None)) (slot v) = Some v"
    proof
      fix v assume v: "v \<in> set ws"
      then have "slot v \<noteq> slot w" using Cons.prems(3) by (metis distinct.simps(2) image_eqI list.set_map list.simps(9))
      then show "(A(slot w := None)) (slot v) = Some v" using Cons.prems(2) v by simp
    qed
    have count: "unat (sc_count ?sc) - unat max_count = unat (sc_count sc) - unat max_count - 1"
      "unat (sc_count sc) - unat max_count > 0"
      using False by (auto simp: word_le_nat_alt unat_sub_if_size word_less_nat_alt not_le)
    have n: "holds (overlay m0 (ss_txn (sc_store ?sc))) (A(slot w := None))" "event_room (length ws) (ss_gen (sc_store ?sc))"
      "distinct (map slot ws)" using p(2,3) Cons.prems(3) by simp_all
    from Cons.IH[OF n(1) other n(3,2)] obtain b evs sc' where
      r: "run_items (prune_step st max_count) (map (\<lambda>w. (row w, message_encode pc w)) ws) ?sc = (Inr b, sc')"
        "sc_events sc' = sc_events ?sc @ evs"
        "list_all2 (\<lambda>ev w. \<exists>i. ev = (sd_prune_event_args sd w)\<lparr>ev_id := i\<rparr>) evs (take (unat (sc_count ?sc) - unat max_count) ws)"
        "holds (overlay m0 (ss_txn (sc_store sc'))) (without (A(slot w := None)) (take (unat (sc_count ?sc) - unat max_count) ws))"
      by blast
    with step count show ?thesis
      by (intro exI[of _ b] exI[of _ "?ev # evs"] exI[of _ sc']) (auto simp: take_Cons')
  qed
qed auto

definition account :: "u64 \<Rightarrow> ('k \<rightharpoonup> message) \<Rightarrow> message set" where
  "account fid A = {w. A (slot w) = Some w \<and> make_fid_key (msg_fid w) = make_fid_key fid}"

lemma listing_length: "listing fid A ws \<Longrightarrow> length ws = card (account fid A)"
  using distinct_card[of ws] listing_slots(1)[of fid A ws] by (simp add: listing_def account_def distinct_map)

lemma prune_messages_ok:
  assumes "engine_laws ops rows einv" "einv e" "store_over sd ctx pc ops e st" "holds (rows e) A" "only_messages ctx sd fid (rows e) A"
    and "sd_postfix sd \<noteq> 255" "\<forall>k. user_key ctx k \<longrightarrow> overlay (rows e) (ss_txn s) k = rows e k"
    and "allows_pruning ctx" "event_room (card (account fid A)) (ss_gen s)"
  obtains ws evs s' where "listing fid A ws" "prune_messages st fid current_count max_count s = (Inr evs, s')"
    and "list_all2 (\<lambda>ev w. \<exists>i. ev = (sd_prune_event_args sd w)\<lparr>ev_id := i\<rparr>) evs (take (unat current_count - unat max_count) ws)"
    and "holds (overlay (rows e) (ss_txn s')) (without A (take (unat current_count - unat max_count) ws))"
proof -
  obtain ws where ws: "listing fid A ws" "holds (overlay (rows e) (ss_txn s)) A"
    "\<forall>f (acc :: scan_state). for_each_action (st_ops st) (st_db st) (fid_messages_prefix st fid) default_page_options f acc
      = run_items f (map (\<lambda>w. (row w, message_encode pc w)) ws) acc"
    using fid_walk[OF assms(1-7)] by blast
  show ?thesis
  proof (cases "current_count \<le> max_count")
    case True
    with ws(1,2) assms(3,8) show ?thesis
      by (intro that[of ws "[]" s]) (simp_all add: prune_messages_def store_over_def word_le_nat_alt)
  next
    case False
    let ?sc = "\<lparr>sc_store = s, sc_count = current_count, sc_events = []\<rparr>"
    have p: "holds (overlay (rows e) (ss_txn (sc_store ?sc))) A" "event_room (length ws) (ss_gen (sc_store ?sc))"
      using ws(2) assms(9) listing_length[OF ws(1)] by simp_all
    from prune_run[OF store_over_uses[OF assms(3,1,2)] p(1) listing_slots(2,1)[OF ws(1)] p(2), of max_count] obtain b evs sc' where
      "run_items (prune_step st max_count) (map (\<lambda>w. (row w, message_encode pc w)) ws) ?sc = (Inr b, sc')" "sc_events sc' = evs"
      "list_all2 (\<lambda>ev w. \<exists>i. ev = (sd_prune_event_args sd w)\<lparr>ev_id := i\<rparr>) evs (take (unat current_count - unat max_count) ws)"
      "holds (overlay (rows e) (ss_txn (sc_store sc'))) (without A (take (unat current_count - unat max_count) ws))" by auto
    moreover have "st_ctx st = ctx" using assms(3) by (simp add: store_over_def)
    ultimately show ?thesis using False ws assms(8)
      by (intro that[of ws evs "sc_store sc'"]) (simp_all add: prune_messages_def)
  qed
qed

subsection \<open>Revoking by signer\<close>

lemma revoke_run:
  assumes "uses st m0"
  shows "holds (overlay m0 (ss_txn (sc_store sc))) A \<Longrightarrow> \<forall>w\<in>set ws. A (slot w) = Some w \<Longrightarrow> distinct (map slot ws)
    \<Longrightarrow> event_room (length ws) (ss_gen (sc_store sc)) \<Longrightarrow>
    \<exists>b evs sc'. run_items (revoke_step st signer) (map (\<lambda>w. (row w, message_encode pc w)) ws) sc = (Inr b, sc')
      \<and> sc_events sc' = sc_events sc @ evs
      \<and> list_all2 (\<lambda>ev w. \<exists>i. ev = (sd_revoke_event_args sd w)\<lparr>ev_id := i\<rparr>) evs (filter (\<lambda>w. m_signer w = signer) ws)
      \<and> holds (overlay m0 (ss_txn (sc_store sc'))) (without A (filter (\<lambda>w. m_signer w = signer) ws))"
proof (induction ws arbitrary: sc A)
  case (Cons w ws)
  have w: "valid w" using holdsD(1)[OF Cons.prems(1)] Cons.prems(2) by auto
  have ne: "slot v \<noteq> slot w" if "v \<in> set ws" for v
    using Cons.prems(3) that by (metis distinct.simps(2) image_eqI list.set_map list.simps(9))
  show ?case
  proof (cases "m_signer w = signer")
    case False
    have "event_room (length ws) (ss_gen (sc_store sc))" using Cons.prems(4) by (simp add: event_room_def)
    with Cons.IH[OF Cons.prems(1)] Cons.prems(2,3) False scan_decode[OF w] assms show ?thesis
      by (simp add: revoke_step_def store_uses_def)
  next
    case True
    from revoke_ok[OF assms Cons.prems(1), of w "length ws"] Cons.prems(2,4) obtain i s' where
      p: "store_revoke st w (sc_store sc) = (Inr ((sd_revoke_event_args sd w)\<lparr>ev_id := i\<rparr>), s')"
        "holds (overlay m0 (ss_txn s')) (A(slot w := None))" "event_room (length ws) (ss_gen s')" by auto
    let ?ev = "(sd_revoke_event_args sd w)\<lparr>ev_id := i\<rparr>"
    let ?sc = "sc\<lparr>sc_store := s', sc_events := sc_events sc @ [?ev]\<rparr>"
    have step: "revoke_step st signer (row w) (message_encode pc w) sc = (Inr False, ?sc)"
      using True p(1) scan_decode[OF w] assms by (simp add: revoke_step_def store_uses_def)
    have other: "\<forall>v\<in>set ws. (A(slot w := None)) (slot v) = Some v" using Cons.prems(2) ne by simp
    have n: "holds (overlay m0 (ss_txn (sc_store ?sc))) (A(slot w := None))" "event_room (length ws) (ss_gen (sc_store ?sc))"
      "distinct (map slot ws)" using p(2,3) Cons.prems(3) by simp_all
    from Cons.IH[OF n(1) other n(3,2)] obtain b evs sc' where
      r: "run_items (revoke_step st signer) (map (\<lambda>w. (row w, message_encode pc w)) ws) ?sc = (Inr b, sc')"
        "sc_events sc' = sc_events ?sc @ evs"
        "list_all2 (\<lambda>ev w. \<exists>i. ev = (sd_revoke_event_args sd w)\<lparr>ev_id := i\<rparr>) evs (filter (\<lambda>w. m_signer w = signer) ws)"
        "holds (overlay m0 (ss_txn (sc_store sc'))) (without (A(slot w := None)) (filter (\<lambda>w. m_signer w = signer) ws))"
      by blast
    with step True show ?thesis
      by (intro exI[of _ b] exI[of _ "?ev # evs"] exI[of _ sc']) auto
  qed
qed auto

lemma revoke_by_signer_ok:
  assumes "engine_laws ops rows einv" "einv e" "store_over sd ctx pc ops e st" "holds (rows e) A" "only_messages ctx sd fid (rows e) A"
    and "sd_postfix sd \<noteq> 255" "\<forall>k. user_key ctx k \<longrightarrow> overlay (rows e) (ss_txn s) k = rows e k"
    and "event_room (card (account fid A)) (ss_gen s)"
  obtains ws evs s' where "listing fid A ws" "revoke_messages_by_signer st fid signer s = (Inr evs, s')"
    and "list_all2 (\<lambda>ev w. \<exists>i. ev = (sd_revoke_event_args sd w)\<lparr>ev_id := i\<rparr>) evs (filter (\<lambda>w. m_signer w = signer) ws)"
    and "holds (overlay (rows e) (ss_txn s')) (without A (filter (\<lambda>w. m_signer w = signer) ws))"
proof -
  obtain ws where ws: "listing fid A ws" "holds (overlay (rows e) (ss_txn s)) A"
    "\<forall>f (acc :: scan_state). for_each_action (st_ops st) (st_db st) (fid_messages_prefix st fid) default_page_options f acc
      = run_items f (map (\<lambda>w. (row w, message_encode pc w)) ws) acc"
    using fid_walk[OF assms(1-7)] by blast
  let ?sc = "\<lparr>sc_store = s, sc_count = 0, sc_events = []\<rparr>"
  have p: "holds (overlay (rows e) (ss_txn (sc_store ?sc))) A" "event_room (length ws) (ss_gen (sc_store ?sc))"
    using ws(2) assms(8) listing_length[OF ws(1)] by simp_all
  from revoke_run[OF store_over_uses[OF assms(3,1,2)] p(1) listing_slots(2,1)[OF ws(1)] p(2), of signer] obtain b evs sc' where
    "run_items (revoke_step st signer) (map (\<lambda>w. (row w, message_encode pc w)) ws) ?sc = (Inr b, sc')" "sc_events sc' = evs"
    "list_all2 (\<lambda>ev w. \<exists>i. ev = (sd_revoke_event_args sd w)\<lparr>ev_id := i\<rparr>) evs (filter (\<lambda>w. m_signer w = signer) ws)"
    "holds (overlay (rows e) (ss_txn (sc_store sc'))) (without A (filter (\<lambda>w. m_signer w = signer) ws))" by auto
  with ws show ?thesis
    by (intro that[of ws evs "sc_store sc'"]) (simp_all add: revoke_messages_by_signer_def)
qed

subsection \<open>Deleting many\<close>

lemma delete_many_ok:
  assumes "uses st m0"
  shows "holds (overlay m0 txn) A \<Longrightarrow> \<forall>w\<in>set ws. A (slot w) = Some w \<Longrightarrow> distinct (map slot ws) \<Longrightarrow>
    \<exists>txn'. delete_many_transaction st ws txn = (Inr (), txn') \<and> holds (overlay m0 txn') (without A ws)"
proof (induction ws arbitrary: txn A)
  case (Cons w ws)
  have w: "A (slot w) = Some w" "valid w" using holdsD(1)[OF Cons.prems(1)] Cons.prems(2) by auto
  have ne: "slot v \<noteq> slot w" if "v \<in> set ws" for v
    using Cons.prems(3) that by (metis distinct.simps(2) image_eqI list.set_map list.simps(9))
  from delete_one_ok[OF assms w(2)] obtain t1 where
    t1: "delete_one st w txn = (Inr (), t1)"
      "\<forall>k. user_key ctx k \<longrightarrow> map_of t1 k = (if k = ikey w \<or> k = row w then Some None else map_of txn k)" by blast
  have h1: "holds (overlay m0 t1) (A(slot w := None))"
    by (rule holds_remove[OF Cons.prems(1) w(1)]) (simp add: overlay_def t1(2))
  have other: "\<forall>v\<in>set ws. (A(slot w := None)) (slot v) = Some v" using Cons.prems(2) ne by simp
  have "distinct (map slot ws)" using Cons.prems(3) by simp
  from Cons.IH[OF h1 other this] t1(1) show ?case by (simp add: delete_many_transaction_def bind_st_ok fun_upd_def)
qed (simp add: delete_many_transaction_def)

text \<open>Rows outside the slots do not matter.\<close>

lemma holds_frame:
  assumes "holds rows A" "\<And>m. valid m \<Longrightarrow> rows' (akey (slot m)) = rows (akey (slot m)) \<and> rows' (row m) = rows (row m)"
    and "\<And>m. valid m \<Longrightarrow> removes \<Longrightarrow> rows' (rkey (slot m)) = rows (rkey (slot m))"
  shows "holds rows' A"
proof -
  have "cell rows' A (slot m) = cell rows A (slot m)" if "valid m" for m
  proof (cases "A (slot m)")
    case None
    with assms(2,3)[OF that] show ?thesis by (simp add: slot_rows_def)
  next
    case (Some w)
    with assms(2)[of w] assms(2,3)[OF that] holdsD(1)[OF assms(1) Some] show ?thesis by (simp add: slot_rows_def)
  qed
  with assms(1,2) show ?thesis unfolding store_holds_def by metis
qed

lemma holds_one:
  assumes "valid m" "is_add m"
  shows "holds (map_of (add_rows ctx sd pc (akey (slot m)) m)) [slot m \<mapsto> m]"
proof -
  have "holds Map.empty Map.empty" by (simp add: store_holds_def slot_rows_def)
  from holds_insert[OF this assms(1)] assms(2) show ?thesis by (simp add: add_rows_def ikey_def)
qed

end

end
