(* ===== verification/Cast_Store.thy ===== *)
theory Cast_Store
  imports Store_Scans
begin

text \<open>
  The cast store, \<open>src/storage/store/account/cast_store.rs\<close>: casts by hash, a remove wins over the add it
  names whatever the timestamps, and two secondary indices, by parent and by mention.
\<close>

section \<open>Keys\<close>

definition make_parent_key :: "cast_parent \<Rightarrow> bytes" where
  "make_parent_key target = (case target of ParentUrl url \<Rightarrow> url | ParentCastId cid \<Rightarrow> make_cast_id_key cid)"

definition make_cast_by_parent_key_with_prefix :: "u8 \<Rightarrow> cast_parent \<Rightarrow> u64 \<Rightarrow> bytes option \<Rightarrow> bytes" where
  "make_cast_by_parent_key_with_prefix root parent fid ts_hash =
     root # make_parent_key parent
       @ (case ts_hash of Some h \<Rightarrow> (if length h = TS_HASH_LENGTH then h else []) | None \<Rightarrow> [])
       @ (if fid > 0 then make_fid_key fid else [])"

definition make_cast_by_parent_key :: "cast_parent \<Rightarrow> u64 \<Rightarrow> bytes option \<Rightarrow> bytes" where
  "make_cast_by_parent_key parent fid ts_hash =
     make_cast_by_parent_key_with_prefix (rp_u8 Rp_CastsByParent) parent fid ts_hash"

definition make_cast_by_mention_key_with_prefix :: "u8 \<Rightarrow> u64 \<Rightarrow> u64 \<Rightarrow> bytes option \<Rightarrow> bytes" where
  "make_cast_by_mention_key_with_prefix root mention fid ts_hash =
     root # make_fid_key mention
       @ (case ts_hash of Some h \<Rightarrow> (if length h = TS_HASH_LENGTH then h else []) | None \<Rightarrow> [])
       @ (if fid > 0 then make_fid_key fid else [])"

definition make_cast_by_mention_key :: "u64 \<Rightarrow> u64 \<Rightarrow> bytes option \<Rightarrow> bytes" where
  "make_cast_by_mention_key mention fid ts_hash =
     make_cast_by_mention_key_with_prefix (rp_u8 Rp_CastsByMention) mention fid ts_hash"

definition make_cast_adds_key_with_prefix :: "u8 \<Rightarrow> u64 \<Rightarrow> bytes \<Rightarrow> bytes" where
  "make_cast_adds_key_with_prefix root fid hash =
     make_user_key_with_prefix root fid @ [postfix_u8 CastAdds] @ (if length hash = HASH_LENGTH then hash else [])"

definition make_cast_removes_key_with_prefix :: "u8 \<Rightarrow> u64 \<Rightarrow> bytes \<Rightarrow> bytes" where
  "make_cast_removes_key_with_prefix root fid hash =
     make_user_key_with_prefix root fid @ [postfix_u8 CastRemoves] @ (if length hash = HASH_LENGTH then hash else [])"

section \<open>CastStoreDef\<close>

definition cast_is_add_type :: "message \<Rightarrow> bool" where
  "cast_is_add_type m = (case m_data m of
     None \<Rightarrow> False
   | Some data \<Rightarrow> m_signature_scheme m = SignatureScheme_Ed25519 \<and> md_type data = message_type_i32 CastAdd
       \<and> md_body data \<noteq> None)"

definition cast_is_remove_type :: "message \<Rightarrow> bool" where
  "cast_is_remove_type m = (case m_data m of
     None \<Rightarrow> False
   | Some data \<Rightarrow> m_signature_scheme m = SignatureScheme_Ed25519 \<and> md_type data = message_type_i32 CastRemove
       \<and> md_body data \<noteq> None)"

definition cast_message_compare :: "u8 \<Rightarrow> bytes \<Rightarrow> u8 \<Rightarrow> bytes \<Rightarrow> int res" where
  "cast_message_compare a_type a_ts_hash b_type b_ts_hash =
     (if a_type = message_type_u8 CastRemove \<and> b_type = message_type_u8 CastAdd then Inr 1
      else if a_type = message_type_u8 CastAdd \<and> b_type = message_type_u8 CastRemove then Inr (- 1)
      else if length a_ts_hash < 4 \<or> length b_ts_hash < 4 then Inl Panic
      else let ts_compare = bytes_compare (take 4 a_ts_hash) (take 4 b_ts_hash)
      in if ts_compare \<noteq> 0 then Inr ts_compare
         else if length a_ts_hash < 24 \<or> length b_ts_hash < 24 then Inl Panic
         else Inr (bytes_compare (take 20 (drop 4 a_ts_hash)) (take 20 (drop 4 b_ts_hash))))"

text \<open>The cast body of a message for its indices: none for a remove.\<close>

definition cast_index_body :: "message \<Rightarrow> (u64 \<times> cast_add_body option) res" where
  "cast_index_body m =
     bind_res (unwrap (m_data m)) (\<lambda>data.
     bind_res (unwrap (md_body data)) (\<lambda>body.
       case body of
         CastAddBody b \<Rightarrow> Inr (md_fid data, Some b)
       | CastRemoveBody _ \<Rightarrow> Inr (md_fid data, None)
       | _ \<Rightarrow> hub_err ''bad_request.validation_failure'' ''Invalid cast body''))"

definition by_parent_secondary_index_key :: "bytes \<Rightarrow> message \<Rightarrow> state_context \<Rightarrow> bytes option res" where
  "by_parent_secondary_index_key ts_hash m ctx =
     bind_res (cast_index_body m) (\<lambda>(fid, body). case body of
        None \<Rightarrow> Inr None
      | Some b \<Rightarrow> (case ca_parent b of
            None \<Rightarrow> hub_err ''bad_request.validation_failure'' ''Invalid cast body''
          | Some parent \<Rightarrow>
              Inr (Some (make_cast_by_parent_key_with_prefix (ctx_root_prefix ctx Rp_CastsByParent) parent fid (Some ts_hash)))))"

definition by_mention_secondary_index_key :: "bytes \<Rightarrow> message \<Rightarrow> state_context \<Rightarrow> bytes list option res" where
  "by_mention_secondary_index_key ts_hash m ctx =
     bind_res (cast_index_body m) (\<lambda>(fid, body). case body of
        None \<Rightarrow> Inr None
      | Some b \<Rightarrow>
          if ca_mentions b = [] then Inr None
          else Inr (Some (map (\<lambda>mention. make_cast_by_mention_key_with_prefix (ctx_root_prefix ctx Rp_CastsByMention)
                 mention fid (Some ts_hash)) (ca_mentions b))))"

text \<open>\<open>if let Ok(Some(..))\<close>: an error means no key, a panic is still a panic.\<close>

definition ok_or_skip :: "'a option res \<Rightarrow> 'a option res" where
  "ok_or_skip r = (case r of Inl (HubFailure _) \<Rightarrow> Inr None | Inl Panic \<Rightarrow> Inl Panic | Inr x \<Rightarrow> Inr x)"

definition cast_index_keys :: "bytes \<Rightarrow> message \<Rightarrow> state_context \<Rightarrow> bytes list res" where
  "cast_index_keys ts_hash m ctx =
     bind_res (ok_or_skip (by_parent_secondary_index_key ts_hash m ctx)) (\<lambda>parent_key.
     bind_res (ok_or_skip (by_mention_secondary_index_key ts_hash m ctx)) (\<lambda>mention_keys.
       Inr ((case parent_key of Some k \<Rightarrow> [k] | None \<Rightarrow> []) @ (case mention_keys of Some ks \<Rightarrow> ks | None \<Rightarrow> []))))"

definition cast_build_secondary_indices :: "bytes \<Rightarrow> message \<Rightarrow> state_context \<Rightarrow> (txn_batch, unit) action" where
  "cast_build_secondary_indices ts_hash m ctx =
     bind_st (lift_res (cast_index_keys ts_hash m ctx)) (\<lambda>keys.
       modify_st (\<lambda>txn. foldl (\<lambda>txn key. txn_put txn key [TRUE_VALUE]) txn keys))"

definition cast_delete_secondary_indices :: "bytes \<Rightarrow> message \<Rightarrow> state_context \<Rightarrow> (txn_batch, unit) action" where
  "cast_delete_secondary_indices ts_hash m ctx =
     bind_st (lift_res (cast_index_keys ts_hash m ctx)) (\<lambda>keys.
       modify_st (\<lambda>txn. foldl txn_delete txn keys))"

text \<open>The hash of the cast a message is about.\<close>

definition cast_key_hash :: "string \<Rightarrow> message \<Rightarrow> (u64 \<times> bytes) res" where
  "cast_key_hash error_text m =
     bind_res (unwrap (m_data m)) (\<lambda>data.
       case md_body data of
         Some (CastAddBody _) \<Rightarrow> Inr (md_fid data, m_hash m)
       | Some (CastRemoveBody target_hash) \<Rightarrow> Inr (md_fid data, target_hash)
       | _ \<Rightarrow> hub_err ''bad_request.validation_failure'' error_text)"

definition cast_make_add_key :: "message \<Rightarrow> state_context \<Rightarrow> bytes res" where
  "cast_make_add_key m ctx =
     bind_res (cast_key_hash ''Invalid cast body for add key'' m) (\<lambda>(fid, hash).
       Inr (make_cast_adds_key_with_prefix (ctx_root_prefix ctx Rp_User) fid hash))"

definition cast_make_remove_key :: "message \<Rightarrow> state_context \<Rightarrow> bytes res" where
  "cast_make_remove_key m ctx =
     bind_res (cast_key_hash ''Invalid cast body for remove key'' m) (\<lambda>(fid, hash).
       Inr (make_cast_removes_key_with_prefix (ctx_root_prefix ctx Rp_User) fid hash))"

definition cast_store_def :: "u32 \<Rightarrow> store_def" where
  "cast_store_def prune_size_limit =
     \<lparr>sd_postfix = postfix_u8 CastMessage,
      sd_add_message_type = message_type_u8 CastAdd,
      sd_remove_message_type = message_type_u8 CastRemove,
      sd_compact_state_message_type = message_type_u8 MessageType_None,
      sd_is_add_type = cast_is_add_type,
      sd_is_remove_type = cast_is_remove_type,
      sd_is_compact_state_type = (\<lambda>_. False),
      sd_build_secondary_indices = cast_build_secondary_indices,
      sd_delete_secondary_indices = cast_delete_secondary_indices,
      sd_make_add_key = cast_make_add_key,
      sd_make_remove_key = cast_make_remove_key,
      sd_make_compact_state_add_key = (\<lambda>_ _. hub_err ''bad_request.invalid_param'' ''Cast Store doesn't support compact state''),
      sd_make_compact_state_prefix = (\<lambda>_ _. hub_err ''bad_request.invalid_param'' ''Cast Store doesn't support compact state''),
      sd_prune_size_limit = prune_size_limit,
      sd_message_compare = cast_message_compare,
      sd_get_merge_conflicts = None,
      sd_revoke_event_args = default_revoke_event,
      sd_merge_event_args = default_merge_event,
      sd_prune_event_args = default_prune_event\<rparr>"

section \<open>CastStore\<close>

definition default_cast_add_body :: cast_add_body where
  "default_cast_add_body = \<lparr>ca_embeds_deprecated = [], ca_mentions = [], ca_parent = None, ca_text = [],
     ca_mentions_positions = [], ca_embeds = [], ca_type = 0\<rparr>"

definition cast_add_partial :: "u64 \<Rightarrow> bytes \<Rightarrow> message" where
  "cast_add_partial fid hash =
     default_message\<lparr>m_data := Some (default_data\<lparr>md_fid := fid, md_type := message_type_i32 CastAdd,
       md_body := Some (CastAddBody default_cast_add_body)\<rparr>), m_hash := hash\<rparr>"

definition get_cast_add :: "'e store \<Rightarrow> u64 \<Rightarrow> bytes \<Rightarrow> message option res" where
  "get_cast_add st fid hash = get_add st (cast_add_partial fid hash) None"

definition cast_remove_partial :: "u64 \<Rightarrow> bytes \<Rightarrow> message" where
  "cast_remove_partial fid hash =
     default_message\<lparr>m_data := Some (default_data\<lparr>md_fid := fid, md_type := message_type_i32 CastRemove,
       md_body := Some (CastRemoveBody hash)\<rparr>)\<rparr>"

definition get_cast_remove :: "'e store \<Rightarrow> u64 \<Rightarrow> bytes \<Rightarrow> message option res" where
  "get_cast_remove st fid hash = get_remove st (cast_remove_partial fid hash)"

definition get_cast_adds_by_fid :: "'e store \<Rightarrow> u64 \<Rightarrow> page_options \<Rightarrow> messages_page res" where
  "get_cast_adds_by_fid st fid po = get_adds_by_fid st fid po None"

definition get_cast_removes_by_fid :: "'e store \<Rightarrow> u64 \<Rightarrow> page_options \<Rightarrow> messages_page res" where
  "get_cast_removes_by_fid st fid po = get_removes_by_fid st fid po None"

definition get_casts_by_parent :: "'e store \<Rightarrow> cast_parent \<Rightarrow> page_options \<Rightarrow> messages_page res" where
  "get_casts_by_parent st parent po = get_messages_by_index st (make_cast_by_parent_key parent 0 None) po (\<lambda>_. True)"

definition get_casts_by_mention :: "'e store \<Rightarrow> u64 \<Rightarrow> page_options \<Rightarrow> messages_page res" where
  "get_casts_by_mention st mention po = get_messages_by_index st (make_cast_by_mention_key mention 0 None) po (\<lambda>_. True)"

section \<open>The contract of the cast store\<close>

text \<open>A cast message as it passes validation, and the hash of the cast it is about.\<close>

definition cast_message :: "message \<Rightarrow> bool" where
  "cast_message m \<longleftrightarrow> length (m_hash m) = 20 \<and> m_signature_scheme m = SignatureScheme_Ed25519
     \<and> (case m_data m of None \<Rightarrow> False | Some d \<Rightarrow> (case md_body d of
          Some (CastAddBody _) \<Rightarrow> md_type d = message_type_i32 CastAdd
        | Some (CastRemoveBody target_hash) \<Rightarrow> md_type d = message_type_i32 CastRemove \<and> length target_hash = 20
        | _ \<Rightarrow> False))"

definition cast_about :: "message \<Rightarrow> bytes" where
  "cast_about m = (case cast_key_hash [] m of Inr (_, hash) \<Rightarrow> hash | Inl _ \<Rightarrow> [])"

text \<open>A remove wins over every add; among adds or among removes the later timestamp and hash win.\<close>

definition cast_prio :: "message \<Rightarrow> bytes" where
  "cast_prio m = (if cast_is_add_type m then 0 else 1) # msg_ts_hash m"

lemma cast_messageE:
  assumes "cast_message m"
  obtains d b where "m_data m = Some d" "md_body d = Some (CastAddBody b)" "md_type d = message_type_i32 CastAdd"
      "cast_is_add_type m" "\<not> cast_is_remove_type m"
  | d h where "m_data m = Some d" "md_body d = Some (CastRemoveBody h)" "md_type d = message_type_i32 CastRemove"
      "length h = 20" "\<not> cast_is_add_type m" "cast_is_remove_type m"
  using assms by (auto simp: cast_message_def cast_is_add_type_def cast_is_remove_type_def message_type_i32_def
      split: option.splits message_body.splits)

lemma cast_index_keys_ok:
  assumes "cast_message m" "cast_is_add_type m"
  shows "\<exists>keys. cast_index_keys ts_hash m ctx = Inr keys \<and> (\<forall>key\<in>set keys. \<not> user_key ctx key)"
  using assms(1)
proof (cases rule: cast_messageE)
  case (1 d b)
  then show ?thesis
    by (cases "ca_parent b") (auto simp: cast_index_keys_def by_parent_secondary_index_key_def by_mention_secondary_index_key_def
        cast_index_body_def ok_or_skip_def hub_err_def make_cast_by_parent_key_with_prefix_def make_cast_by_mention_key_with_prefix_def)
qed (use assms(2) in simp)

lemma cast_stored_in:
  assumes "cast_message m"
  shows "stored_in (cast_store_def n) m"
  using assms
proof (cases rule: cast_messageE)
  case (1 d b)
  then show ?thesis
    by (intro stored_inI[where t = CastAdd and p = CastMessage and d = d]) (use assms in \<open>simp_all add: cast_message_def cast_store_def_def\<close>)
next
  case (2 d h)
  then show ?thesis
    by (intro stored_inI[where t = CastRemove and p = CastMessage and d = d]) (use assms in \<open>simp_all add: cast_message_def cast_store_def_def\<close>)
qed

lemma cast_compare_ok:
  assumes "cast_message m" "cast_message m'"
  shows "sd_message_compare (cast_store_def n)
      (if sd_is_add_type (cast_store_def n) m then sd_add_message_type (cast_store_def n) else sd_remove_message_type (cast_store_def n))
      (msg_ts_hash m)
      (if sd_is_add_type (cast_store_def n) m' then sd_add_message_type (cast_store_def n) else sd_remove_message_type (cast_store_def n))
      (msg_ts_hash m')
    = Inr (bytes_compare (cast_prio m) (cast_prio m'))"
  using stored_inD(2)[OF cast_stored_in[OF assms(1)]] stored_inD(2)[OF cast_stored_in[OF assms(2)]]
    bytes_compare_ts_hash[of "msg_ts_hash m" "msg_ts_hash m'"]
  by (auto simp: cast_store_def_def cast_message_compare_def cast_prio_def Let_def split: if_splits)

lemma cast_keys_ok:
  assumes "cast_message m"
  shows "cast_make_add_key m ctx = Inr (slot_key ctx CastAdds (msg_slot cast_about m))"
    and "cast_make_remove_key m ctx = Inr (slot_key ctx CastRemoves (msg_slot cast_about m))"
proof -
  have "length (m_hash m) = 20" using assms by (simp add: cast_message_def)
  then show "cast_make_add_key m ctx = Inr (slot_key ctx CastAdds (msg_slot cast_about m))"
    "cast_make_remove_key m ctx = Inr (slot_key ctx CastRemoves (msg_slot cast_about m))"
    using assms by (auto elim!: cast_messageE simp: cast_make_add_key_def cast_make_remove_key_def slot_key_def msg_slot_def cast_about_def cast_key_hash_def
      make_cast_adds_key_with_prefix_def make_cast_removes_key_with_prefix_def make_user_key_with_prefix_def HASH_LENGTH_def msg_fid_def)
qed

lemma cast_indices_ok:
  assumes "cast_message m" "cast_is_add_type m"
  shows "\<exists>txn'. cast_build_secondary_indices (msg_ts_hash m) m ctx txn = (Inr (), txn') \<and> (\<forall>k. user_key ctx k \<longrightarrow> map_of txn' k = map_of txn k)"
    and "\<exists>txn'. cast_delete_secondary_indices (msg_ts_hash m) m ctx txn = (Inr (), txn') \<and> (\<forall>k. user_key ctx k \<longrightarrow> map_of txn' k = map_of txn k)"
  using cast_index_keys_ok[OF assms, of "msg_ts_hash m" ctx]
  by (auto simp: cast_build_secondary_indices_def cast_delete_secondary_indices_def modify_st_def user_rows_kept)

lemma cast_indices_keep: "indices_keep (cast_store_def n)"
  by (auto simp: indices_keep_def cast_store_def_def cast_build_secondary_indices_def cast_delete_secondary_indices_def
      intro!: keeps_bind keeps_basic) (auto simp: keeps_def modify_st_def keeps_foldl)

interpretation casts: keyed_set "cast_store_def n" ctx pc cast_about CastAdds CastRemoves cast_message cast_prio
  for n ctx pc
proof
  fix m assume "cast_message m"
  then show "sd_is_add_type (cast_store_def n) m \<noteq> (remove_type_supported (cast_store_def n) \<and> sd_is_remove_type (cast_store_def n) m)"
    by (cases rule: cast_messageE) (auto simp: cast_store_def_def remove_type_supported_def message_type_u8_def)
qed ((erule cast_stored_in | erule (1) cast_compare_ok | simp add: cast_store_def_def cast_keys_ok cast_indices_ok)+)

end
