(* ===== verification/Reaction_Store.thy ===== *)
theory Reaction_Store
  imports Store_Scans
begin

text \<open>
  The reaction store, \<open>src/storage/store/account/reaction_store.rs\<close>: reactions by type and target, with an
  index by target.
\<close>

section \<open>Keys\<close>

definition make_target_key :: "reaction_target \<Rightarrow> bytes" where
  "make_target_key target = (case target of TargetUrl url \<Rightarrow> url | TargetCastId cid \<Rightarrow> make_cast_id_key cid)"

definition make_reactions_by_target_key_with_prefix :: "u8 \<Rightarrow> reaction_target \<Rightarrow> u64 \<Rightarrow> bytes option \<Rightarrow> bytes" where
  "make_reactions_by_target_key_with_prefix root target fid ts_hash =
     root # make_target_key target
       @ (case ts_hash of Some h \<Rightarrow> (if length h = TS_HASH_LENGTH then h else []) | None \<Rightarrow> [])
       @ (if fid > 0 then make_fid_key fid else [])"

definition make_reactions_by_target_key :: "reaction_target \<Rightarrow> u64 \<Rightarrow> bytes option \<Rightarrow> bytes" where
  "make_reactions_by_target_key target fid ts_hash =
     make_reactions_by_target_key_with_prefix (rp_u8 Rp_ReactionsByTarget) target fid ts_hash"

text \<open>\<open>make_reaction_adds_key\<close> and \<open>make_reaction_removes_key\<close> differ in the postfix only.\<close>

definition make_reaction_key :: "user_postfix \<Rightarrow> u8 \<Rightarrow> u64 \<Rightarrow> i32 \<Rightarrow> reaction_target option \<Rightarrow> bytes res" where
  "make_reaction_key postfix root fid ty target =
     (if target \<noteq> None \<and> ty = 0 then hub_err ''bad_request.validation_failure'' ''targetId provided without type''
      else Inr (make_user_key_with_prefix root fid @ [postfix_u8 postfix] @ (if ty > 0 then [word_of_int ty] else [])
        @ (case target of Some t \<Rightarrow> make_target_key t | None \<Rightarrow> [])))"

definition make_reaction_adds_key_with_prefix :: "u8 \<Rightarrow> u64 \<Rightarrow> i32 \<Rightarrow> reaction_target option \<Rightarrow> bytes res" where
  "make_reaction_adds_key_with_prefix = make_reaction_key ReactionAdds"

definition make_reaction_removes_key_with_prefix :: "u8 \<Rightarrow> u64 \<Rightarrow> i32 \<Rightarrow> reaction_target option \<Rightarrow> bytes res" where
  "make_reaction_removes_key_with_prefix = make_reaction_key ReactionRemoves"

section \<open>ReactionStoreDef\<close>

definition reaction_is_add_type :: "message \<Rightarrow> bool" where
  "reaction_is_add_type m = (case m_data m of
     None \<Rightarrow> False
   | Some data \<Rightarrow> m_signature_scheme m = SignatureScheme_Ed25519 \<and> md_type data = message_type_i32 ReactionAdd
       \<and> md_body data \<noteq> None)"

definition reaction_is_remove_type :: "message \<Rightarrow> bool" where
  "reaction_is_remove_type m = (case m_data m of
     None \<Rightarrow> False
   | Some data \<Rightarrow> m_signature_scheme m = SignatureScheme_Ed25519 \<and> md_type data = message_type_i32 ReactionRemove
       \<and> md_body data \<noteq> None)"

definition reaction_body_of :: "message \<Rightarrow> (u64 \<times> reaction_body) res" where
  "reaction_body_of m =
     bind_res (unwrap (m_data m)) (\<lambda>data.
     bind_res (unwrap (md_body data)) (\<lambda>body.
       case body of
         ReactionBody b \<Rightarrow> Inr (md_fid data, b)
       | _ \<Rightarrow> hub_err ''bad_request.validation_failure'' ''Invalid reaction body''))"

definition reaction_secondary_index_key :: "bytes \<Rightarrow> message \<Rightarrow> state_context \<Rightarrow> (bytes \<times> u8) res" where
  "reaction_secondary_index_key ts_hash m ctx =
     bind_res (reaction_body_of m) (\<lambda>(fid, body). case rb_target body of
        None \<Rightarrow> hub_err ''bad_request.validation_failure'' ''Invalid reaction body''
      | Some target \<Rightarrow>
          Inr (make_reactions_by_target_key_with_prefix (ctx_root_prefix ctx Rp_ReactionsByTarget) target fid (Some ts_hash),
               word_of_int (rb_type body)))"

definition reaction_build_secondary_indices :: "bytes \<Rightarrow> message \<Rightarrow> state_context \<Rightarrow> (txn_batch, unit) action" where
  "reaction_build_secondary_indices ts_hash m ctx =
     bind_st (lift_res (reaction_secondary_index_key ts_hash m ctx)) (\<lambda>(by_target_key, rtype).
       modify_st (\<lambda>txn. txn_put txn by_target_key [rtype]))"

definition reaction_delete_secondary_indices :: "bytes \<Rightarrow> message \<Rightarrow> state_context \<Rightarrow> (txn_batch, unit) action" where
  "reaction_delete_secondary_indices ts_hash m ctx =
     bind_st (lift_res (reaction_secondary_index_key ts_hash m ctx)) (\<lambda>(by_target_key, _).
       modify_st (\<lambda>txn. txn_delete txn by_target_key))"

definition reaction_make_add_key :: "message \<Rightarrow> state_context \<Rightarrow> bytes res" where
  "reaction_make_add_key m ctx =
     bind_res (reaction_body_of m) (\<lambda>(fid, body).
       make_reaction_adds_key_with_prefix (ctx_root_prefix ctx Rp_User) fid (rb_type body) (rb_target body))"

definition reaction_make_remove_key :: "message \<Rightarrow> state_context \<Rightarrow> bytes res" where
  "reaction_make_remove_key m ctx =
     bind_res (reaction_body_of m) (\<lambda>(fid, body).
       make_reaction_removes_key_with_prefix (ctx_root_prefix ctx Rp_User) fid (rb_type body) (rb_target body))"

definition reaction_store_def :: "u32 \<Rightarrow> store_def" where
  "reaction_store_def prune_size_limit =
     \<lparr>sd_postfix = postfix_u8 ReactionMessage,
      sd_add_message_type = message_type_u8 ReactionAdd,
      sd_remove_message_type = message_type_u8 ReactionRemove,
      sd_compact_state_message_type = message_type_u8 MessageType_None,
      sd_is_add_type = reaction_is_add_type,
      sd_is_remove_type = reaction_is_remove_type,
      sd_is_compact_state_type = (\<lambda>_. False),
      sd_build_secondary_indices = reaction_build_secondary_indices,
      sd_delete_secondary_indices = reaction_delete_secondary_indices,
      sd_make_add_key = reaction_make_add_key,
      sd_make_remove_key = reaction_make_remove_key,
      sd_make_compact_state_add_key = (\<lambda>_ _. hub_err ''bad_request.invalid_param'' ''Reaction Store doesn't support compact state''),
      sd_make_compact_state_prefix = (\<lambda>_ _. hub_err ''bad_request.invalid_param'' ''Reaction Store doesn't support compact state''),
      sd_prune_size_limit = prune_size_limit,
      sd_message_compare = default_message_compare (message_type_u8 ReactionAdd) (message_type_u8 ReactionRemove),
      sd_get_merge_conflicts = None,
      sd_revoke_event_args = default_revoke_event,
      sd_merge_event_args = default_merge_event,
      sd_prune_event_args = default_prune_event\<rparr>"

section \<open>ReactionStore\<close>

definition reaction_partial :: "message_type \<Rightarrow> u64 \<Rightarrow> i32 \<Rightarrow> reaction_target option \<Rightarrow> message" where
  "reaction_partial mt fid ty target =
     default_message\<lparr>m_data := Some (default_data\<lparr>md_fid := fid, md_type := message_type_i32 mt,
       md_body := Some (ReactionBody \<lparr>rb_type = ty, rb_target = target\<rparr>)\<rparr>)\<rparr>"

definition get_reaction_add :: "'e store \<Rightarrow> u64 \<Rightarrow> i32 \<Rightarrow> reaction_target option \<Rightarrow> message option res" where
  "get_reaction_add st fid ty target = get_add st (reaction_partial ReactionAdd fid ty target) None"

definition get_reaction_remove :: "'e store \<Rightarrow> u64 \<Rightarrow> i32 \<Rightarrow> reaction_target option \<Rightarrow> message option res" where
  "get_reaction_remove st fid ty target = get_remove st (reaction_partial ReactionRemove fid ty target)"

text \<open>The filter is only called on messages that have passed the type test, so it finds their data.\<close>

definition reaction_type_filter :: "i32 \<Rightarrow> message \<Rightarrow> bool" where
  "reaction_type_filter ty m = (case m_data m of
     Some data \<Rightarrow> (case md_body data of Some (ReactionBody b) \<Rightarrow> ty = 0 \<or> rb_type b = ty | _ \<Rightarrow> False)
   | None \<Rightarrow> False)"

definition get_reaction_adds_by_fid :: "'e store \<Rightarrow> u64 \<Rightarrow> i32 \<Rightarrow> page_options \<Rightarrow> messages_page res" where
  "get_reaction_adds_by_fid st fid ty po = get_adds_by_fid st fid po (Some (reaction_type_filter ty))"

definition get_reaction_removes_by_fid :: "'e store \<Rightarrow> u64 \<Rightarrow> i32 \<Rightarrow> page_options \<Rightarrow> messages_page res" where
  "get_reaction_removes_by_fid st fid ty po = get_removes_by_fid st fid po (Some (reaction_type_filter ty))"

definition get_reactions_by_target :: "'e store \<Rightarrow> reaction_target \<Rightarrow> i32 \<Rightarrow> page_options \<Rightarrow> messages_page res" where
  "get_reactions_by_target st target ty po =
     get_messages_by_index st (make_reactions_by_target_key target 0 None) po
       (\<lambda>value. ty = 0 \<or> (length value = 1 \<and> hd value = word_of_int ty))"

section \<open>The contract of the reaction store\<close>

text \<open>A reaction as it passes validation, and what it is about: its type and its target.\<close>

definition reaction_message :: "message \<Rightarrow> bool" where
  "reaction_message m \<longleftrightarrow> length (m_hash m) = 20 \<and> m_signature_scheme m = SignatureScheme_Ed25519
     \<and> (case m_data m of None \<Rightarrow> False | Some d \<Rightarrow> (case md_body d of
          Some (ReactionBody b) \<Rightarrow> rb_type b > 0 \<and> rb_target b \<noteq> None
            \<and> (md_type d = message_type_i32 ReactionAdd \<or> md_type d = message_type_i32 ReactionRemove)
        | _ \<Rightarrow> False))"

definition reaction_about :: "message \<Rightarrow> bytes" where
  "reaction_about m = (case reaction_body_of m of
     Inr (_, b) \<Rightarrow> word_of_int (rb_type b) # (case rb_target b of Some t \<Rightarrow> make_target_key t | None \<Rightarrow> [])
   | Inl _ \<Rightarrow> [])"

lemma reaction_messageE:
  assumes "reaction_message m"
  obtains d b t where "m_data m = Some d" "md_body d = Some (ReactionBody b)" "rb_type b > 0" "rb_target b = Some t"
      "md_type d = message_type_i32 ReactionAdd" "reaction_is_add_type m" "\<not> reaction_is_remove_type m"
  | d b t where "m_data m = Some d" "md_body d = Some (ReactionBody b)" "rb_type b > 0" "rb_target b = Some t"
      "md_type d = message_type_i32 ReactionRemove" "\<not> reaction_is_add_type m" "reaction_is_remove_type m"
  using assms by (auto simp: reaction_message_def reaction_is_add_type_def reaction_is_remove_type_def message_type_i32_def
      split: option.splits message_body.splits)

lemma reaction_stored_in:
  assumes "reaction_message m"
  shows "stored_in (reaction_store_def n) m"
  using assms
proof (cases rule: reaction_messageE)
  case (1 d b t)
  then show ?thesis
    by (intro stored_inI[where t = ReactionAdd and p = ReactionMessage and d = d])
      (use assms in \<open>simp_all add: reaction_message_def reaction_store_def_def\<close>)
next
  case (2 d b t)
  then show ?thesis
    by (intro stored_inI[where t = ReactionRemove and p = ReactionMessage and d = d])
      (use assms in \<open>simp_all add: reaction_message_def reaction_store_def_def\<close>)
qed

lemma reaction_keys_ok:
  assumes "reaction_message m"
  shows "reaction_make_add_key m ctx = Inr (slot_key ctx ReactionAdds (msg_slot reaction_about m))"
    and "reaction_make_remove_key m ctx = Inr (slot_key ctx ReactionRemoves (msg_slot reaction_about m))"
  using assms by (auto elim!: reaction_messageE simp: reaction_make_add_key_def reaction_make_remove_key_def reaction_body_of_def
      make_reaction_adds_key_with_prefix_def make_reaction_removes_key_with_prefix_def make_reaction_key_def slot_key_def msg_slot_def
      reaction_about_def make_user_key_with_prefix_def msg_fid_def)

lemma reaction_indices_ok:
  assumes "reaction_message m"
  shows "\<exists>txn'. reaction_build_secondary_indices (msg_ts_hash m) m ctx txn = (Inr (), txn') \<and> (\<forall>k. user_key ctx k \<longrightarrow> map_of txn' k = map_of txn k)"
    and "\<exists>txn'. reaction_delete_secondary_indices (msg_ts_hash m) m ctx txn = (Inr (), txn') \<and> (\<forall>k. user_key ctx k \<longrightarrow> map_of txn' k = map_of txn k)"
  using assms by (auto elim!: reaction_messageE simp: reaction_build_secondary_indices_def reaction_delete_secondary_indices_def
      reaction_secondary_index_key_def reaction_body_of_def make_reactions_by_target_key_with_prefix_def modify_st_def)

lemma reaction_indices_keep: "indices_keep (reaction_store_def n)"
  by (auto simp: indices_keep_def reaction_store_def_def reaction_build_secondary_indices_def reaction_delete_secondary_indices_def
      split: prod.split intro!: keeps_intros)

interpretation reactions: keyed_set "reaction_store_def n" ctx pc reaction_about ReactionAdds ReactionRemoves reaction_message
    "lww_prio (reaction_store_def n)"
  for n ctx pc
proof
  fix m assume m: "reaction_message m"
  then show "sd_is_add_type (reaction_store_def n) m \<noteq> (remove_type_supported (reaction_store_def n) \<and> sd_is_remove_type (reaction_store_def n) m)"
    by (cases rule: reaction_messageE) (auto simp: reaction_store_def_def remove_type_supported_def message_type_u8_def)
next
  fix m m' assume "reaction_message m" "reaction_message m'"
  then show "sd_message_compare (reaction_store_def n)
      (if sd_is_add_type (reaction_store_def n) m then sd_add_message_type (reaction_store_def n) else sd_remove_message_type (reaction_store_def n)) (msg_ts_hash m)
      (if sd_is_add_type (reaction_store_def n) m' then sd_add_message_type (reaction_store_def n) else sd_remove_message_type (reaction_store_def n)) (msg_ts_hash m')
    = Inr (bytes_compare (lww_prio (reaction_store_def n) m) (lww_prio (reaction_store_def n) m'))"
    by (intro default_compare_ok reaction_stored_in) (simp_all add: reaction_store_def_def message_type_u8_def)
qed ((erule reaction_stored_in | simp add: reaction_store_def_def reaction_keys_ok reaction_indices_ok)+)

end
