(* ===== verification/Verification_Store.thy ===== *)
theory Verification_Store
  imports Store_Scans
begin

text \<open>
  The verification store, \<open>src/storage/store/account/verification_store.rs\<close>: verified addresses, with an
  index from the address to the fid that verified it.
\<close>

section \<open>Keys\<close>

definition make_verification_by_address_key_with_prefix :: "u8 \<Rightarrow> bytes \<Rightarrow> bytes" where
  "make_verification_by_address_key_with_prefix root address = root # address"

definition make_verification_by_address_key :: "bytes \<Rightarrow> bytes" where
  "make_verification_by_address_key address =
     make_verification_by_address_key_with_prefix (rp_u8 Rp_VerificationByAddress) address"

definition make_verification_adds_key_with_prefix :: "u8 \<Rightarrow> u64 \<Rightarrow> bytes \<Rightarrow> bytes" where
  "make_verification_adds_key_with_prefix root fid address =
     make_user_key_with_prefix root fid @ [postfix_u8 VerificationAdds] @ address"

definition make_verification_removes_key_with_prefix :: "u8 \<Rightarrow> u64 \<Rightarrow> bytes \<Rightarrow> bytes" where
  "make_verification_removes_key_with_prefix root fid address =
     make_user_key_with_prefix root fid @ [postfix_u8 VerificationRemoves] @ address"

section \<open>VerificationStoreDef\<close>

definition known_protocol :: "i32 \<Rightarrow> bool" where
  "known_protocol p \<longleftrightarrow> p = Protocol_Ethereum \<or> p = Protocol_Solana"

definition verification_is_add_type :: "message \<Rightarrow> bool" where
  "verification_is_add_type m = (case m_data m of
     None \<Rightarrow> False
   | Some data \<Rightarrow> m_signature_scheme m = SignatureScheme_Ed25519 \<and> md_type data = message_type_i32 VerificationAddEthAddress
       \<and> (case md_body data of Some (VerificationAddAddressBody body) \<Rightarrow> known_protocol (va_protocol body) | _ \<Rightarrow> False))"

definition verification_is_remove_type :: "message \<Rightarrow> bool" where
  "verification_is_remove_type m = (case m_data m of
     None \<Rightarrow> False
   | Some data \<Rightarrow> m_signature_scheme m = SignatureScheme_Ed25519 \<and> md_type data = message_type_i32 VerificationRemove
       \<and> (case md_body data of Some (VerificationRemoveBody body) \<Rightarrow> known_protocol (vr_protocol body) | _ \<Rightarrow> False))"

definition verification_index_key :: "message \<Rightarrow> state_context \<Rightarrow> (u64 \<times> bytes) res" where
  "verification_index_key m ctx =
     bind_res (unwrap (m_data m)) (\<lambda>data.
     bind_res (unwrap (md_body data)) (\<lambda>body.
       case body of
         VerificationAddAddressBody b \<Rightarrow>
           if va_address b = [] then hub_err ''bad_request.invalid_param'' ''address empty''
           else Inr (md_fid data, make_verification_by_address_key_with_prefix
                  (ctx_root_prefix ctx Rp_VerificationByAddress) (va_address b))
       | _ \<Rightarrow> hub_err ''bad_request.invalid_param'' ''address empty''))"

definition verification_build_secondary_indices :: "bytes \<Rightarrow> message \<Rightarrow> state_context \<Rightarrow> (txn_batch, unit) action" where
  "verification_build_secondary_indices ts_hash m ctx =
     bind_st (lift_res (verification_index_key m ctx)) (\<lambda>(fid, by_address_key).
       modify_st (\<lambda>txn. txn_put txn by_address_key (make_fid_key fid)))"

definition verification_delete_secondary_indices :: "bytes \<Rightarrow> message \<Rightarrow> state_context \<Rightarrow> (txn_batch, unit) action" where
  "verification_delete_secondary_indices ts_hash m ctx =
     bind_st (lift_res (verification_index_key m ctx)) (\<lambda>(_, by_address_key).
       modify_st (\<lambda>txn. txn_delete txn by_address_key))"

definition verification_address_of :: "message \<Rightarrow> (u64 \<times> bytes) res" where
  "verification_address_of m =
     bind_res (unwrap (m_data m)) (\<lambda>data.
     bind_res (unwrap (md_body data)) (\<lambda>body.
       case body of
         VerificationAddAddressBody b \<Rightarrow> Inr (md_fid data, va_address b)
       | VerificationRemoveBody b \<Rightarrow> Inr (md_fid data, vr_address b)
       | _ \<Rightarrow> hub_err ''bad_request.validation_failure'' ''Invalid verification body''))"

definition verification_make_add_key :: "message \<Rightarrow> state_context \<Rightarrow> bytes res" where
  "verification_make_add_key m ctx =
     bind_res (verification_address_of m) (\<lambda>(fid, address).
       Inr (make_verification_adds_key_with_prefix (ctx_root_prefix ctx Rp_User) fid address))"

definition verification_make_remove_key :: "message \<Rightarrow> state_context \<Rightarrow> bytes res" where
  "verification_make_remove_key m ctx =
     bind_res (verification_address_of m) (\<lambda>(fid, address).
       Inr (make_verification_removes_key_with_prefix (ctx_root_prefix ctx Rp_User) fid address))"

definition verification_store_def :: "u32 \<Rightarrow> store_def" where
  "verification_store_def prune_size_limit =
     \<lparr>sd_postfix = postfix_u8 VerificationMessage,
      sd_add_message_type = message_type_u8 VerificationAddEthAddress,
      sd_remove_message_type = message_type_u8 VerificationRemove,
      sd_compact_state_message_type = message_type_u8 MessageType_None,
      sd_is_add_type = verification_is_add_type,
      sd_is_remove_type = verification_is_remove_type,
      sd_is_compact_state_type = (\<lambda>_. False),
      sd_build_secondary_indices = verification_build_secondary_indices,
      sd_delete_secondary_indices = verification_delete_secondary_indices,
      sd_make_add_key = verification_make_add_key,
      sd_make_remove_key = verification_make_remove_key,
      sd_make_compact_state_add_key = (\<lambda>_ _. hub_err ''bad_request.invalid_param'' ''Verification Store doesn't support compact state''),
      sd_make_compact_state_prefix = (\<lambda>_ _. hub_err ''bad_request.invalid_param'' ''Verification Store doesn't support compact state''),
      sd_prune_size_limit = prune_size_limit,
      sd_message_compare =
        default_message_compare (message_type_u8 VerificationAddEthAddress) (message_type_u8 VerificationRemove),
      sd_get_merge_conflicts = None,
      sd_revoke_event_args = default_revoke_event,
      sd_merge_event_args = default_merge_event,
      sd_prune_event_args = default_prune_event\<rparr>"

section \<open>VerificationStore\<close>

definition verification_add_partial :: "u64 \<Rightarrow> bytes \<Rightarrow> message" where
  "verification_add_partial fid address =
     default_message\<lparr>m_data := Some (default_data\<lparr>md_fid := fid,
       md_type := message_type_i32 VerificationAddEthAddress,
       md_body := Some (VerificationAddAddressBody \<lparr>va_address = address, va_claim_signature = [], va_block_hash = [],
         va_verification_type = 0, va_chain_id = 0, va_protocol = 0\<rparr>)\<rparr>)\<rparr>"

definition get_verification_add :: "'e store \<Rightarrow> u64 \<Rightarrow> bytes \<Rightarrow> txn_batch option \<Rightarrow> message option res" where
  "get_verification_add st fid address maybe_txn = get_add st (verification_add_partial fid address) maybe_txn"

definition verification_remove_partial :: "u64 \<Rightarrow> bytes \<Rightarrow> message" where
  "verification_remove_partial fid address =
     default_message\<lparr>m_data := Some (default_data\<lparr>md_fid := fid,
       md_type := message_type_i32 VerificationRemove,
       md_body := Some (VerificationRemoveBody \<lparr>vr_address = address, vr_protocol = 0\<rparr>)\<rparr>)\<rparr>"

definition get_verification_remove :: "'e store \<Rightarrow> u64 \<Rightarrow> bytes \<Rightarrow> message option res" where
  "get_verification_remove st fid address = get_remove st (verification_remove_partial fid address)"

definition get_verification_adds_by_fid :: "'e store \<Rightarrow> u64 \<Rightarrow> page_options \<Rightarrow> messages_page res" where
  "get_verification_adds_by_fid st fid po = get_adds_by_fid st fid po None"

definition get_verification_removes_by_fid :: "'e store \<Rightarrow> u64 \<Rightarrow> page_options \<Rightarrow> messages_page res" where
  "get_verification_removes_by_fid st fid po = get_removes_by_fid st fid po None"

definition get_fid_by_address :: "'e store \<Rightarrow> bytes \<Rightarrow> u64 option res" where
  "get_fid_by_address st address =
     bind_res (from_hub (map_err hub_error_from_rocksdb (st_read st (make_verification_by_address_key address)))) (\<lambda>result.
       case result of
         Some value \<Rightarrow> if length value \<ge> FID_BYTES then bind_res (read_fid_key value 0) (\<lambda>fid. Inr (Some fid)) else Inr None
       | None \<Rightarrow> Inr None)"

section \<open>The contract of the verification store\<close>

text \<open>A verification as it passes validation, and the address it is about.\<close>

definition verification_message :: "message \<Rightarrow> bool" where
  "verification_message m \<longleftrightarrow> length (m_hash m) = 20 \<and> m_signature_scheme m = SignatureScheme_Ed25519
     \<and> (case m_data m of None \<Rightarrow> False | Some d \<Rightarrow> (case md_body d of
          Some (VerificationAddAddressBody b) \<Rightarrow>
            md_type d = message_type_i32 VerificationAddEthAddress \<and> known_protocol (va_protocol b) \<and> va_address b \<noteq> []
        | Some (VerificationRemoveBody b) \<Rightarrow> md_type d = message_type_i32 VerificationRemove \<and> known_protocol (vr_protocol b)
        | _ \<Rightarrow> False))"

definition verification_about :: "message \<Rightarrow> bytes" where
  "verification_about m = (case verification_address_of m of Inr (_, address) \<Rightarrow> address | Inl _ \<Rightarrow> [])"

lemma verification_messageE:
  assumes "verification_message m"
  obtains d b where "m_data m = Some d" "md_body d = Some (VerificationAddAddressBody b)" "va_address b \<noteq> []"
      "md_type d = message_type_i32 VerificationAddEthAddress" "verification_is_add_type m" "\<not> verification_is_remove_type m"
  | d b where "m_data m = Some d" "md_body d = Some (VerificationRemoveBody b)"
      "md_type d = message_type_i32 VerificationRemove" "\<not> verification_is_add_type m" "verification_is_remove_type m"
  using assms by (auto simp: verification_message_def verification_is_add_type_def verification_is_remove_type_def message_type_i32_def
      split: option.splits message_body.splits)

lemma verification_stored_in:
  assumes "verification_message m"
  shows "stored_in (verification_store_def n) m"
  using assms
proof (cases rule: verification_messageE)
  case (1 d b)
  then show ?thesis
    by (intro stored_inI[where t = VerificationAddEthAddress and p = VerificationMessage and d = d])
      (use assms in \<open>simp_all add: verification_message_def verification_store_def_def\<close>)
next
  case (2 d b)
  then show ?thesis
    by (intro stored_inI[where t = VerificationRemove and p = VerificationMessage and d = d])
      (use assms in \<open>simp_all add: verification_message_def verification_store_def_def\<close>)
qed

lemma verification_keys_ok:
  assumes "verification_message m"
  shows "verification_make_add_key m ctx = Inr (slot_key ctx VerificationAdds (msg_slot verification_about m))"
    and "verification_make_remove_key m ctx = Inr (slot_key ctx VerificationRemoves (msg_slot verification_about m))"
  using assms by (auto elim!: verification_messageE simp: verification_make_add_key_def verification_make_remove_key_def
      verification_address_of_def make_verification_adds_key_with_prefix_def make_verification_removes_key_with_prefix_def
      slot_key_def msg_slot_def verification_about_def make_user_key_with_prefix_def msg_fid_def)

lemma verification_indices_ok:
  assumes "verification_message m" "verification_is_add_type m"
  shows "\<exists>txn'. verification_build_secondary_indices (msg_ts_hash m) m ctx txn = (Inr (), txn') \<and> (\<forall>k. user_key ctx k \<longrightarrow> map_of txn' k = map_of txn k)"
    and "\<exists>txn'. verification_delete_secondary_indices (msg_ts_hash m) m ctx txn = (Inr (), txn') \<and> (\<forall>k. user_key ctx k \<longrightarrow> map_of txn' k = map_of txn k)"
  using assms by (auto elim!: verification_messageE simp: verification_build_secondary_indices_def verification_delete_secondary_indices_def
      verification_index_key_def make_verification_by_address_key_with_prefix_def modify_st_def)

lemma verification_indices_keep: "indices_keep (verification_store_def n)"
  by (auto simp: indices_keep_def verification_store_def_def verification_build_secondary_indices_def
      verification_delete_secondary_indices_def split: prod.split intro!: keeps_intros)

interpretation verifications: keyed_set "verification_store_def n" ctx pc verification_about VerificationAdds VerificationRemoves
    verification_message "lww_prio (verification_store_def n)"
  for n ctx pc
proof
  fix m assume m: "verification_message m"
  then show "sd_is_add_type (verification_store_def n) m
      \<noteq> (remove_type_supported (verification_store_def n) \<and> sd_is_remove_type (verification_store_def n) m)"
    by (cases rule: verification_messageE) (auto simp: verification_store_def_def remove_type_supported_def message_type_u8_def)
next
  fix m m' assume "verification_message m" "verification_message m'"
  then show "sd_message_compare (verification_store_def n)
      (if sd_is_add_type (verification_store_def n) m then sd_add_message_type (verification_store_def n) else sd_remove_message_type (verification_store_def n)) (msg_ts_hash m)
      (if sd_is_add_type (verification_store_def n) m' then sd_add_message_type (verification_store_def n) else sd_remove_message_type (verification_store_def n)) (msg_ts_hash m')
    = Inr (bytes_compare (lww_prio (verification_store_def n) m) (lww_prio (verification_store_def n) m'))"
    by (intro default_compare_ok verification_stored_in) (simp_all add: verification_store_def_def message_type_u8_def)
qed ((erule verification_stored_in | simp add: verification_store_def_def verification_keys_ok verification_indices_ok)+)

end
