(* ===== verification/User_Data_Store.thy ===== *)
theory User_Data_Store
  imports Store_Scans
begin

text \<open>
  User data and fname proofs: \<open>src/storage/store/account/user_data_store.rs\<close> and
  \<open>src/storage/store/account/name_registry_events.rs\<close>.
\<close>

section \<open>Name registry rows\<close>

definition make_fname_username_proof_key :: "bytes \<Rightarrow> bytes" where
  "make_fname_username_proof_key name = rp_u8 Rp_FNameUserNameProof # name"

definition make_fname_username_proof_by_fid_key :: "u64 \<Rightarrow> bytes" where
  "make_fname_username_proof_by_fid_key fid = rp_u8 Rp_FNameUserNameProofByFid # make_fid_key fid"

definition decode_username_proof :: "proto_codec \<Rightarrow> bytes \<Rightarrow> user_name_proof option res" where
  "decode_username_proof pc buf =
     (case dec_user_name_proof pc buf of
        Some proof \<Rightarrow> Inr (Some proof)
      | None \<Rightarrow> hub_err ''internal_error'' ''could not decode username proof'')"

definition get_username_proof :: "proto_codec \<Rightarrow> db_read \<Rightarrow> txn_batch \<Rightarrow> bytes \<Rightarrow> user_name_proof option res" where
  "get_username_proof pc rd txn name =
     bind_res (from_hub (get_from_db_or_txn rd txn (make_fname_username_proof_key name))) (\<lambda>buf.
       case buf of None \<Rightarrow> Inr None | Some b \<Rightarrow> decode_username_proof pc b)"

definition get_fname_proof_by_fid :: "proto_codec \<Rightarrow> db_read \<Rightarrow> u64 \<Rightarrow> user_name_proof option res" where
  "get_fname_proof_by_fid pc rd fid =
     bind_res (from_hub (map_err hub_error_from_rocksdb (rd (make_fname_username_proof_by_fid_key fid)))) (\<lambda>primary_key.
       case primary_key of
         None \<Rightarrow> Inr None
       | Some k \<Rightarrow>
           bind_res (from_hub (map_err hub_error_from_rocksdb (rd k))) (\<lambda>buf.
             case buf of None \<Rightarrow> Inr None | Some b \<Rightarrow> decode_username_proof pc b))"

definition put_username_proof_transaction :: "proto_codec \<Rightarrow> user_name_proof \<Rightarrow> u64 option \<Rightarrow> txn_batch \<Rightarrow> txn_batch" where
  "put_username_proof_transaction pc proof existing_fid txn =
     (let primary_key = make_fname_username_proof_key (up_name proof);
          txn1 = txn_put txn primary_key (enc_user_name_proof pc proof);
          txn2 = txn_put txn1 (make_fname_username_proof_by_fid_key (up_fid proof)) primary_key
      in case existing_fid of
        Some fid \<Rightarrow> txn_delete txn2 (make_fname_username_proof_by_fid_key fid)
      | None \<Rightarrow> txn2)"

definition delete_username_proof_transaction :: "proto_codec \<Rightarrow> user_name_proof \<Rightarrow> u64 option \<Rightarrow> txn_batch \<Rightarrow> txn_batch" where
  "delete_username_proof_transaction pc proof existing_fid txn =
     (let txn1 = txn_put txn (make_fname_username_proof_key (up_name proof)) (enc_user_name_proof pc proof)
      in case existing_fid of
        Some fid \<Rightarrow> txn_delete txn1 (make_fname_username_proof_by_fid_key fid)
      | None \<Rightarrow> txn1)"

section \<open>UserDataStoreDef\<close>

definition make_user_data_adds_key_with_prefix :: "u8 \<Rightarrow> u64 \<Rightarrow> i32 \<Rightarrow> bytes" where
  "make_user_data_adds_key_with_prefix root fid data_type =
     make_user_key_with_prefix root fid @ [postfix_u8 UserDataAdds] @ (if data_type > 0 then [word_of_int data_type] else [])"

definition user_data_is_add_type :: "message \<Rightarrow> bool" where
  "user_data_is_add_type m = (case m_data m of
     None \<Rightarrow> False
   | Some data \<Rightarrow> m_signature_scheme m = SignatureScheme_Ed25519 \<and> md_type data = message_type_i32 UserDataAdd
       \<and> md_body data \<noteq> None)"

definition user_data_make_add_key :: "message \<Rightarrow> state_context \<Rightarrow> bytes res" where
  "user_data_make_add_key m ctx =
     bind_res (unwrap (m_data m)) (\<lambda>data.
     bind_res (unwrap (md_body data)) (\<lambda>body.
       case body of
         UserDataBody b \<Rightarrow> Inr (make_user_data_adds_key_with_prefix (ctx_root_prefix ctx Rp_User) (md_fid data) (ud_type b))
       | _ \<Rightarrow> hub_err ''bad_request.invalid_param'' ''UserDataAdd message missing body''))"

definition user_data_store_def :: "u32 \<Rightarrow> store_def" where
  "user_data_store_def prune_size_limit =
     \<lparr>sd_postfix = postfix_u8 UserDataMessage,
      sd_add_message_type = message_type_u8 UserDataAdd,
      sd_remove_message_type = message_type_u8 MessageType_None,
      sd_compact_state_message_type = message_type_u8 MessageType_None,
      sd_is_add_type = user_data_is_add_type,
      sd_is_remove_type = (\<lambda>_. False),
      sd_is_compact_state_type = (\<lambda>_. False),
      sd_build_secondary_indices = no_secondary_indices,
      sd_delete_secondary_indices = no_secondary_indices,
      sd_make_add_key = user_data_make_add_key,
      sd_make_remove_key = (\<lambda>_ _. hub_err ''bad_request.invalid_param'' ''removes not supported''),
      sd_make_compact_state_add_key = (\<lambda>_ _. hub_err ''bad_request.invalid_param'' ''UserDataStore doesn't support compact state''),
      sd_make_compact_state_prefix = (\<lambda>_ _. hub_err ''bad_request.invalid_param'' ''UserDataStore doesn't support compact state''),
      sd_prune_size_limit = prune_size_limit,
      sd_message_compare = default_message_compare (message_type_u8 UserDataAdd) (message_type_u8 MessageType_None),
      sd_get_merge_conflicts = None,
      sd_revoke_event_args = default_revoke_event,
      sd_merge_event_args = default_merge_event,
      sd_prune_event_args = default_prune_event\<rparr>"

section \<open>UserDataStore\<close>

definition user_data_partial :: "u64 \<Rightarrow> i32 \<Rightarrow> message" where
  "user_data_partial fid ty =
     default_message\<lparr>m_data := Some (default_data\<lparr>md_fid := fid, md_type := message_type_i32 UserDataAdd,
       md_body := Some (UserDataBody \<lparr>ud_type = ty, ud_value = []\<rparr>)\<rparr>)\<rparr>"

definition get_user_data_add :: "'e store \<Rightarrow> u64 \<Rightarrow> i32 \<Rightarrow> message option res" where
  "get_user_data_add st fid ty = get_add st (user_data_partial fid ty) None"

definition get_user_data_adds_by_fid ::
  "'e store \<Rightarrow> u64 \<Rightarrow> page_options \<Rightarrow> u32 option \<Rightarrow> u32 option \<Rightarrow> messages_page res" where
  "get_user_data_adds_by_fid st fid po start_time stop_time =
     get_adds_by_fid st fid po (Some (is_message_in_time_range start_time stop_time))"

definition user_data_type_filter :: "i32 \<Rightarrow> message \<Rightarrow> bool" where
  "user_data_type_filter ty m = (case m_data m of
     Some data \<Rightarrow> (case md_body data of Some (UserDataBody b) \<Rightarrow> ud_type b = ty | _ \<Rightarrow> False)
   | None \<Rightarrow> False)"

definition get_user_data_by_fid_and_type :: "'e store \<Rightarrow> u64 \<Rightarrow> i32 \<Rightarrow> message res" where
  "get_user_data_by_fid_and_type st fid ty =
     (case get_adds_by_fid st fid default_page_options (Some (user_data_type_filter ty)) of
        Inr page \<Rightarrow> (case mp_messages page of [m] \<Rightarrow> Inr m | _ \<Rightarrow> hub_err ''not_found'' ''user data not found'')
      | Inl Panic \<Rightarrow> Inl Panic
      | Inl (HubFailure _) \<Rightarrow> hub_err ''not_found'' ''user data not found'')"

definition username_proof_compare :: "user_name_proof \<Rightarrow> user_name_proof \<Rightarrow> int" where
  "username_proof_compare a b =
     (if up_timestamp a < up_timestamp b then - 1
      else if up_timestamp a > up_timestamp b then 1
      else bytes_compare (up_signature a) (up_signature b))"

definition merge_username_proof :: "'e store \<Rightarrow> user_name_proof \<Rightarrow> (store_state, hub_event) action" where
  "merge_username_proof st proof =
     bind_st get_st (\<lambda>s.
     bind_st (lift_res (get_username_proof (st_codec st) (st_read st) (ss_txn s) (up_name proof))) (\<lambda>existing_proof.
     bind_st (lift_res (case existing_proof of
         Some old \<Rightarrow>
           (let cmp = username_proof_compare old proof
            in if cmp = 0 then hub_err ''bad_request.duplicate'' ''username proof already exists''
               else if cmp > 0 then hub_err ''bad_request.conflict'' ''event conflicts with a more recent UserNameProof''
               else Inr (Some (up_fid old)))
       | None \<Rightarrow>
           if up_fid proof = 0 then hub_err ''bad_request.conflict'' ''proof does not exist'' else Inr None)) (\<lambda>existing_fid.
     bind_st (on_txn (modify_st
         (if up_fid proof = 0 then delete_username_proof_transaction (st_codec st) proof existing_fid
          else put_username_proof_transaction (st_codec st) proof existing_fid))) (\<lambda>_.
       commit_transaction (st_codec st) (st_no_persist st)
         (new_event MergeUsernameProof (MergeUsernameProofBody (Some proof) existing_proof None None))))))"

section \<open>The contract of the user data store\<close>

text \<open>User data as it passes validation, and the type of data it sets. The store has no removes.\<close>

definition user_data_message :: "message \<Rightarrow> bool" where
  "user_data_message m \<longleftrightarrow> length (m_hash m) = 20 \<and> m_signature_scheme m = SignatureScheme_Ed25519
     \<and> (case m_data m of None \<Rightarrow> False | Some d \<Rightarrow> (case md_body d of
          Some (UserDataBody b) \<Rightarrow> md_type d = message_type_i32 UserDataAdd
        | _ \<Rightarrow> False))"

definition user_data_about :: "message \<Rightarrow> bytes" where
  "user_data_about m = (case m_data m of
     Some d \<Rightarrow> (case md_body d of Some (UserDataBody b) \<Rightarrow> (if ud_type b > 0 then [word_of_int (ud_type b)] else []) | _ \<Rightarrow> [])
   | None \<Rightarrow> [])"

lemma user_data_messageE:
  assumes "user_data_message m"
  obtains d b where "m_data m = Some d" "md_body d = Some (UserDataBody b)"
      "md_type d = message_type_i32 UserDataAdd" "user_data_is_add_type m"
  using assms by (auto simp: user_data_message_def user_data_is_add_type_def split: option.splits message_body.splits)

lemma user_data_stored_in:
  assumes "user_data_message m"
  shows "stored_in (user_data_store_def n) m"
  using assms
proof (cases rule: user_data_messageE)
  case (1 d b)
  then show ?thesis
    by (intro stored_inI[where t = UserDataAdd and p = UserDataMessage and d = d])
      (use assms in \<open>simp_all add: user_data_message_def user_data_store_def_def\<close>)
qed

lemma user_data_key_ok:
  assumes "user_data_message m"
  shows "user_data_make_add_key m ctx = Inr (slot_key ctx UserDataAdds (msg_slot user_data_about m))"
  using assms by (auto elim!: user_data_messageE simp: user_data_make_add_key_def make_user_data_adds_key_with_prefix_def
      slot_key_def msg_slot_def user_data_about_def make_user_key_with_prefix_def msg_fid_def)

lemma user_data_no_removes: "\<not> remove_type_supported (user_data_store_def n)"
  by (simp add: remove_type_supported_def user_data_store_def_def)

lemma user_data_indices_keep: "indices_keep (user_data_store_def n)"
  by (auto simp: indices_keep_def user_data_store_def_def no_secondary_indices_def intro!: keeps_intros)

interpretation user_data: keyed_set "user_data_store_def n" ctx pc user_data_about UserDataAdds UserDataAdds
    user_data_message "lww_prio (user_data_store_def n)"
  for n ctx pc
proof
  fix m m' assume "user_data_message m" "user_data_message m'"
  then show "sd_message_compare (user_data_store_def n)
      (if sd_is_add_type (user_data_store_def n) m then sd_add_message_type (user_data_store_def n) else sd_remove_message_type (user_data_store_def n)) (msg_ts_hash m)
      (if sd_is_add_type (user_data_store_def n) m' then sd_add_message_type (user_data_store_def n) else sd_remove_message_type (user_data_store_def n)) (msg_ts_hash m')
    = Inr (bytes_compare (lww_prio (user_data_store_def n) m) (lww_prio (user_data_store_def n) m'))"
    by (intro default_compare_ok user_data_stored_in) (simp_all add: user_data_store_def_def message_type_u8_def)
next
  fix m assume "user_data_message m"
  then show "sd_is_add_type (user_data_store_def n) m
      \<noteq> (remove_type_supported (user_data_store_def n) \<and> sd_is_remove_type (user_data_store_def n) m)"
    by (cases rule: user_data_messageE) (simp add: user_data_store_def_def)
qed ((erule user_data_stored_in | simp add: user_data_no_removes
    | simp add: user_data_store_def_def user_data_key_ok no_secondary_indices_def)+)

end
