(* ===== verification/Link_Store.thy ===== *)
theory Link_Store
  imports Store_Scans
begin

text \<open>
  The link store, \<open>src/storage/store/account/link_store.rs\<close>: links by type and target, the compact state
  that replaces all older links of a type, and an index by target.
\<close>

section \<open>Keys\<close>

definition LINK_TYPE_BYTE_SIZE :: nat where
  "LINK_TYPE_BYTE_SIZE = 8"

definition TARGET_ID_BYTE_SIZE :: nat where
  "TARGET_ID_BYTE_SIZE = 4"

text \<open>\<open>Vec::resize(8, 0)\<close>: cut or padded with zero bytes.\<close>

definition resize_link_type :: "bytes \<Rightarrow> bytes" where
  "resize_link_type ty = take LINK_TYPE_BYTE_SIZE (ty @ replicate LINK_TYPE_BYTE_SIZE 0)"

definition link_compact_state_add_key_with_prefix :: "u8 \<Rightarrow> u64 \<Rightarrow> utf8 \<Rightarrow> bytes res" where
  "link_compact_state_add_key_with_prefix root fid link_type =
     Inr (make_user_key_with_prefix root fid @ [postfix_u8 LinkCompactStateMessage] @ resize_link_type link_type)"

definition link_key :: "user_postfix \<Rightarrow> string \<Rightarrow> u8 \<Rightarrow> u64 \<Rightarrow> link_body \<Rightarrow> bytes res" where
  "link_key postfix target_error root fid body =
     (if lb_target body \<noteq> None \<and> lb_type body = [] then Inl (HubFailure (validation_failure target_error))
      else if lb_type body \<noteq> [] \<and> length (lb_type body) > LINK_TYPE_BYTE_SIZE then
        Inl (HubFailure (validation_failure ''link type invalid - non-empty link type found with invalid length''))
      else Inr (make_user_key_with_prefix root fid @ [postfix_u8 postfix] @ resize_link_type (lb_type body)
        @ (case lb_target body of None \<Rightarrow> [] | Some target \<Rightarrow> take TARGET_ID_BYTE_SIZE (make_fid_key target))))"

definition link_add_key_with_prefix :: "u8 \<Rightarrow> u64 \<Rightarrow> link_body \<Rightarrow> bytes res" where
  "link_add_key_with_prefix = link_key LinkAdds ''targetId provided without type''"

definition link_remove_key_with_prefix :: "u8 \<Rightarrow> u64 \<Rightarrow> link_body \<Rightarrow> bytes res" where
  "link_remove_key_with_prefix = link_key LinkRemoves ''targetID provided without type''"

definition links_by_target_key_with_prefix :: "u8 \<Rightarrow> u64 \<Rightarrow> u64 \<Rightarrow> bytes option \<Rightarrow> bytes res" where
  "links_by_target_key_with_prefix root target fid ts_hash =
     (if fid \<noteq> 0 \<and> (case ts_hash of None \<Rightarrow> True | Some h \<Rightarrow> h = []) then
        Inl (HubFailure (validation_failure ''fid provided without timestamp hash''))
      else if ts_hash \<noteq> None \<and> fid = 0 then Inl (HubFailure (validation_failure ''timestamp hash provided without fid''))
      else Inr (root # make_fid_key target @ (case ts_hash of Some h \<Rightarrow> h | None \<Rightarrow> [])
        @ (if fid > 0 then make_fid_key fid else [])))"

definition links_by_target_key :: "u64 \<Rightarrow> u64 \<Rightarrow> bytes option \<Rightarrow> bytes res" where
  "links_by_target_key target fid ts_hash = links_by_target_key_with_prefix (rp_u8 Rp_LinksByTarget) target fid ts_hash"

section \<open>StoreDef for LinkStore\<close>

definition link_type_test :: "message_type \<Rightarrow> message \<Rightarrow> bool" where
  "link_type_test mt m = (case m_data m of
     None \<Rightarrow> False
   | Some data \<Rightarrow> m_signature_scheme m = SignatureScheme_Ed25519 \<and> md_type data = message_type_i32 mt
       \<and> md_body data \<noteq> None)"

definition link_data_body :: "message \<Rightarrow> (u64 \<times> message_body) res" where
  "link_data_body m =
     (case m_data m of
        None \<Rightarrow> Inl (HubFailure (invalid_parameter ''invalid message data''))
      | Some data \<Rightarrow> (case md_body data of
            None \<Rightarrow> Inl (HubFailure (invalid_parameter ''invalid message data body''))
          | Some body \<Rightarrow> Inr (md_fid data, body)))"

definition link_secondary_index_key :: "bytes \<Rightarrow> message \<Rightarrow> state_context \<Rightarrow> (bytes \<times> bytes) res" where
  "link_secondary_index_key ts_hash m ctx =
     bind_res (link_data_body m) (\<lambda>(fid, body). case body of
        LinkBody b \<Rightarrow> (case lb_target b of
            None \<Rightarrow> Inl (HubFailure (invalid_parameter ''target ID not specified''))
          | Some target \<Rightarrow>
              bind_res (links_by_target_key_with_prefix (ctx_root_prefix ctx Rp_LinksByTarget) target fid (Some ts_hash))
                (\<lambda>target_key. Inr (target_key, lb_type b)))
      | _ \<Rightarrow> Inl (HubFailure (invalid_parameter ''link body not specified'')))"

definition link_build_secondary_indices :: "bytes \<Rightarrow> message \<Rightarrow> state_context \<Rightarrow> (txn_batch, unit) action" where
  "link_build_secondary_indices ts_hash m ctx =
     bind_st (lift_res (link_secondary_index_key ts_hash m ctx)) (\<lambda>(by_target_key, rtype).
       modify_st (\<lambda>txn. txn_put txn by_target_key rtype))"

definition link_delete_secondary_indices :: "bytes \<Rightarrow> message \<Rightarrow> state_context \<Rightarrow> (txn_batch, unit) action" where
  "link_delete_secondary_indices ts_hash m ctx =
     bind_st (lift_res (link_secondary_index_key ts_hash m ctx)) (\<lambda>(by_target_key, _).
       modify_st (\<lambda>txn. txn_delete txn by_target_key))"

definition link_make_compact_state_add_key :: "message \<Rightarrow> state_context \<Rightarrow> bytes res" where
  "link_make_compact_state_add_key m ctx =
     bind_res (link_data_body m) (\<lambda>(fid, body). case body of
        LinkCompactStateBody b \<Rightarrow> link_compact_state_add_key_with_prefix (ctx_root_prefix ctx Rp_User) fid (lc_type b)
      | LinkBody b \<Rightarrow> link_compact_state_add_key_with_prefix (ctx_root_prefix ctx Rp_User) fid (lb_type b)
      | _ \<Rightarrow> Inl (HubFailure (invalid_parameter ''link_compact_body not specified'')))"

definition link_make_compact_state_prefix :: "u64 \<Rightarrow> state_context \<Rightarrow> bytes res" where
  "link_make_compact_state_prefix fid ctx =
     Inr (make_user_key_with_prefix (ctx_root_prefix ctx Rp_User) fid @ [postfix_u8 LinkCompactStateMessage])"

definition link_make_add_key :: "message \<Rightarrow> state_context \<Rightarrow> bytes res" where
  "link_make_add_key m ctx =
     bind_res (link_data_body m) (\<lambda>(fid, body). case body of
        LinkBody b \<Rightarrow> link_add_key_with_prefix (ctx_root_prefix ctx Rp_User) fid b
      | _ \<Rightarrow> Inl (HubFailure (invalid_parameter ''link body not specified'')))"

definition link_make_remove_key :: "message \<Rightarrow> state_context \<Rightarrow> bytes res" where
  "link_make_remove_key m ctx =
     bind_res (link_data_body m) (\<lambda>(fid, body). case body of
        LinkBody b \<Rightarrow> link_remove_key_with_prefix (ctx_root_prefix ctx Rp_User) fid b
      | _ \<Rightarrow> Inl (HubFailure (invalid_parameter ''link body not specified'')))"

definition link_store_def :: "u32 \<Rightarrow> store_def" where
  "link_store_def prune_size_limit =
     \<lparr>sd_postfix = postfix_u8 LinkMessage,
      sd_add_message_type = message_type_u8 LinkAdd,
      sd_remove_message_type = message_type_u8 LinkRemove,
      sd_compact_state_message_type = message_type_u8 LinkCompactState,
      sd_is_add_type = link_type_test LinkAdd,
      sd_is_remove_type = link_type_test LinkRemove,
      sd_is_compact_state_type = link_type_test LinkCompactState,
      sd_build_secondary_indices = link_build_secondary_indices,
      sd_delete_secondary_indices = link_delete_secondary_indices,
      sd_make_add_key = link_make_add_key,
      sd_make_remove_key = link_make_remove_key,
      sd_make_compact_state_add_key = link_make_compact_state_add_key,
      sd_make_compact_state_prefix = link_make_compact_state_prefix,
      sd_prune_size_limit = prune_size_limit,
      sd_message_compare = default_message_compare (message_type_u8 LinkAdd) (message_type_u8 LinkRemove),
      sd_get_merge_conflicts = None,
      sd_revoke_event_args = default_revoke_event,
      sd_merge_event_args = default_merge_event,
      sd_prune_event_args = default_prune_event\<rparr>"

section \<open>LinkStore\<close>

definition link_partial :: "message_type \<Rightarrow> u64 \<Rightarrow> utf8 \<Rightarrow> u64 option \<Rightarrow> message" where
  "link_partial mt fid ty target =
     default_message\<lparr>m_data := Some (default_data\<lparr>md_fid := fid, md_type := message_type_i32 mt,
       md_body := Some (LinkBody \<lparr>lb_type = ty, lb_display_timestamp = None, lb_target = target\<rparr>)\<rparr>)\<rparr>"

definition get_link_add :: "'e store \<Rightarrow> u64 \<Rightarrow> utf8 \<Rightarrow> u64 option \<Rightarrow> message option res" where
  "get_link_add st fid ty target = get_add st (link_partial LinkAdd fid ty target) None"

definition get_link_remove :: "'e store \<Rightarrow> u64 \<Rightarrow> utf8 \<Rightarrow> u64 option \<Rightarrow> message option res" where
  "get_link_remove st fid ty target = get_remove st (link_partial LinkRemove fid ty target)"

definition link_type_filter :: "utf8 \<Rightarrow> message \<Rightarrow> bool" where
  "link_type_filter ty m = (case m_data m of
     Some data \<Rightarrow> (case md_body data of Some (LinkBody body) \<Rightarrow> ty = [] \<or> lb_type body = ty | _ \<Rightarrow> False)
   | None \<Rightarrow> False)"

definition get_link_adds_by_fid :: "'e store \<Rightarrow> u64 \<Rightarrow> utf8 \<Rightarrow> page_options \<Rightarrow> messages_page res" where
  "get_link_adds_by_fid st fid ty po = get_adds_by_fid st fid po (Some (link_type_filter ty))"

definition get_link_removes_by_fid :: "'e store \<Rightarrow> u64 \<Rightarrow> utf8 \<Rightarrow> page_options \<Rightarrow> messages_page res" where
  "get_link_removes_by_fid st fid ty po = get_removes_by_fid st fid po (Some (link_type_filter ty))"

definition get_link_compact_state_message_by_fid :: "'e store \<Rightarrow> u64 \<Rightarrow> page_options \<Rightarrow> messages_page res" where
  "get_link_compact_state_message_by_fid st fid po = get_compact_state_messages_by_fid st fid po"

definition get_links_by_target :: "'e store \<Rightarrow> u64 \<Rightarrow> utf8 \<Rightarrow> page_options \<Rightarrow> messages_page res" where
  "get_links_by_target st target ty po =
     bind_res (links_by_target_key target 0 None) (\<lambda>start_prefix.
       get_messages_by_index st start_prefix po (\<lambda>value. ty = [] \<or> value = ty))"

section \<open>The contract of the link store\<close>

text \<open>A link as it passes validation, and what it is about: its type and its target.\<close>

definition link_message :: "message \<Rightarrow> bool" where
  "link_message m \<longleftrightarrow> length (m_hash m) = 20 \<and> m_signature_scheme m = SignatureScheme_Ed25519
     \<and> (case m_data m of None \<Rightarrow> False | Some d \<Rightarrow> md_fid d \<noteq> 0 \<and> (case md_body d of
          Some (LinkBody b) \<Rightarrow> lb_type b \<noteq> [] \<and> length (lb_type b) \<le> 8 \<and> lb_target b \<noteq> None
            \<and> (md_type d = message_type_i32 LinkAdd \<or> md_type d = message_type_i32 LinkRemove)
        | _ \<Rightarrow> False))"

definition link_about :: "message \<Rightarrow> bytes" where
  "link_about m = (case m_data m of
     Some d \<Rightarrow> (case md_body d of
         Some (LinkBody b) \<Rightarrow> resize_link_type (lb_type b) @ (case lb_target b of Some t \<Rightarrow> make_fid_key t | None \<Rightarrow> [])
       | _ \<Rightarrow> [])
   | None \<Rightarrow> [])"

lemma link_messageE:
  assumes "link_message m"
  obtains d b t where "m_data m = Some d" "md_body d = Some (LinkBody b)" "lb_target b = Some t" "lb_type b \<noteq> []" "length (lb_type b) \<le> 8"
      "md_fid d \<noteq> 0" "\<not> link_type_test LinkCompactState m"
      "md_type d = message_type_i32 LinkAdd" "link_type_test LinkAdd m" "\<not> link_type_test LinkRemove m"
  | d b t where "m_data m = Some d" "md_body d = Some (LinkBody b)" "lb_target b = Some t" "lb_type b \<noteq> []" "length (lb_type b) \<le> 8"
      "md_fid d \<noteq> 0" "\<not> link_type_test LinkCompactState m"
      "md_type d = message_type_i32 LinkRemove" "\<not> link_type_test LinkAdd m" "link_type_test LinkRemove m"
  using assms by (auto simp: link_message_def link_type_test_def message_type_i32_def split: option.splits message_body.splits)

lemma link_stored_in:
  assumes "link_message m"
  shows "stored_in (link_store_def n) m"
  using assms
proof (cases rule: link_messageE)
  case (1 d b t)
  then show ?thesis
    by (intro stored_inI[where t = LinkAdd and p = LinkMessage and d = d])
      (use assms in \<open>simp_all add: link_message_def link_store_def_def\<close>)
next
  case (2 d b t)
  then show ?thesis
    by (intro stored_inI[where t = LinkRemove and p = LinkMessage and d = d])
      (use assms in \<open>simp_all add: link_message_def link_store_def_def\<close>)
qed

lemma link_keys_ok:
  assumes "link_message m"
  shows "link_make_add_key m ctx = Inr (slot_key ctx LinkAdds (msg_slot link_about m))"
    and "link_make_remove_key m ctx = Inr (slot_key ctx LinkRemoves (msg_slot link_about m))"
  using assms by (auto elim!: link_messageE simp: link_make_add_key_def link_make_remove_key_def link_add_key_with_prefix_def
      link_remove_key_with_prefix_def link_key_def link_data_body_def slot_key_def msg_slot_def link_about_def
      make_user_key_with_prefix_def msg_fid_def LINK_TYPE_BYTE_SIZE_def TARGET_ID_BYTE_SIZE_def)

lemma link_indices_ok:
  assumes "link_message m"
  shows "\<exists>txn'. link_build_secondary_indices (msg_ts_hash m) m ctx txn = (Inr (), txn') \<and> (\<forall>k. user_key ctx k \<longrightarrow> map_of txn' k = map_of txn k)"
    and "\<exists>txn'. link_delete_secondary_indices (msg_ts_hash m) m ctx txn = (Inr (), txn') \<and> (\<forall>k. user_key ctx k \<longrightarrow> map_of txn' k = map_of txn k)"
proof -
  obtain d b t where "m_data m = Some d" "md_body d = Some (LinkBody b)" "lb_target b = Some t" "md_fid d \<noteq> 0"
    using assms by (auto elim: link_messageE)
  moreover have "msg_ts_hash m \<noteq> []" using stored_inD(2)[OF link_stored_in[OF assms]] by force
  ultimately have "\<exists>k. link_secondary_index_key (msg_ts_hash m) m ctx = Inr (ctx_root_prefix ctx Rp_LinksByTarget # k, lb_type b)"
    by (simp add: link_secondary_index_key_def link_data_body_def links_by_target_key_with_prefix_def)
  then show "\<exists>txn'. link_build_secondary_indices (msg_ts_hash m) m ctx txn = (Inr (), txn') \<and> (\<forall>k. user_key ctx k \<longrightarrow> map_of txn' k = map_of txn k)"
    "\<exists>txn'. link_delete_secondary_indices (msg_ts_hash m) m ctx txn = (Inr (), txn') \<and> (\<forall>k. user_key ctx k \<longrightarrow> map_of txn' k = map_of txn k)"
    by (auto simp: link_build_secondary_indices_def link_delete_secondary_indices_def modify_st_def)
qed

lemma link_indices_keep: "indices_keep (link_store_def n)"
  by (auto simp: indices_keep_def link_store_def_def link_build_secondary_indices_def link_delete_secondary_indices_def
      split: prod.split intro!: keeps_intros)

interpretation links: keyed_set "link_store_def n" ctx pc link_about LinkAdds LinkRemoves link_message
    "lww_prio (link_store_def n)"
  for n ctx pc
proof
  fix m assume m: "link_message m"
  then show "sd_is_add_type (link_store_def n) m \<noteq> (remove_type_supported (link_store_def n) \<and> sd_is_remove_type (link_store_def n) m)"
    by (cases rule: link_messageE) (auto simp: link_store_def_def remove_type_supported_def message_type_u8_def)
  show "\<not> sd_is_compact_state_type (link_store_def n) m"
    using m by (cases rule: link_messageE) (simp_all add: link_store_def_def)
next
  fix m m' assume "link_message m" "link_message m'"
  then show "sd_message_compare (link_store_def n)
      (if sd_is_add_type (link_store_def n) m then sd_add_message_type (link_store_def n) else sd_remove_message_type (link_store_def n)) (msg_ts_hash m)
      (if sd_is_add_type (link_store_def n) m' then sd_add_message_type (link_store_def n) else sd_remove_message_type (link_store_def n)) (msg_ts_hash m')
    = Inr (bytes_compare (lww_prio (link_store_def n) m) (lww_prio (link_store_def n) m'))"
    by (intro default_compare_ok link_stored_in) (simp_all add: link_store_def_def message_type_u8_def)
qed ((erule link_stored_in | simp add: link_store_def_def link_keys_ok link_indices_ok)+)

end
