(* ===== verification/Account_Spec.thy ===== *)
theory Account_Spec
  imports Cast_Store Reaction_Store Verification_Store User_Data_Store Link_Store
begin

text \<open>
  What the account stores promise: a merge is refused or replaces what it beats, and once a run of merges
  is committed a reader finds, for everything the messages are about, the one message that wins.
\<close>

section \<open>Samples for the witnesses\<close>

text \<open>A codec that knows the messages \<open>ms\<close>, and a store over an empty database.\<close>

definition sample_codec :: "message list \<Rightarrow> proto_codec" where
  "sample_codec ms =
     \<lparr>enc_message = (\<lambda>m. [word_of_nat (length (takeWhile (\<lambda>x. x \<noteq> m) ms))]),
      dec_message = (\<lambda>bs. case bs of [i] \<Rightarrow> (if unat i < length ms then Some (ms ! unat i) else None) | _ \<Rightarrow> None),
      enc_message_data = (\<lambda>_. []), dec_message_data = (\<lambda>_. None), enc_hub_event = (\<lambda>_. []), dec_hub_event = (\<lambda>_. Inl []),
      enc_user_name_proof = (\<lambda>p. up_name p), dec_user_name_proof = (\<lambda>_. None),
      enc_onchain_event = (\<lambda>_. []), dec_onchain_event = (\<lambda>_. Inl [])\<rparr>"

definition sample_store :: "store_def \<Rightarrow> message list \<Rightarrow> (bytes \<times> bytes) list store" where
  "sample_store sd ms = new_with_store_def list_engine (Some (TransactionDb [])) (sample_codec ms) False sd"

definition sample_state :: store_state where
  "sample_state = \<lparr>ss_txn = txn_new, ss_gen = \<lparr>current_height = 7, current_seq = 0\<rparr>\<rparr>"

definition sample_message :: "message_type \<Rightarrow> u32 \<Rightarrow> u8 \<Rightarrow> message_body \<Rightarrow> message" where
  "sample_message t ts h body = default_message\<lparr>m_data := Some (default_data\<lparr>md_fid := 5, md_timestamp := ts,
     md_type := message_type_i32 t, md_body := Some body\<rparr>), m_hash := replicate 20 h, m_signature_scheme := SignatureScheme_Ed25519\<rparr>"

lemma sample_store_over: "store_over sd Legacy (sample_codec ms) list_engine [] (sample_store sd ms)"
  by (simp add: store_over_def sample_store_def new_with_store_def_def new_with_store_def_ctx_def default_store_options_def)

lemma sample_store_uses: "store_uses sd Legacy (sample_codec ms) (sample_store sd ms) Map.empty"
  using store_over_uses[OF sample_store_over list_engine_laws, of sd ms] by simp

lemma sample_state_room: "n < 2 ^ 14 \<Longrightarrow> event_room n (ss_gen sample_state)"
  by (simp add: event_room_def sample_state_def)

lemma sample_stored_ok:
  assumes "m \<in> set ms" "length ms < 256" "m_data_bytes m = None"
  shows "stored_ok (sample_codec ms) m"
proof -
  let ?i = "length (takeWhile (\<lambda>x. x \<noteq> m) ms)"
  have l: "?i < length ms" using assms(1) by (induction ms) auto
  have n: "ms ! ?i = m" using assms(1) by (induction ms) auto
  have "unat (word_of_nat ?i :: u8) = ?i" using l assms(2) by (simp add: unat_of_nat)
  then show ?thesis using l n assms(3)
    by (simp add: stored_ok_def message_decode_def message_encode_def message_bytes_decode_def sample_codec_def)
qed

lemma sample_message_data_bytes [simp]: "m_data_bytes (sample_message t ts h body) = None"
  by (simp add: sample_message_def default_message_def)

lemma store_holds_empty: "store_holds sd ctx pc slot akey rkey valid Map.empty Map.empty"
  by (simp add: store_holds_def slot_rows_def)

lemma overlay_sample_state [simp]: "overlay m (ss_txn sample_state) = m" "hm_ok (ss_txn sample_state)"
  by (simp_all add: sample_state_def)

section \<open>Casts\<close>

definition casts_hold :: "u32 \<Rightarrow> state_context \<Rightarrow> proto_codec \<Rightarrow> (bytes \<rightharpoonup> bytes) \<Rightarrow> (bytes \<times> bytes \<rightharpoonup> message) \<Rightarrow> bool" where
  "casts_hold n ctx pc = store_holds (cast_store_def n) ctx pc (msg_slot cast_about) (slot_key ctx CastAdds) (slot_key ctx CastRemoves)
     (\<lambda>m. cast_message m \<and> stored_ok pc m)"

lemma cast_about_length:
  assumes "cast_message m"
  shows "length (cast_about m) = 20"
proof -
  have "length (m_hash m) = 20" using assms by (simp add: cast_message_def)
  with assms show ?thesis by (auto elim!: cast_messageE simp: cast_about_def cast_key_hash_def)
qed

text \<open>The partial messages of the readers name the slot they ask for.\<close>

lemma cast_partials:
  assumes "length hash = 20" "fid \<noteq> 0"
  shows "\<exists>d. m_data (cast_add_partial fid hash) = Some d \<and> md_fid d = fid \<and> md_fid d \<noteq> 0
      \<and> sd_make_add_key (cast_store_def n) (cast_add_partial fid hash) ctx = Inr (slot_key ctx CastAdds (make_fid_key fid, hash))"
    and "\<exists>d. m_data (cast_remove_partial fid hash) = Some d \<and> md_fid d = fid \<and> md_fid d \<noteq> 0
      \<and> sd_make_remove_key (cast_store_def n) (cast_remove_partial fid hash) ctx = Inr (slot_key ctx CastRemoves (make_fid_key fid, hash))"
  using assms by (simp_all add: cast_add_partial_def cast_remove_partial_def cast_store_def_def cast_make_add_key_def cast_make_remove_key_def
      cast_key_hash_def make_cast_adds_key_with_prefix_def make_cast_removes_key_with_prefix_def HASH_LENGTH_def slot_key_def
      make_user_key_with_prefix_def)

lemma cast_sels: "sd_is_add_type (cast_store_def n) = cast_is_add_type"
  by (simp add: cast_store_def_def)

lemma cast_no_compact [simp]: "\<not> compact_state_type_supported (cast_store_def n)"
  by (simp add: compact_state_type_supported_def cast_store_def_def)

lemma cast_removes [simp]: "remove_type_supported (cast_store_def n)"
  by (simp add: remove_type_supported_def cast_store_def_def message_type_u8_def)

lemma holds_hash_slot:
  assumes "store_holds sd ctx pc slot akey rkey valid rows A" "\<And>x. valid x \<Longrightarrow> stored_in sd x" "valid m"
    and "\<forall>k w. A k = Some w \<longrightarrow> m_hash w = m_hash m \<longrightarrow> k = slot m"
  shows "\<forall>k w. A k = Some w \<longrightarrow> msg_row ctx sd w = msg_row ctx sd m \<longrightarrow> k = slot m"
proof (intro allI impI)
  fix k w assume w: "A k = Some w" "msg_row ctx sd w = msg_row ctx sd m"
  then have "stored_in sd w" using assms(1,2) unfolding store_holds_def by blast
  from msg_row_hash[OF w(2) this assms(2)[OF assms(3)]] w(1) assms(4) show "k = slot m" by blast
qed

text \<open>
  C17: Merging a cast or a cast remove into a store that holds the messages A: when the message in its slot
  (author and cast hash) has a higher priority or is the same, the merge fails with the documented error and
  changes nothing; otherwise the merge succeeds, its event lists exactly the message it replaces, and the
  store then holds A with the new message in that slot. Distinct messages are assumed to have distinct
  hashes.
\<close>

theorem cast_merge:
  assumes "store_uses (cast_store_def n) ctx pc st m0" "casts_hold n ctx pc (overlay m0 (ss_txn s)) A"
    and "cast_message m" "stored_ok pc m" "event_room (Suc j) (ss_gen s)"
    and "\<forall>k w. A k = Some w \<longrightarrow> m_hash w = m_hash m \<longrightarrow> k = msg_slot cast_about m"
  shows "case slot_verdict (cast_store_def n) (msg_slot cast_about) cast_prio A m of
      Inl e \<Rightarrow> store_merge st m s = (Inl e, s)
    | Inr replaced \<Rightarrow> \<exists>i s'. store_merge st m s = (Inr ((default_merge_event m replaced)\<lparr>ev_id := i\<rparr>), s')
        \<and> casts_hold n ctx pc (overlay m0 (ss_txn s')) (A(msg_slot cast_about m \<mapsto> m)) \<and> event_room j (ss_gen s')"
proof -
  note h = assms(2)[unfolded casts_hold_def]
  have v: "cast_message m \<and> stored_ok pc m" using assms(3,4) by simp
  note p = casts.ms.passes_trivial[OF assms(1) cast_no_compact, of m "ss_txn s"]
  note rows = holds_hash_slot[OF h _ v assms(6)] cast_stored_in
  have ev: "sd_merge_event_args (cast_store_def n) = default_merge_event" by (simp add: cast_store_def_def)
  show ?thesis
  proof (cases "slot_verdict (cast_store_def n) (msg_slot cast_about) cast_prio A m")
    case (Inl e)
    from casts.ms.merge_rejected[OF assms(1) h v p Inl] show ?thesis by (simp add: Inl)
  next
    case (Inr ws)
    from casts.ms.merge_accepted[OF assms(1) h v p Inr assms(5)] rows show ?thesis
      by (simp add: Inr casts_hold_def ev)
  qed
qed

definition sample_cast :: message where
  "sample_cast = sample_message CastAdd 100 1 (CastAddBody default_cast_add_body)"

definition sample_cast_remove :: message where
  "sample_cast_remove = sample_message CastRemove 90 2 (CastRemoveBody (replicate 20 1))"

lemmas sample_defs = sample_message_def default_message_def default_data_def

lemma sample_casts [simp]:
  "cast_message sample_cast" "cast_message sample_cast_remove" "cast_is_add_type sample_cast" "\<not> cast_is_add_type sample_cast_remove"
  "cast_about sample_cast = replicate 20 1" "cast_about sample_cast_remove = replicate 20 1"
  "msg_fid sample_cast = 5" "msg_fid sample_cast_remove = 5"
  "m_hash sample_cast = replicate 20 1" "m_hash sample_cast_remove = replicate 20 2"
  "m_data_bytes sample_cast = None" "m_data_bytes sample_cast_remove = None"
  by (simp_all add: sample_cast_def sample_cast_remove_def sample_defs cast_message_def cast_is_add_type_def cast_about_def
      cast_key_hash_def msg_fid_def message_type_i32_def)

text \<open>The remove replaces the add although its timestamp is earlier.\<close>

theorem cast_merge_witness:
  "\<exists>i s i' s'. store_merge (sample_store (cast_store_def 10) [sample_cast, sample_cast_remove]) sample_cast sample_state
      = (Inr ((default_merge_event sample_cast [])\<lparr>ev_id := i\<rparr>), s)
    \<and> store_merge (sample_store (cast_store_def 10) [sample_cast, sample_cast_remove]) sample_cast_remove s
      = (Inr ((default_merge_event sample_cast_remove [sample_cast])\<lparr>ev_id := i'\<rparr>), s')"
proof -
  let ?ms = "[sample_cast, sample_cast_remove]"
  let ?st = "sample_store (cast_store_def 10) ?ms"
  have ok: "stored_ok (sample_codec ?ms) sample_cast" "stored_ok (sample_codec ?ms) sample_cast_remove"
    by (auto intro!: sample_stored_ok)
  have room: "event_room (Suc 1) (ss_gen sample_state)" by (rule sample_state_room) simp
  have h0: "casts_hold 10 Legacy (sample_codec ?ms) (overlay Map.empty (ss_txn sample_state)) Map.empty"
    by (simp add: casts_hold_def store_holds_empty)
  have "slot_verdict (cast_store_def 10) (msg_slot cast_about) cast_prio Map.empty sample_cast = Inr []"
    by (simp add: slot_verdict_def)
  with cast_merge[OF sample_store_uses h0 sample_casts(1) ok(1) room]
  obtain i s where s: "store_merge ?st sample_cast sample_state = (Inr ((default_merge_event sample_cast [])\<lparr>ev_id := i\<rparr>), s)"
    "casts_hold 10 Legacy (sample_codec ?ms) (overlay Map.empty (ss_txn s)) [msg_slot cast_about sample_cast \<mapsto> sample_cast]"
    "event_room 1 (ss_gen s)" by auto
  have slots: "msg_slot cast_about sample_cast = msg_slot cast_about sample_cast_remove" by (simp add: msg_slot_def)
  have other: "\<forall>k w. [msg_slot cast_about sample_cast \<mapsto> sample_cast] k = Some w \<longrightarrow> m_hash w = m_hash sample_cast_remove
      \<longrightarrow> k = msg_slot cast_about sample_cast_remove"
    using slots by (simp split: if_splits)
  from slots have "slot_verdict (cast_store_def 10) (msg_slot cast_about) cast_prio [msg_slot cast_about sample_cast \<mapsto> sample_cast] sample_cast_remove
      = Inr [sample_cast]" by (simp add: slot_verdict_def cast_prio_def)
  with cast_merge[where A = "[msg_slot cast_about sample_cast \<mapsto> sample_cast]", OF sample_store_uses s(2) sample_casts(2) ok(2) s(3)[unfolded One_nat_def] other]
  obtain i' s' where "store_merge ?st sample_cast_remove s = (Inr ((default_merge_event sample_cast_remove [sample_cast])\<lparr>ev_id := i'\<rparr>), s')"
    by auto
  with s(1) show ?thesis by blast
qed


text \<open>
  C18: Any run of casts and cast removes merged into an empty store and committed, in any order and with
  duplicates: for the author and hash of every message of the run, the readers find the message with the
  highest priority among those about that cast, as an add or as a remove.
\<close>

theorem casts_read_back:
  assumes "engine_laws ops rows einv" "einv e" "store_over (cast_store_def n) ctx pc ops e st"
    and "hm_ok (ss_txn s)" "casts_hold n ctx pc (overlay (rows e) (ss_txn s)) Map.empty"
    and "\<forall>m\<in>set ms. cast_message m \<and> stored_ok pc m" "hashes_distinct (set ms)" "event_room (length ms) (ss_gen s)"
    and "m \<in> set ms" "msg_fid m \<noteq> 0"
  shows "\<exists>e' w. db_commit ops (st_db st) (ss_txn (merge_all st ms s)) = Inr (Some (TransactionDb e'))
    \<and> w \<in> set ms \<and> msg_slot cast_about w = msg_slot cast_about m
    \<and> (\<forall>x\<in>set ms. msg_slot cast_about x = msg_slot cast_about m \<longrightarrow> cast_prio x \<le> cast_prio w)
    \<and> get_cast_add (st\<lparr>st_db := Some (TransactionDb e')\<rparr>) (msg_fid m) (cast_about m)
        = Inr (if cast_is_add_type w then Some w else None)
    \<and> get_cast_remove (st\<lparr>st_db := Some (TransactionDb e')\<rparr>) (msg_fid m) (cast_about m)
        = Inr (if cast_is_add_type w then None else Some w)"
proof -
  have l: "length (cast_about m) = 20" using assms(6,9) cast_about_length by blast
  note p = cast_partials[OF l assms(10), of n ctx, folded msg_slot_def]
  show ?thesis
    using casts.committed_winner[OF assms(1-3) cast_indices_keep cast_no_compact assms(4) assms(5)[unfolded casts_hold_def] assms(6-9)]
      p cast_sels cast_removes unfolding get_cast_add_def get_cast_remove_def by metis
qed

lemma sample_casts_distinct: "hashes_distinct {sample_cast, sample_cast_remove}"
  by (simp add: hashes_distinct_def)

theorem casts_read_back_witness:
  "\<exists>e'. get_cast_add (sample_store (cast_store_def 10) [sample_cast, sample_cast_remove]\<lparr>st_db := Some (TransactionDb e')\<rparr>) 5 (replicate 20 1)
    = Inr None"
proof -
  let ?ms = "[sample_cast, sample_cast_remove]"
  have ok: "\<forall>m\<in>set [sample_cast_remove, sample_cast, sample_cast]. cast_message m \<and> stored_ok (sample_codec ?ms) m"
    by (auto intro!: sample_stored_ok)
  have h0: "casts_hold 10 Legacy (sample_codec ?ms) (overlay (map_of []) (ss_txn sample_state)) Map.empty"
    by (simp add: casts_hold_def store_holds_empty)
  have d: "hashes_distinct (set [sample_cast_remove, sample_cast, sample_cast])"
    using sample_casts_distinct by (simp add: insert_commute)
  have room: "event_room (length [sample_cast_remove, sample_cast, sample_cast]) (ss_gen sample_state)" by (rule sample_state_room) simp
  from casts_read_back[OF list_engine_laws hm_ok_Nil sample_store_over overlay_sample_state(2) h0 ok d room, of sample_cast]
  obtain e' w where w: "w \<in> {sample_cast, sample_cast_remove}"
      "\<forall>x\<in>{sample_cast, sample_cast_remove}. msg_slot cast_about x = msg_slot cast_about sample_cast \<longrightarrow> cast_prio x \<le> cast_prio w"
      "get_cast_add (sample_store (cast_store_def 10) ?ms\<lparr>st_db := Some (TransactionDb e')\<rparr>) 5 (replicate 20 1)
        = Inr (if cast_is_add_type w then Some w else None)"
    by auto
  have "w = sample_cast_remove"
  proof (rule ccontr)
    assume "w \<noteq> sample_cast_remove"
    with w(1,2) have "cast_prio sample_cast_remove \<le> cast_prio sample_cast" by (auto simp: msg_slot_def)
    then show False by (simp add: cast_prio_def)
  qed
  with w(3) show ?thesis by auto
qed

text \<open>
  C19: A remove of a cast always wins: once a run of merges that contains a remove of a cast is committed, the
  cast is not found, whatever the timestamps and whatever the order of the run.
\<close>

theorem cast_remove_wins:
  assumes "engine_laws ops rows einv" "einv e" "store_over (cast_store_def n) ctx pc ops e st"
    and "hm_ok (ss_txn s)" "casts_hold n ctx pc (overlay (rows e) (ss_txn s)) Map.empty"
    and "\<forall>m\<in>set ms. cast_message m \<and> stored_ok pc m" "hashes_distinct (set ms)" "event_room (length ms) (ss_gen s)"
    and "r \<in> set ms" "cast_is_remove_type r" "msg_fid r \<noteq> 0"
  shows "\<exists>e'. db_commit ops (st_db st) (ss_txn (merge_all st ms s)) = Inr (Some (TransactionDb e'))
    \<and> get_cast_add (st\<lparr>st_db := Some (TransactionDb e')\<rparr>) (msg_fid r) (cast_about r) = Inr None"
proof -
  have l: "length (cast_about r) = 20" using assms(6,9) cast_about_length by blast
  have nr: "\<not> cast_is_add_type r" using assms(6,9,10) by (auto elim: cast_messageE)
  have add: "\<not> cast_is_add_type w" if "cast_prio r \<le> cast_prio w" for w using nr that by (auto simp: cast_prio_def)
  note p = cast_partials(1)[OF l assms(11), of n ctx, folded msg_slot_def]
  obtain e' w where c: "db_commit ops (st_db st) (ss_txn (merge_all st ms s)) = Inr (Some (TransactionDb e'))"
    "\<forall>x\<in>set ms. msg_slot cast_about x = msg_slot cast_about r \<longrightarrow> cast_prio x \<le> cast_prio w"
    "get_add (st\<lparr>st_db := Some (TransactionDb e')\<rparr>) (cast_add_partial (msg_fid r) (cast_about r)) None
      = Inr (if cast_is_add_type w then Some w else None)"
    using casts.committed_winner[OF assms(1-3) cast_indices_keep cast_no_compact assms(4) assms(5)[unfolded casts_hold_def] assms(6-9)]
      p cast_sels by metis
  from c(2) assms(9) add have "\<not> cast_is_add_type w" by blast
  with c(1,3) show ?thesis by (simp add: get_cast_add_def)
qed

theorem cast_remove_wins_witness:
  "\<exists>e'. get_cast_add (sample_store (cast_store_def 10) [sample_cast, sample_cast_remove]\<lparr>st_db := Some (TransactionDb e')\<rparr>) 5
     (cast_about sample_cast_remove) = Inr None"
proof -
  let ?ms = "[sample_cast, sample_cast_remove]"
  have ok: "\<forall>m\<in>set ?ms. cast_message m \<and> stored_ok (sample_codec ?ms) m" by (auto intro!: sample_stored_ok)
  have h0: "casts_hold 10 Legacy (sample_codec ?ms) (overlay (map_of []) (ss_txn sample_state)) Map.empty"
    by (simp add: casts_hold_def store_holds_empty)
  have d: "hashes_distinct (set ?ms)" using sample_casts_distinct by simp
  have room: "event_room (length ?ms) (ss_gen sample_state)" by (rule sample_state_room) simp
  have r: "cast_is_remove_type sample_cast_remove"
    by (simp add: cast_is_remove_type_def sample_cast_remove_def sample_defs)
  from cast_remove_wins[OF list_engine_laws hm_ok_Nil sample_store_over overlay_sample_state(2) h0 ok d room, of sample_cast_remove] r
  show ?thesis by auto
qed

section \<open>Reactions\<close>

definition reactions_hold :: "u32 \<Rightarrow> state_context \<Rightarrow> proto_codec \<Rightarrow> (bytes \<rightharpoonup> bytes) \<Rightarrow> (bytes \<times> bytes \<rightharpoonup> message) \<Rightarrow> bool" where
  "reactions_hold n ctx pc = store_holds (reaction_store_def n) ctx pc (msg_slot reaction_about) (slot_key ctx ReactionAdds)
     (slot_key ctx ReactionRemoves) (\<lambda>m. reaction_message m \<and> stored_ok pc m)"

lemma reaction_no_compact [simp]: "\<not> compact_state_type_supported (reaction_store_def n)"
  by (simp add: compact_state_type_supported_def reaction_store_def_def)

text \<open>
  C20: Reactions converge: two runs of merges into the same empty store that contain the same reactions and
  reaction removes, in any order and with any repetitions, leave the store with the same contents, which is
  for each author, type and target the last message by timestamp, a remove before an add of the same second.
\<close>

theorem reactions_converge:
  assumes "store_uses (reaction_store_def n) ctx pc st m0" "reactions_hold n ctx pc (overlay m0 (ss_txn s)) Map.empty"
    and "\<forall>m\<in>set ms. reaction_message m \<and> stored_ok pc m" "hashes_distinct (set ms)" "set ms' = set ms"
    and "event_room (length ms) (ss_gen s)" "event_room (length ms') (ss_gen s)"
  shows "\<exists>A. winners (msg_slot reaction_about) (lww_prio (reaction_store_def n)) (set ms) A
    \<and> reactions_hold n ctx pc (overlay m0 (ss_txn (merge_all st ms s))) A
    \<and> reactions_hold n ctx pc (overlay m0 (ss_txn (merge_all st ms' s))) A"
proof -
  have st: "\<forall>m\<in>set ms. stored_in (reaction_store_def n) m" using assms(3) reaction_stored_in by blast
  note h = assms(2)[unfolded reactions_hold_def] and rows = hashes_distinct_rows[OF assms(4) st]
  have inj: "\<forall>a\<in>set ms. \<forall>b\<in>set ms. msg_slot reaction_about a = msg_slot reaction_about b
      \<longrightarrow> lww_prio (reaction_store_def n) a = lww_prio (reaction_store_def n) b \<longrightarrow> a = b"
    using lww_prio_determines[OF st assms(4)] by blast
  obtain A where A: "winners (msg_slot reaction_about) (lww_prio (reaction_store_def n)) (set ms) A"
    "reactions_hold n ctx pc (overlay m0 (ss_txn (merge_all st ms s))) A"
    using reactions.ms.merge_all_winners[OF assms(1) reaction_no_compact h assms(3,6) rows] unfolding reactions_hold_def by blast
  obtain B where B: "winners (msg_slot reaction_about) (lww_prio (reaction_store_def n)) (set ms) B"
    "reactions_hold n ctx pc (overlay m0 (ss_txn (merge_all st ms' s))) B"
    using reactions.ms.merge_all_winners[OF assms(1) reaction_no_compact h assms(3)[folded assms(5)] assms(7) rows[folded assms(5)]]
    unfolding reactions_hold_def assms(5) by blast
  from winners_unique[OF A(1) B(1) inj] A B(2) show ?thesis by blast
qed

definition sample_reaction :: "message_type \<Rightarrow> u32 \<Rightarrow> u8 \<Rightarrow> message" where
  "sample_reaction t ts h = sample_message t ts h (ReactionBody \<lparr>rb_type = 1, rb_target = Some (TargetUrl [97])\<rparr>)"

lemma sample_reactions [simp]:
  "reaction_message (sample_reaction ReactionAdd ts h)" "reaction_message (sample_reaction ReactionRemove ts h)"
  "m_hash (sample_reaction t ts h) = replicate 20 h" "m_data_bytes (sample_reaction t ts h) = None"
  by (simp_all add: sample_reaction_def sample_defs reaction_message_def)

theorem reactions_converge_witness:
  "\<exists>A. winners (msg_slot reaction_about) (lww_prio (reaction_store_def 10)) {sample_reaction ReactionAdd 3 1, sample_reaction ReactionRemove 3 2} A
    \<and> reactions_hold 10 Legacy (sample_codec [sample_reaction ReactionAdd 3 1, sample_reaction ReactionRemove 3 2])
       (overlay Map.empty (ss_txn (merge_all (sample_store (reaction_store_def 10) [sample_reaction ReactionAdd 3 1, sample_reaction ReactionRemove 3 2])
         [sample_reaction ReactionRemove 3 2, sample_reaction ReactionAdd 3 1, sample_reaction ReactionRemove 3 2] sample_state))) A"
proof -
  let ?a = "sample_reaction ReactionAdd 3 1" and ?r = "sample_reaction ReactionRemove 3 2"
  have ok: "\<forall>m\<in>set [?a, ?r]. reaction_message m \<and> stored_ok (sample_codec [?a, ?r]) m" by (auto intro!: sample_stored_ok)
  have h0: "reactions_hold 10 Legacy (sample_codec [?a, ?r]) (overlay Map.empty (ss_txn sample_state)) Map.empty"
    by (simp add: reactions_hold_def store_holds_empty)
  have d: "hashes_distinct (set [?a, ?r])" by (simp add: hashes_distinct_def)
  have same: "set [?r, ?a, ?r] = set [?a, ?r]" by auto
  have room: "event_room (length [?a, ?r]) (ss_gen sample_state)" "event_room (length [?r, ?a, ?r]) (ss_gen sample_state)"
    by (rule sample_state_room; simp)+
  from reactions_converge[OF sample_store_uses h0 ok d same room] show ?thesis by auto
qed

section \<open>User data\<close>

definition user_data_hold :: "u32 \<Rightarrow> state_context \<Rightarrow> proto_codec \<Rightarrow> (bytes \<rightharpoonup> bytes) \<Rightarrow> (bytes \<times> bytes \<rightharpoonup> message) \<Rightarrow> bool" where
  "user_data_hold n ctx pc = store_holds (user_data_store_def n) ctx pc (msg_slot user_data_about) (slot_key ctx UserDataAdds)
     (slot_key ctx UserDataAdds) (\<lambda>m. user_data_message m \<and> stored_ok pc m)"

lemma user_data_no_compact [simp]: "\<not> compact_state_type_supported (user_data_store_def n)"
  by (simp add: compact_state_type_supported_def user_data_store_def_def)

lemma user_data_partial_key:
  assumes "m_data m = Some d" "md_body d = Some (UserDataBody b)" "md_fid d \<noteq> 0"
  shows "\<exists>d'. m_data (user_data_partial (msg_fid m) (ud_type b)) = Some d' \<and> md_fid d' = msg_fid m \<and> md_fid d' \<noteq> 0
    \<and> sd_make_add_key (user_data_store_def n) (user_data_partial (msg_fid m) (ud_type b)) ctx
      = Inr (slot_key ctx UserDataAdds (msg_slot user_data_about m))"
  using assms by (simp add: user_data_partial_def user_data_store_def_def user_data_make_add_key_def make_user_data_adds_key_with_prefix_def
      slot_key_def msg_slot_def user_data_about_def make_user_key_with_prefix_def msg_fid_def)

text \<open>
  C21: After any run of user data messages is merged into an empty store and committed, the value read for a
  fid and a type is the one of the run with the latest timestamp and, among those, the greatest hash.
\<close>

theorem user_data_latest:
  assumes "engine_laws ops rows einv" "einv e" "store_over (user_data_store_def n) ctx pc ops e st"
    and "hm_ok (ss_txn s)" "user_data_hold n ctx pc (overlay (rows e) (ss_txn s)) Map.empty"
    and "\<forall>m\<in>set ms. user_data_message m \<and> stored_ok pc m" "hashes_distinct (set ms)" "event_room (length ms) (ss_gen s)"
    and "m \<in> set ms" "m_data m = Some d" "md_body d = Some (UserDataBody b)" "md_fid d \<noteq> 0"
  shows "\<exists>e' w. db_commit ops (st_db st) (ss_txn (merge_all st ms s)) = Inr (Some (TransactionDb e'))
    \<and> w \<in> set ms \<and> msg_slot user_data_about w = msg_slot user_data_about m
    \<and> (\<forall>x\<in>set ms. msg_slot user_data_about x = msg_slot user_data_about m \<longrightarrow> msg_ts_hash x \<le> msg_ts_hash w)
    \<and> get_user_data_add (st\<lparr>st_db := Some (TransactionDb e')\<rparr>) (msg_fid m) (ud_type b) = Inr (Some w)"
proof -
  note p = user_data_partial_key[OF assms(10-12), of n ctx]
  obtain e' w where c: "db_commit ops (st_db st) (ss_txn (merge_all st ms s)) = Inr (Some (TransactionDb e'))"
    "w \<in> set ms" "msg_slot user_data_about w = msg_slot user_data_about m"
    "\<forall>x\<in>set ms. msg_slot user_data_about x = msg_slot user_data_about m \<longrightarrow> lww_prio (user_data_store_def n) x \<le> lww_prio (user_data_store_def n) w"
    "get_add (st\<lparr>st_db := Some (TransactionDb e')\<rparr>) (user_data_partial (msg_fid m) (ud_type b)) None
      = Inr (if sd_is_add_type (user_data_store_def n) w then Some w else None)"
    using user_data.committed_winner[OF assms(1-3) user_data_indices_keep user_data_no_compact assms(4)
        assms(5)[unfolded user_data_hold_def] assms(6-9)] p by metis
  have add: "sd_is_add_type (user_data_store_def n) x \<and> length (msg_ts_hash x) = 24" if "x \<in> set ms" for x
    using that assms(6) stored_inD(2)[OF user_data_stored_in, of x] by (auto simp: user_data_store_def_def elim: user_data_messageE)
  have "msg_ts_hash x \<le> msg_ts_hash w" if "x \<in> set ms" "msg_slot user_data_about x = msg_slot user_data_about m" for x
    using c(4) that add[OF that(1)] add[OF c(2)] lww_prio_adds by blast
  then show ?thesis using c(1-3,5) add[OF c(2)] by (auto simp: get_user_data_add_def)
qed

definition sample_user_data :: "u32 \<Rightarrow> u8 \<Rightarrow> message" where
  "sample_user_data ts h = sample_message UserDataAdd ts h (UserDataBody \<lparr>ud_type = 2, ud_value = [h]\<rparr>)"

lemma sample_user_datas [simp]:
  "user_data_message (sample_user_data ts h)" "m_hash (sample_user_data ts h) = replicate 20 h" "m_data_bytes (sample_user_data ts h) = None"
  "msg_slot user_data_about (sample_user_data ts h) = (make_fid_key 5, [2])" "msg_fid (sample_user_data ts h) = 5"
  "msg_ts_hash (sample_user_data ts h) = u32_to_be ts @ replicate 20 h"
  by (simp_all add: sample_user_data_def sample_defs user_data_message_def msg_slot_def user_data_about_def msg_fid_def msg_ts_hash_def)

theorem user_data_latest_witness:
  "\<exists>e'. get_user_data_add (sample_store (user_data_store_def 10) [sample_user_data 8 1, sample_user_data 9 2]\<lparr>st_db := Some (TransactionDb e')\<rparr>) 5 2
    = Inr (Some (sample_user_data 9 2))"
proof -
  let ?ms = "[sample_user_data 8 1, sample_user_data 9 2]"
  have ok: "\<forall>m\<in>set (rev ?ms). user_data_message m \<and> stored_ok (sample_codec ?ms) m" by (auto intro!: sample_stored_ok)
  have h0: "user_data_hold 10 Legacy (sample_codec ?ms) (overlay (map_of []) (ss_txn sample_state)) Map.empty"
    by (simp add: user_data_hold_def store_holds_empty)
  have d: "hashes_distinct (set (rev ?ms))" by (simp add: hashes_distinct_def)
  have room: "event_room (length (rev ?ms)) (ss_gen sample_state)" by (rule sample_state_room) simp
  obtain dt where dt: "m_data (sample_user_data 8 1) = Some dt" "md_body dt = Some (UserDataBody \<lparr>ud_type = 2, ud_value = [1]\<rparr>)" "md_fid dt \<noteq> 0"
    by (simp add: sample_user_data_def sample_defs)
  from user_data_latest[OF list_engine_laws hm_ok_Nil sample_store_over overlay_sample_state(2) h0 ok d room _ dt]
  obtain e' w where w: "w \<in> set ?ms" "\<forall>x\<in>set ?ms. msg_ts_hash x \<le> msg_ts_hash w"
    "get_user_data_add (sample_store (user_data_store_def 10) ?ms\<lparr>st_db := Some (TransactionDb e')\<rparr>) 5 2 = Inr (Some w)"
    by auto
  have "msg_ts_hash (sample_user_data 8 1) < msg_ts_hash (sample_user_data 9 2)"
    by (simp add: list_less_append_same_length u32_to_be_less)
  then have "w \<noteq> sample_user_data 8 1" using w(2) by (auto simp: not_le[symmetric])
  with w show ?thesis by auto
qed

end
