(* ===== verification/Link_Spec.thy ===== *)
theory Link_Spec
  imports Account_Spec
begin

text \<open>
  Links and their compact state: what a compact state lets through, and what it takes out of the store.
\<close>

section \<open>The compact state of a type of links\<close>

definition links_hold :: "u32 \<Rightarrow> state_context \<Rightarrow> proto_codec \<Rightarrow> (bytes \<rightharpoonup> bytes) \<Rightarrow> (bytes \<times> bytes \<rightharpoonup> message) \<Rightarrow> bool" where
  "links_hold n ctx pc = store_holds (link_store_def n) ctx pc (msg_slot link_about) (slot_key ctx LinkAdds) (slot_key ctx LinkRemoves)
     (\<lambda>m. link_message m \<and> stored_ok pc m)"

definition compact_key :: "state_context \<Rightarrow> u64 \<Rightarrow> utf8 \<Rightarrow> bytes" where
  "compact_key ctx fid ty = slot_key ctx LinkCompactStateMessage (make_fid_key fid, resize_link_type ty)"

text \<open>A compact state message, as a store keeps it.\<close>

definition compact_message :: "proto_codec \<Rightarrow> message \<Rightarrow> u64 \<Rightarrow> u32 \<Rightarrow> utf8 \<Rightarrow> u64 list \<Rightarrow> bool" where
  "compact_message pc c fid ts ty targets \<longleftrightarrow> length (m_hash c) = 20 \<and> m_signature_scheme c = SignatureScheme_Ed25519 \<and> stored_ok pc c
     \<and> (\<exists>d b. m_data c = Some d \<and> md_fid d = fid \<and> md_timestamp d = ts \<and> md_type d = message_type_i32 LinkCompactState
          \<and> md_body d = Some (LinkCompactStateBody b) \<and> lc_type b = ty \<and> lc_target_fids b = targets)"

text \<open>The row of the compact state: empty, or a message with a timestamp and targets.\<close>

definition compact_row :: "proto_codec \<Rightarrow> state_context \<Rightarrow> (bytes \<rightharpoonup> bytes) \<Rightarrow> u64 \<Rightarrow> utf8 \<Rightarrow> (message \<times> u32 \<times> u64 list) option \<Rightarrow> bool" where
  "compact_row pc ctx rows fid ty cs = (case cs of
     None \<Rightarrow> rows (compact_key ctx fid ty) = None
   | Some (c, ts, targets) \<Rightarrow> rows (compact_key ctx fid ty) = Some (message_encode pc c) \<and> compact_message pc c fid ts ty targets)"

lemma compact_key_eq:
  "link_compact_state_add_key_with_prefix (ctx_root_prefix ctx Rp_User) fid ty = Inr (compact_key ctx fid ty)"
  by (simp add: link_compact_state_add_key_with_prefix_def compact_key_def slot_key_def make_user_key_with_prefix_def)

lemma compact_details:
  "compact_message pc c fid ts ty targets \<Longrightarrow> read_compact_state_details c = Inr (fid, ts, targets)
     \<and> message_decode_res pc (message_encode pc c) = Inr c"
  by (auto simp: compact_message_def read_compact_state_details_def message_decode_res_def stored_ok_def)

text \<open>The link a message is about.\<close>

definition link_parts :: "message \<Rightarrow> u64 \<Rightarrow> u32 \<Rightarrow> utf8 \<Rightarrow> u64 \<Rightarrow> bool" where
  "link_parts m fid ts ty target \<longleftrightarrow> (\<exists>d b. m_data m = Some d \<and> md_fid d = fid \<and> md_timestamp d = ts
     \<and> md_body d = Some (LinkBody b) \<and> lb_type b = ty \<and> lb_target b = Some target)"

lemma link_parts_ex: "link_message m \<Longrightarrow> \<exists>fid ts ty target. link_parts m fid ts ty target"
  by (erule link_messageE) (auto simp: link_parts_def)

lemma link_partsD: "link_parts m fid ts ty target \<Longrightarrow> msg_fid m = fid \<and> link_target m = Some target"
  by (auto simp: link_parts_def msg_fid_def link_target_def)

lemma current_compact_ok:
  assumes "store_uses (link_store_def n) ctx pc st m0" "compact_row pc ctx (overlay m0 txn) fid ty cs" "link_parts m fid ts ty target"
  shows "current_compact_state st m txn = Inr (case cs of Some (c, cts, targets) \<Rightarrow> Some (cts, targets) | None \<Rightarrow> None)"
proof -
  have "sd_make_compact_state_add_key (link_store_def n) m ctx = Inr (compact_key ctx fid ty)"
    using assms(3) by (auto simp: link_parts_def link_store_def_def link_make_compact_state_add_key_def link_data_body_def compact_key_eq)
  moreover have "compact_state_type_supported (link_store_def n)"
    by (simp add: compact_state_type_supported_def link_store_def_def message_type_u8_def)
  ultimately show ?thesis using assms(1,2)
    by (cases cs) (auto simp: current_compact_state_def store_uses_def compact_row_def compact_details)
qed

text \<open>Why a compact state refuses an older link message.\<close>

definition link_refused :: "(message \<times> u32 \<times> u64 list) option \<Rightarrow> bool \<Rightarrow> u32 \<Rightarrow> u64 \<Rightarrow> failure option" where
  "link_refused cs add ts target = (case cs of
     None \<Rightarrow> None
   | Some (_, cts, targets) \<Rightarrow>
       if \<not> ts < cts then None
       else if \<not> add then Some (HubFailure \<lparr>he_code = ''bad_request.prunable'',
         he_message = ''Remove message earlier than the compact state message will be immediately pruned''\<rparr>)
       else if target \<in> set targets then None
       else Some (HubFailure \<lparr>he_code = ''bad_request.conflict'',
         he_message = ''Target fid '' @ decimal (unat target) @ '' not in the compact state target fids''\<rparr>))"

lemma link_check:
  assumes "store_uses (link_store_def n) ctx pc st m0" "compact_row pc ctx (overlay m0 txn) fid ty cs" "link_parts m fid ts ty target"
  shows "check_add_compact st m txn = (case link_refused cs True ts target of Some e \<Rightarrow> Inl e | None \<Rightarrow> Inr ())"
    and "check_remove_compact st m txn = (case link_refused cs False ts target of Some e \<Rightarrow> Inl e | None \<Rightarrow> Inr ())"
proof -
  obtain d b where d: "m_data m = Some d" "md_timestamp d = ts" "link_target m = Some target"
    using assms(3) link_partsD[OF assms(3)] by (auto simp: link_parts_def)
  show "check_add_compact st m txn = (case link_refused cs True ts target of Some e \<Rightarrow> Inl e | None \<Rightarrow> Inr ())"
    "check_remove_compact st m txn = (case link_refused cs False ts target of Some e \<Rightarrow> Inl e | None \<Rightarrow> Inr ())"
    using d by (auto simp: check_add_compact_def check_remove_compact_def current_compact_ok[OF assms] link_refused_def hub_err_def
        split: option.splits)
qed

text \<open>
  C22: Merging a link or a link remove into a store that holds the links A and possibly a compact state for
  the author and type: a link older than the compact state and not to one of its targets, and every older
  remove, is refused with the documented error and nothing changes; every other message is merged or
  refused by the same last-writer rule as in the other stores.
\<close>

theorem link_merge:
  assumes "store_uses (link_store_def n) ctx pc st m0" "links_hold n ctx pc (overlay m0 (ss_txn s)) A"
    and "link_message m" "stored_ok pc m" "link_parts m fid ts ty target" "compact_row pc ctx (overlay m0 (ss_txn s)) fid ty cs"
    and "event_room (Suc j) (ss_gen s)" "\<forall>k w. A k = Some w \<longrightarrow> m_hash w = m_hash m \<longrightarrow> k = msg_slot link_about m"
  shows "case link_refused cs (link_type_test LinkAdd m) ts target of
      Some e \<Rightarrow> store_merge st m s = (Inl e, s)
    | None \<Rightarrow> (case slot_verdict (link_store_def n) (msg_slot link_about) (lww_prio (link_store_def n)) A m of
        Inl e \<Rightarrow> store_merge st m s = (Inl e, s)
      | Inr replaced \<Rightarrow> \<exists>i s'. store_merge st m s = (Inr ((default_merge_event m replaced)\<lparr>ev_id := i\<rparr>), s')
          \<and> links_hold n ctx pc (overlay m0 (ss_txn s')) (A(msg_slot link_about m \<mapsto> m)) \<and> event_room j (ss_gen s'))"
proof -
  note h = assms(2)[unfolded links_hold_def]
  have v: "link_message m \<and> stored_ok pc m" using assms(3,4) by simp
  have sel: "sd_is_add_type (link_store_def n) = link_type_test LinkAdd" "sd_merge_event_args (link_store_def n) = default_merge_event"
    by (simp_all add: link_store_def_def)
  have chk: "(if link_type_test LinkAdd m then check_add_compact st m (ss_txn s) else check_remove_compact st m (ss_txn s))
      = (case link_refused cs (link_type_test LinkAdd m) ts target of Some e \<Rightarrow> Inl e | None \<Rightarrow> Inr ())"
    using link_check[OF assms(1,6,5)] by simp
  note rows = holds_hash_slot[OF h _ v assms(8)] link_stored_in
  show ?thesis
  proof (cases "link_refused cs (link_type_test LinkAdd m) ts target")
    case (Some e)
    then have "store_merge st m s = (Inl e, s)"
      using links.ms.merge_refused[OF assms(1) v _ refl, of s e] chk sel by simp
    with Some show ?thesis by simp
  next
    case None
    then have p: "links.ms.passes n st m (ss_txn s)" using chk sel by (simp add: links.ms.passes_def)
    show ?thesis
    proof (cases "slot_verdict (link_store_def n) (msg_slot link_about) (lww_prio (link_store_def n)) A m")
      case (Inl e)
      from links.ms.merge_rejected[OF assms(1) h v p Inl] show ?thesis by (simp add: Inl None)
    next
      case (Inr ws)
      from links.ms.merge_accepted[OF assms(1) h v p Inr assms(7)] rows show ?thesis
        by (simp add: Inr None links_hold_def sel)
    qed
  qed
qed


section \<open>Merging a compact state\<close>





text \<open>The row of a compact state is no row of a link.\<close>

lemma compact_key_other:
  "compact_key ctx fid ty \<noteq> slot_key ctx LinkAdds (msg_slot link_about m)" "compact_key ctx fid ty \<noteq> slot_key ctx LinkRemoves (msg_slot link_about m)"
  "compact_key ctx fid ty \<noteq> msg_row ctx (link_store_def n) m"
  by (simp_all add: compact_key_def slot_key_def msg_slot_def msg_row_def make_message_primary_key_with_prefix_def make_user_key_with_prefix_def
      link_store_def_def)

lemma links_hold_compact_row:
  assumes "links_hold n ctx pc rows A"
  shows "links_hold n ctx pc (rows(compact_key ctx fid ty := v)) A"
  using assms unfolding links_hold_def
  by (rule links.ms.holds_frame) (simp_all add: compact_key_other[THEN not_sym])









definition sample_link :: "message_type \<Rightarrow> u32 \<Rightarrow> u8 \<Rightarrow> u64 \<Rightarrow> message" where
  "sample_link t ts h target = sample_message t ts h (LinkBody \<lparr>lb_type = [102], lb_display_timestamp = None, lb_target = Some target\<rparr>)"

definition sample_compact :: "u32 \<Rightarrow> u64 list \<Rightarrow> message" where
  "sample_compact ts targets = sample_message LinkCompactState ts 9 (LinkCompactStateBody \<lparr>lc_type = [102], lc_target_fids = targets\<rparr>)"

lemma sample_links [simp]:
  "t = LinkAdd \<or> t = LinkRemove \<Longrightarrow> link_message (sample_link t ts h target)"
  "link_parts (sample_link t ts h target) 5 ts [102] target" "link_type_test t (sample_link t ts h target)"
  "m_hash (sample_link t ts h target) = replicate 20 h" "msg_fid (sample_link t ts h target) = 5"
  "m_data_bytes (sample_link t ts h target) = None" "\<not> link_type_test LinkRemove (sample_link LinkAdd ts h target)"
  by (auto simp: sample_link_def sample_defs link_message_def link_parts_def link_type_test_def msg_fid_def message_type_i32_def)

lemma sample_compact_message:
  "stored_ok pc (sample_compact ts targets) \<Longrightarrow> compact_message pc (sample_compact ts targets) 5 ts [102] targets"
  by (simp add: compact_message_def sample_compact_def sample_defs)

text \<open>A link to 7 that is older than a compact state with the target 8 is refused.\<close>

theorem link_merge_witness:
  "\<exists>s. store_merge (sample_store (link_store_def 10) [sample_link LinkAdd 100 1 7, sample_compact 200 [8]]) (sample_link LinkAdd 100 1 7) s
    = (Inl (HubFailure \<lparr>he_code = ''bad_request.conflict'', he_message = ''Target fid 7 not in the compact state target fids''\<rparr>), s)"
proof -
  let ?l = "sample_link LinkAdd 100 1 7" and ?c = "sample_compact 200 [8]"
  let ?pc = "sample_codec [?l, ?c]"
  let ?key = "compact_key Legacy 5 [102]"
  let ?s = "sample_state\<lparr>ss_txn := txn_put txn_new ?key (message_encode ?pc ?c)\<rparr>"
  have ok: "stored_ok ?pc ?l" "stored_ok ?pc ?c" by (auto intro!: sample_stored_ok simp: sample_compact_def)
  have "links_hold 10 Legacy ?pc Map.empty Map.empty" by (simp add: links_hold_def store_holds_empty)
  from links_hold_compact_row[OF this, of 5 "[102]" "Some (message_encode ?pc ?c)"]
  have h: "links_hold 10 Legacy ?pc (overlay Map.empty (ss_txn ?s)) Map.empty" by simp
  have row: "compact_row ?pc Legacy (overlay Map.empty (ss_txn ?s)) 5 [102] (Some (?c, 200, [8]))"
    using sample_compact_message[OF ok(2)] by (simp add: compact_row_def)
  have room: "event_room (Suc 0) (ss_gen ?s)" using sample_state_room[of 1] by simp
  have "decimal (unat (7 :: u64)) = ''7''" by code_simp
  with link_merge[OF sample_store_uses h sample_links(1)[OF disjI1[OF refl]] ok(1) sample_links(2) row room] show ?thesis
    by (intro exI[of _ ?s]) (simp add: link_refused_def)
qed



end
