(* ===== verification/Account_Upkeep.thy ===== *)
theory Account_Upkeep
  imports Link_Spec
begin

text \<open>
  What shrinks an account: pruning to the storage limit takes the oldest messages of a store, and the
  revocation of a signer takes exactly the messages that signer signed.
\<close>

section \<open>Pruning\<close>








section \<open>Revocation\<close>



end
