(* ===== verification/Protocol_Version.thy ===== *)
theory Protocol_Version
  imports Messages
begin

text \<open>
  The clock of the protocol and the schedule of engine versions (\<open>core/util.rs\<close> and
  \<open>version/version.rs\<close>): which rules are in force at the timestamp of a block.
\<close>

section \<open>Farcaster time\<close>

definition FARCASTER_EPOCH :: u64 where
  "FARCASTER_EPOCH = 1609459200000"

text \<open>Seconds since the Farcaster epoch; the additions wrap as they do in a release build.\<close>

type_synonym farcaster_time = u64

definition from_unix_seconds :: "u64 \<Rightarrow> farcaster_time" where
  "from_unix_seconds time = time - FARCASTER_EPOCH div 1000"

definition to_unix_seconds :: "farcaster_time \<Rightarrow> u64" where
  "to_unix_seconds time = time + FARCASTER_EPOCH div 1000"

definition incr_by :: "farcaster_time \<Rightarrow> u64 \<Rightarrow> farcaster_time" where
  "incr_by time secs = time + secs"

definition decr_by :: "farcaster_time \<Rightarrow> u64 \<Rightarrow> farcaster_time" where
  "decr_by time secs = time - secs"

definition to_farcaster_time :: "u64 \<Rightarrow> hub_error + u64" where
  "to_farcaster_time time_ms =
     (if time_ms < FARCASTER_EPOCH then
        Inl \<lparr>he_code = ''bad_request.invalid_param'', he_message = ''time_ms is before the farcaster epoch: '' @ decimal (unat time_ms)\<rparr>
      else let seconds_since_epoch = (time_ms - FARCASTER_EPOCH) div 1000 in
        if seconds_since_epoch > 2 ^ 32 - 1 then
          Inl \<lparr>he_code = ''bad_request.invalid_param'', he_message = ''time too far in future: '' @ decimal (unat time_ms)\<rparr>
        else Inr seconds_since_epoch)"

definition from_farcaster_time :: "u64 \<Rightarrow> u64" where
  "from_farcaster_time time = time * 1000 + FARCASTER_EPOCH"

section \<open>Engine versions\<close>

datatype engine_version = V0 | V1 | V2 | V3 | V4 | V5 | V6 | V7 | V8 | V9 | V10 | V11 | V12 | V13 | V14 | V15 | V16

fun version_num :: "engine_version \<Rightarrow> nat" where
  "version_num V0 = 0" | "version_num V1 = 1" | "version_num V2 = 2" | "version_num V3 = 3" | "version_num V4 = 4"
| "version_num V5 = 5" | "version_num V6 = 6" | "version_num V7 = 7" | "version_num V8 = 8" | "version_num V9 = 9"
| "version_num V10 = 10" | "version_num V11 = 11" | "version_num V12 = 12" | "version_num V13 = 13"
| "version_num V14 = 14" | "version_num V15 = 15" | "version_num V16 = 16"

instantiation engine_version :: linorder
begin

definition less_eq_engine_version :: "engine_version \<Rightarrow> engine_version \<Rightarrow> bool" where
  "less_eq_engine_version a b \<longleftrightarrow> version_num a \<le> version_num b"

definition less_engine_version :: "engine_version \<Rightarrow> engine_version \<Rightarrow> bool" where
  "less_engine_version a b \<longleftrightarrow> version_num a < version_num b"

instance
proof
  fix a b :: engine_version
  show "a = b" if "a \<le> b" "b \<le> a"
    using that by (cases a; cases b) (simp_all add: less_eq_engine_version_def)
qed (auto simp: less_eq_engine_version_def less_engine_version_def)

end

datatype protocol_feature =
    SignerRevokeBug | FarcasterPro | Basenames | EnsValidation | MessageLengthCheckFix | PrimaryAddresses
  | UsernameShardRoutingFix | FutureTimestampValidation | DependentMessagesInBulkSubmit
  | DecoupleShardZeroBlockProduction | WriteDataToShardZero | ReadDataFromShardZero | UserProfileToken
  | StorageLending | EventIdBugFix | StorageLendingLimitFix | StopRevokingExistingMessages
  | IncreaseUsernameProofSizeLimit | GaslessSigners

datatype farcaster_network = Network_None | Mainnet | Testnet | Devnet

definition network_i32 :: "farcaster_network \<Rightarrow> i32" where
  "network_i32 n = (case n of Network_None \<Rightarrow> 0 | Mainnet \<Rightarrow> 1 | Testnet \<Rightarrow> 2 | Devnet \<Rightarrow> 3)"

definition try_network :: "i32 \<Rightarrow> farcaster_network option" where
  "try_network n = find (\<lambda>w. network_i32 w = n) [Network_None, Mainnet, Testnet, Devnet]"

type_synonym version_schedule = "(u64 \<times> engine_version) list"

definition ENGINE_VERSION_SCHEDULE_MAINNET :: version_schedule where
  "ENGINE_VERSION_SCHEDULE_MAINNET =
     [(0, V0), (1747333800, V1), (1747352400, V2), (1747356000, V3), (1747417200, V4), (1750093200, V5),
      (1752685200, V6), (1756141200, V7), (1756918800, V8), (1757523600, V9), (1758733200, V10),
      (1759942800, V11), (1759942800, V12), (1759942800, V13), (1761757200, V14), (1765386000, V15),
      (1778173200, V16)]"

definition ENGINE_VERSION_SCHEDULE_TESTNET :: version_schedule where
  "ENGINE_VERSION_SCHEDULE_TESTNET =
     [(0, V0), (1748970000, V5), (1752099060, V6), (1755291600, V7), (1755709200, V8), (1756918800, V9),
      (1757523600, V10), (1758733200, V11), (1758763200, V12), (1758906000, V13), (1761152400, V14),
      (1764783794, V15), (1777406400, V16)]"

definition ENGINE_VERSION_SCHEDULE_DEVNET :: version_schedule where
  "ENGINE_VERSION_SCHEDULE_DEVNET = [(0, V16)]"

definition schedule_for :: "farcaster_network \<Rightarrow> version_schedule" where
  "schedule_for network = (case network of
     Mainnet \<Rightarrow> ENGINE_VERSION_SCHEDULE_MAINNET
   | Testnet \<Rightarrow> ENGINE_VERSION_SCHEDULE_TESTNET
   | _ \<Rightarrow> ENGINE_VERSION_SCHEDULE_DEVNET)"

text \<open>The last entry that is active; None is the panic of an empty schedule.\<close>

definition version_for :: "farcaster_time \<Rightarrow> farcaster_network \<Rightarrow> engine_version option" where
  "version_for time network =
     (case filter (\<lambda>(active_at, _). active_at \<le> to_unix_seconds time) (schedule_for network) of
        [] \<Rightarrow> None
      | active \<Rightarrow> Some (snd (last active)))"

definition is_enabled :: "engine_version \<Rightarrow> protocol_feature \<Rightarrow> bool" where
  "is_enabled v feature = (case feature of
     SignerRevokeBug \<Rightarrow> v = V1 \<or> v = V3
   | FarcasterPro \<Rightarrow> v \<ge> V5
   | Basenames \<Rightarrow> v \<ge> V5
   | EnsValidation \<Rightarrow> v \<ge> V5
   | MessageLengthCheckFix \<Rightarrow> v \<ge> V5
   | UsernameShardRoutingFix \<Rightarrow> v \<ge> V5
   | PrimaryAddresses \<Rightarrow> v \<ge> V5
   | FutureTimestampValidation \<Rightarrow> v \<ge> V6
   | DependentMessagesInBulkSubmit \<Rightarrow> v \<ge> V7
   | DecoupleShardZeroBlockProduction \<Rightarrow> v \<ge> V8
   | WriteDataToShardZero \<Rightarrow> v \<ge> V9
   | ReadDataFromShardZero \<Rightarrow> v \<ge> V10
   | UserProfileToken \<Rightarrow> v \<ge> V10
   | StorageLending \<Rightarrow> v \<ge> V11
   | EventIdBugFix \<Rightarrow> v \<ge> V12
   | StorageLendingLimitFix \<Rightarrow> v \<ge> V13
   | StopRevokingExistingMessages \<Rightarrow> v \<ge> V14
   | IncreaseUsernameProofSizeLimit \<Rightarrow> v \<ge> V15
   | GaslessSigners \<Rightarrow> v \<ge> V16)"

definition protocol_version :: "engine_version \<Rightarrow> u32" where
  "protocol_version v = (case v of
     V5 \<Rightarrow> 2 | V6 \<Rightarrow> 3 | V7 \<Rightarrow> 4 | V8 \<Rightarrow> 5 | V9 \<Rightarrow> 6 | V10 \<Rightarrow> 7 | V11 \<Rightarrow> 8 | V12 \<Rightarrow> 8 | V13 \<Rightarrow> 8
   | V14 \<Rightarrow> 9 | V15 \<Rightarrow> 10 | V16 \<Rightarrow> 11 | _ \<Rightarrow> 1)"

definition next_version_timestamp_for :: "farcaster_time \<Rightarrow> farcaster_network \<Rightarrow> u64 option" where
  "next_version_timestamp_for time network =
     map_option fst (find (\<lambda>(active_at, _). active_at > to_unix_seconds time) (schedule_for network))"

section \<open>Properties\<close>

lemma try_network_i32 [simp]: "try_network (network_i32 n) = Some n"
  by (cases n) (simp_all add: try_network_def network_i32_def)

lemmas schedules = schedule_for_def ENGINE_VERSION_SCHEDULE_MAINNET_def ENGINE_VERSION_SCHEDULE_TESTNET_def
  ENGINE_VERSION_SCHEDULE_DEVNET_def

text \<open>Every schedule starts at time 0 and is sorted by activation time and by version.\<close>

lemma schedule_sorted: "sorted (map fst (schedule_for network))" "sorted (map snd (schedule_for network))"
  by (cases network; simp add: schedules less_eq_engine_version_def)+

lemma schedule_head: "\<exists>v rest. schedule_for network = (0, v) # rest"
  by (cases network) (simp_all add: schedules)

lemma sorted_last: "sorted (map f ys) \<Longrightarrow> x \<in> set ys \<Longrightarrow> f x \<le> f (last ys)"
  by (induction ys) auto

lemma last_filter_mono:
  assumes "sorted (map snd xs)" "\<And>x. x \<in> set xs \<Longrightarrow> P x \<Longrightarrow> Q x" "filter P xs \<noteq> []"
  shows "snd (last (filter P xs)) \<le> snd (last (filter Q xs))"
proof -
  have "set (filter P xs) \<subseteq> set (filter Q xs)" using assms(2) by auto
  then have m: "last (filter P xs) \<in> set (filter Q xs)" using assms(3) last_in_set by blast
  have "sorted (map snd (filter Q xs))" using assms(1) by (simp add: sorted_wrt_map sorted_wrt_filter)
  from sorted_last[OF this m] show ?thesis .
qed

end
