(* ===== verification/Results.thy ===== *)
theory Results
  imports Messages
begin

text \<open>
  Fallible computations whose errors are not \<open>HubError\<close>s: sequencing, checks over a list, and the passage to
  and from the results of the stores.
\<close>

fun and_then :: "'e + 'a \<Rightarrow> ('a \<Rightarrow> 'e + 'b) \<Rightarrow> 'e + 'b" where
  "and_then (Inl e) f = Inl e"
| "and_then (Inr x) f = f x"

fun check_all :: "('a \<Rightarrow> 'e + unit) \<Rightarrow> 'a list \<Rightarrow> 'e + unit" where
  "check_all f [] = Inr ()"
| "check_all f (x # xs) = and_then (f x) (\<lambda>_. check_all f xs)"

lemma and_then_Inr [simp]: "and_then r f = Inr y \<longleftrightarrow> (\<exists>x. r = Inr x \<and> f x = Inr y)"
  by (cases r) auto

lemma check_all_Inr: "check_all f xs = Inr u \<longleftrightarrow> (\<forall>x\<in>set xs. f x = Inr ())"
  by (induction xs) auto

lemma if_Inr [simp]: "(if c then Inl e else r) = Inr y \<longleftrightarrow> \<not> c \<and> r = Inr y"
  by simp

text \<open>A result of a store, with the error of the caller.\<close>

definition of_store :: "(failure \<Rightarrow> 'e) \<Rightarrow> 'a res \<Rightarrow> 'e + 'a" where
  "of_store f r = map_err f r"

lemma of_store_simps [simp]: "of_store f (Inl e) = Inl (f e)" "of_store f (Inr x) = Inr x"
  by (simp_all add: of_store_def)

section \<open>Faults\<close>

text \<open>
  The engines catch errors and go on, but a panic ends the process. A fault keeps the two apart; \<open>NoFuel\<close> is
  a page loop that was not given enough steps.
\<close>

datatype halt = Panics | NoFuel

datatype 'e fault = Fails 'e | Halts halt

definition of_res :: "(hub_error \<Rightarrow> 'e) \<Rightarrow> 'a res \<Rightarrow> 'e fault + 'a" where
  "of_res f r = map_err (\<lambda>x. case x of HubFailure e \<Rightarrow> Fails (f e) | Panic \<Rightarrow> Halts Panics) r"

definition of_action :: "(hub_error \<Rightarrow> 'e) \<Rightarrow> ('s, 'a) action \<Rightarrow> ('s, 'e fault, 'a) stateful" where
  "of_action f act s = (case act s of (r, s') \<Rightarrow> (of_res f r, s'))"

definition fail_with :: "'e \<Rightarrow> 'e fault + 'a" where
  "fail_with e = Inl (Fails e)"

definition require :: "bool \<Rightarrow> 'e \<Rightarrow> 'e fault + unit" where
  "require c e = (if c then Inr () else fail_with e)"

definition or_fail :: "'a option \<Rightarrow> 'e \<Rightarrow> 'e fault + 'a" where
  "or_fail x e = (case x of Some y \<Rightarrow> Inr y | None \<Rightarrow> fail_with e)"

definition or_panic :: "'a option \<Rightarrow> 'e fault + 'a" where
  "or_panic x = (case x of Some y \<Rightarrow> Inr y | None \<Rightarrow> Inl (Halts Panics))"

definition map_fault :: "('e \<Rightarrow> 'f) \<Rightarrow> 'e fault + 'a \<Rightarrow> 'f fault + 'a" where
  "map_fault f r = map_err (\<lambda>x. case x of Fails e \<Rightarrow> Fails (f e) | Halts h \<Rightarrow> Halts h) r"

text \<open>Handling an error and going on from the state it left behind.\<close>

definition attempt ::
  "('s, 'e fault, 'a) stateful \<Rightarrow> ('a \<Rightarrow> ('s, 'f fault, 'b) stateful) \<Rightarrow> ('e \<Rightarrow> ('s, 'f fault, 'b) stateful) \<Rightarrow> ('s, 'f fault, 'b) stateful" where
  "attempt f ok handle s = (case f s of
     (Inr x, s') \<Rightarrow> ok x s'
   | (Inl (Fails e), s') \<Rightarrow> handle e s'
   | (Inl (Halts h), s') \<Rightarrow> (Inl (Halts h), s'))"

lemma of_res_simps [simp]:
  "of_res f (Inr x) = Inr x" "of_res f (Inl (HubFailure e)) = Inl (Fails (f e))" "of_res f (Inl Panic) = Inl (Halts Panics)"
  by (simp_all add: of_res_def)

lemma of_res_eq_Inr [simp]: "of_res f r = Inr x \<longleftrightarrow> r = Inr x"
  by (cases r) (auto simp: of_res_def)

lemma require_eq_Inr [simp]: "require c e = Inr u \<longleftrightarrow> c"
  by (simp add: require_def fail_with_def)

lemma or_fail_eq_Inr [simp]: "or_fail x e = Inr y \<longleftrightarrow> x = Some y"
  by (cases x) (simp_all add: or_fail_def fail_with_def)

lemma or_panic_eq_Inr [simp]: "or_panic x = Inr y \<longleftrightarrow> x = Some y"
  by (cases x) (simp_all add: or_panic_def)

lemma map_fault_eq_Inr [simp]: "map_fault f r = Inr x \<longleftrightarrow> r = Inr x"
  by (cases r) (auto simp: map_fault_def)

lemma of_action_ok: "act s = (Inr x, s') \<Longrightarrow> of_action f act s = (Inr x, s')"
  by (simp add: of_action_def)

end
