(* ===== verification/Content_Rules.thy ===== *)
theory Content_Rules
  imports Protocol_Version Results "HOL-Library.Sublist"
begin

text \<open>
  The checks on the content of a message (\<open>core/validations\<close>: \<open>mod\<close>, \<open>cast\<close>, \<open>link\<close>, \<open>reaction\<close>, and the
  names and user data of \<open>message\<close>). Regular expressions, base58 and Ethereum address parsing come from
  third-party crates and are fields of the environment.
\<close>

section \<open>Results\<close>

text \<open>The variants of \<open>ValidationError\<close>, grouped by what they are about.\<close>

datatype envelope_error =
    MissingData | InvalidHash | InvalidHashScheme | InvalidSignature | InvalidData | UnsupportedFeature
  | InvalidSignatureScheme | MissingOrInvalidSigner | MissingSignature | InvalidNetwork | ProUserFeature
  | InvalidMessageType | DataBytesTooLong nat | TimestampTooFarInFuture | TimestampTooFarInThePast
  | ValidationHubError hub_error

datatype casts_error =
    TextTooLongForLongCast | TextTooShortForLongCast | TextTooShortFor10kCast | TextTooLongFor10kCast
  | InvalidCastType | StringEmbedsExceedsLimit | UrlTooShort | UrlTooLong | CastIsEmpty | TextTooLong
  | EmbedsExceedsLimit | StringEmbedsDeprecated | InvalidEmbedsAndStringEmbeds | MentionsExceedsLimit
  | MentionsMismatch | MentionsPositionsInvalid | MentionsPositionsNotSorted | MissingEmbed | FidIsMissing
  | HashIsMissing

datatype bodies_error =
    InvalidButtonIndex | InvalidReactionType | TargetIsMissing | InvalidLinkType | MissingString
  | StringTooLong | InvalidStorageUnitType | ExceededMaxStorageUnits

datatype names_error =
    FnameExceedsLength utf8 | FnameDoesntMatch utf8 string | EnsNameDoesntMatch utf8 string
  | EnsNameExceedsLength utf8 | EnsNameDoesntEndWith utf8 string | EnsNameUnsupportedSubdomain utf8
  | EnsNameNotValid utf8 | FnameIsMissing | UsernameDoesntMatch utf8 string
  | UsernameExceedsLength utf8 nat | InvalidUsernameType | InvalidUsername

datatype profile_error =
    PfpValueTooLong | BannerValueTooLong | DisplayValueTooLong | BioValueTooLong | UrlValueTooLong
  | LatitudeOutOfRange | LongitudeOutOfRange | InvalidLocationString | Caip19TooLong | InvalidUserDataType

datatype claims_error =
    InvalidEthAddressLength | InvalidSolAddressLength | EthAddressMissing | SolAddressMissing
  | InvalidBlockhashLength | BlockHashMissing | InvalidEthClaimSignatureLength
  | InvalidSolClaimSignatureLength | InvalidClaimSignature

datatype signers_error =
    InvalidMetadataType | InvalidSignedKeyRequest | SignedKeyRequestExpired
  | SignedKeyRequestCustodyMismatch | InvalidKeyLength | InvalidKeyType | EmptyScopes | TooManyScopes nat
  | InvalidScope i32 | InvalidTtl u32 | MissingDeadline | MissingMetadata | InvalidSignatureType
  | KeyAlreadyRegisteredOnchain | KeyClaimedByDifferentFid | KeyRegisteredByDifferentRequestingFid
  | KeyNotRegistered | ActiveKeyCapExceeded u32

datatype validation_error =
    Envelope envelope_error | Casts casts_error | Bodies bodies_error | Names names_error | Profile profile_error | Claims claims_error | Signers signers_error

type_synonym 'a checked = "validation_error + 'a"

section \<open>Third-party code and text\<close>

text \<open>Outside the repository: the hash and signature primitives, the EIP-712 library, regular expressions
  (None is a failure of the matcher), base58 and Ethereum addresses.\<close>

datatype typed_data =
    VerificationClaimData (vc_fid: u64) (vc_address: utf8) (vc_block_hash: utf8) (vc_network: i32)
  | UserNameProofData (un_name: utf8) (un_timestamp: u64) (un_owner: utf8)
  | KeyAddData u64 bytes u32 "u32 list" u32 u32 u32 u32
  | KeyRemoveData u64 bytes u32 u32 u32
  | SignedKeyRequestData u64 bytes u64 u32

record validation_env =
  ve_codec :: proto_codec
  ve_hash32 :: "bytes \<Rightarrow> bytes"
  ve_signature_ok :: "bytes \<Rightarrow> bool"
  ve_public_key_ok :: "bytes \<Rightarrow> bool"
  ve_verify_strict :: "bytes \<Rightarrow> bytes \<Rightarrow> bytes \<Rightarrow> bool"
  ve_is_match :: "string \<Rightarrow> utf8 \<Rightarrow> bool option"
  ve_captures :: "string \<Rightarrow> utf8 \<Rightarrow> (utf8 \<times> utf8) option option"
  ve_eth_from_hex :: "utf8 \<Rightarrow> bytes option"
  ve_eth_checksum :: "bytes \<Rightarrow> utf8"
  ve_bs58_decode :: "utf8 \<Rightarrow> bytes option"
  ve_bs58_encode :: "bytes \<Rightarrow> utf8"
  ve_hex :: "bytes \<Rightarrow> utf8"
  ve_typed_data_ok :: "typed_data \<Rightarrow> bool"
  ve_signing_hash :: "typed_data \<Rightarrow> bytes option"
  ve_recover :: "bytes \<Rightarrow> bool \<Rightarrow> bytes \<Rightarrow> bytes option"
  ve_abi_signed_key_request :: "bytes \<Rightarrow> (nat \<times> bytes \<times> bytes \<times> nat) option"

definition ascii :: "string \<Rightarrow> utf8" where
  "ascii s = map (\<lambda>c. word_of_nat (of_char c)) s"

fun split_on :: "u8 \<Rightarrow> utf8 \<Rightarrow> utf8 list" where
  "split_on c [] = [[]]"
| "split_on c (x # xs) =
     (if x = c then [] # split_on c xs
      else case split_on c xs of [] \<Rightarrow> [[x]] | p # ps \<Rightarrow> (x # p) # ps)"

text \<open>Well-formed UTF-8, as \<open>std::str::from_utf8\<close> decides it.\<close>

definition between :: "u8 \<Rightarrow> u8 \<Rightarrow> u8 \<Rightarrow> bool" where
  "between lo hi b \<longleftrightarrow> lo \<le> b \<and> b \<le> hi"

fun valid_utf8 :: "bytes \<Rightarrow> bool" where
  "valid_utf8 [] = True"
| "valid_utf8 (a # bs) =
     (if a < 0x80 then valid_utf8 bs
      else case bs of
        [] \<Rightarrow> False
      | b # bs1 \<Rightarrow>
          if between 0xC2 0xDF a then between 0x80 0xBF b \<and> valid_utf8 bs1
          else (case bs1 of
            [] \<Rightarrow> False
          | c # bs2 \<Rightarrow>
              if between 0xE0 0xEF a then
                between (if a = 0xE0 then 0xA0 else 0x80) (if a = 0xED then 0x9F else 0xBF) b
                \<and> between 0x80 0xBF c \<and> valid_utf8 bs2
              else (case bs2 of
                [] \<Rightarrow> False
              | d # bs3 \<Rightarrow>
                  between 0xF0 0xF4 a
                  \<and> between (if a = 0xF0 then 0x90 else 0x80) (if a = 0xF4 then 0x8F else 0xBF) b
                  \<and> between 0x80 0xBF c \<and> between 0x80 0xBF d \<and> valid_utf8 bs3)))"

section \<open>Identifiers and URLs\<close>

definition validate_fid :: "u64 \<Rightarrow> unit checked" where
  "validate_fid fid = (if fid = 0 then Inl (Casts FidIsMissing) else Inr ())"

definition validate_cast_id :: "cast_id \<Rightarrow> unit checked" where
  "validate_cast_id c = and_then (validate_fid (ci_fid c)) (\<lambda>_.
     if length (ci_hash c) \<noteq> 20 then Inl (Casts HashIsMissing) else Inr ())"

definition validate_url :: "utf8 \<Rightarrow> unit checked" where
  "validate_url url =
     (if url = [] then Inl (Casts UrlTooShort)
      else if length url > 256 then Inl (Casts UrlTooLong)
      else Inr ())"

section \<open>Casts\<close>

datatype cast_type = Cast | LongCast | TenKCast

definition try_cast_type :: "i32 \<Rightarrow> cast_type option" where
  "try_cast_type n = (if n = 0 then Some Cast else if n = 1 then Some LongCast else if n = 2 then Some TenKCast else None)"

definition validate_embed :: "embed option \<Rightarrow> unit checked" where
  "validate_embed e = (case e of
     Some (EmbedUrl url) \<Rightarrow> validate_url url
   | Some (EmbedCastId c) \<Rightarrow> validate_cast_id c
   | None \<Rightarrow> Inl (Casts MissingEmbed))"

definition validate_parent :: "cast_parent \<Rightarrow> unit checked" where
  "validate_parent p = (case p of ParentCastId c \<Rightarrow> validate_cast_id c | ParentUrl url \<Rightarrow> validate_url url)"

text \<open>The loop over the mentions: each is an account, its position is in the text, positions do not
  decrease. \<open>prev\<close> is the last position; None is the index 0 of the loop.\<close>

fun validate_mentions :: "nat \<Rightarrow> u32 option \<Rightarrow> (u64 \<times> u32) list \<Rightarrow> unit checked" where
  "validate_mentions text_len prev [] = Inr ()"
| "validate_mentions text_len prev ((fid, position) # rest) =
     and_then (validate_fid fid) (\<lambda>_.
       if position > word_of_nat text_len then Inl (Casts MentionsPositionsInvalid)
       else if (case prev of Some p \<Rightarrow> position < p | None \<Rightarrow> False) then Inl (Casts MentionsPositionsNotSorted)
       else validate_mentions text_len (Some position) rest)"

definition validate_cast_text :: "cast_add_body \<Rightarrow> bool \<Rightarrow> unit checked" where
  "validate_cast_text body is_pro_user = (let n = length (ca_text body) in case try_cast_type (ca_type body) of
     Some Cast \<Rightarrow> if n > 320 then Inl (Casts TextTooLong) else Inr ()
   | Some LongCast \<Rightarrow>
       if n > 1024 then Inl (Casts TextTooLongForLongCast)
       else if n \<le> 320 then Inl (Casts TextTooShortForLongCast)
       else Inr ()
   | Some TenKCast \<Rightarrow>
       if \<not> is_pro_user then Inl (Envelope ProUserFeature)
       else if n > 10000 then Inl (Casts TextTooShortFor10kCast)
       else if n \<le> 1024 then Inl (Casts TextTooLongFor10kCast)
       else Inr ()
   | None \<Rightarrow> Inl (Casts InvalidCastType))"

definition validate_cast_add_body :: "cast_add_body \<Rightarrow> bool \<Rightarrow> bool \<Rightarrow> unit checked" where
  "validate_cast_add_body body allow_embeds_deprecated is_pro_user =
     and_then (validate_cast_text body is_pro_user) (\<lambda>_.
       if length (ca_embeds body) > (if is_pro_user then 4 else 2) then Inl (Casts EmbedsExceedsLimit)
       else if allow_embeds_deprecated \<and> length (ca_embeds_deprecated body) > 2 then Inl (Casts StringEmbedsExceedsLimit)
       else if \<not> allow_embeds_deprecated \<and> ca_embeds_deprecated body \<noteq> [] then Inl (Casts StringEmbedsDeprecated)
       else if length (ca_mentions body) > 10 then Inl (Casts MentionsExceedsLimit)
       else if length (ca_mentions body) \<noteq> length (ca_mentions_positions body) then Inl (Casts MentionsMismatch)
       else if ca_embeds body \<noteq> [] \<and> ca_embeds_deprecated body \<noteq> [] then Inl (Casts InvalidEmbedsAndStringEmbeds)
       else if ca_text body = [] \<and> ca_embeds body = [] \<and> ca_embeds_deprecated body = [] \<and> ca_mentions body = [] then Inl (Casts CastIsEmpty)
       else and_then (check_all validate_embed (ca_embeds body)) (\<lambda>_.
         and_then (check_all validate_url (ca_embeds_deprecated body)) (\<lambda>_.
         and_then (validate_mentions (length (ca_text body)) None (zip (ca_mentions body) (ca_mentions_positions body))) (\<lambda>_.
         case ca_parent body of Some p \<Rightarrow> validate_parent p | None \<Rightarrow> Inr ()))))"

definition validate_cast_remove_body :: "bytes \<Rightarrow> unit checked" where
  "validate_cast_remove_body target_hash = (if length target_hash \<noteq> 20 then Inl (Casts HashIsMissing) else Inr ())"

section \<open>Links and reactions\<close>

definition validate_link_type :: "utf8 \<Rightarrow> unit checked" where
  "validate_link_type ty = (if ty = [] \<or> length ty > 8 then Inl (Bodies InvalidLinkType) else Inr ())"

definition validate_link_compact_state_body :: "link_compact_state_body \<Rightarrow> unit checked" where
  "validate_link_compact_state_body body =
     and_then (validate_link_type (lc_type body)) (\<lambda>_.
       if lc_target_fids body = [] then Inl (Bodies TargetIsMissing) else check_all validate_fid (lc_target_fids body))"

definition validate_link_body :: "link_body \<Rightarrow> unit checked" where
  "validate_link_body body =
     and_then (validate_link_type (lb_type body)) (\<lambda>_.
       case lb_target body of Some fid \<Rightarrow> validate_fid fid | None \<Rightarrow> Inl (Bodies TargetIsMissing))"

definition validate_reaction_type :: "i32 \<Rightarrow> unit checked" where
  "validate_reaction_type n = (if n \<in> {0, 1, 2} then Inr () else Inl (Bodies InvalidReactionType))"

definition validate_target :: "reaction_target \<Rightarrow> unit checked" where
  "validate_target t = (case t of TargetUrl url \<Rightarrow> validate_url url | TargetCastId c \<Rightarrow> validate_cast_id c)"

definition validate_reaction_body :: "reaction_body \<Rightarrow> unit checked" where
  "validate_reaction_body body =
     and_then (validate_reaction_type (rb_type body)) (\<lambda>_.
       case rb_target body of Some t \<Rightarrow> validate_target t | None \<Rightarrow> Inl (Bodies TargetIsMissing))"

end
