(* ===== verification/Profile_Rules.thy ===== *)
theory Profile_Rules
  imports Content_Rules
begin

text \<open>
  The checks on names and user data (\<open>core/validations/message.rs\<close> and the address checks of
  \<open>verification.rs\<close>).
\<close>

section \<open>Addresses\<close>

definition validate_eth_address :: "bytes \<Rightarrow> bytes checked" where
  "validate_eth_address address =
     (if length address = 0 then Inl (Claims EthAddressMissing)
      else if length address \<noteq> 20 then Inl (Claims InvalidEthAddressLength)
      else Inr address)"

definition validate_sol_address :: "bytes \<Rightarrow> bytes checked" where
  "validate_sol_address address =
     (if length address = 0 then Inl (Claims SolAddressMissing)
      else if length address \<noteq> 32 then Inl (Claims InvalidSolAddressLength)
      else Inr address)"

section \<open>Names\<close>

definition FNAME_REGEX :: string where
  "FNAME_REGEX = ''^[a-z0-9][a-z0-9-]{0,15}$''"

definition TWITTER_USERNAME_REGEX :: string where
  "TWITTER_USERNAME_REGEX = ''^[a-z0-9_]{0,15}$''"

definition GITHUB_USERNAME_REGEX :: string where
  "GITHUB_USERNAME_REGEX = ''^[a-zA-Z'' @ [char_of (92 :: nat)] @ ''d](?:[a-zA-Z'' @ [char_of (92 :: nat)] @ ''d]|-(?!-)){0,38}$''"

text \<open>A match that the code requires, with the error for a name that does not match.\<close>

definition require_match :: "validation_env \<Rightarrow> string \<Rightarrow> utf8 \<Rightarrow> validation_error \<Rightarrow> unit checked" where
  "require_match env regex input mismatch = (case ve_is_match env regex input of
     None \<Rightarrow> Inl (Envelope InvalidData)
   | Some b \<Rightarrow> if \<not> b then Inl mismatch else Inr ())"

definition ends_with :: "string \<Rightarrow> utf8 \<Rightarrow> bool" where
  "ends_with s input \<longleftrightarrow> suffix (ascii s) input"

definition validate_fname :: "validation_env \<Rightarrow> utf8 \<Rightarrow> unit checked" where
  "validate_fname env input =
     (if length input = 0 then Inl (Names FnameIsMissing)
      else if length input > 16 then Inl (Names (FnameExceedsLength input))
      else require_match env FNAME_REGEX input (Names (FnameDoesntMatch input FNAME_REGEX)))"

definition validate_ens_name :: "validation_env \<Rightarrow> utf8 \<Rightarrow> unit checked" where
  "validate_ens_name env input =
     (if \<not> ends_with ''.eth'' input then Inl (Names (EnsNameDoesntEndWith input ''.eth''))
      else let name_parts = split_on 46 input in
        if length name_parts > 2 then Inl (Names (EnsNameUnsupportedSubdomain input))
        else if length name_parts \<noteq> 2 \<or> hd name_parts = [] then Inl (Names (EnsNameNotValid input))
        else if length input > 20 then Inl (Names (EnsNameExceedsLength input))
        else require_match env FNAME_REGEX (hd name_parts) (Names (EnsNameDoesntMatch input FNAME_REGEX)))"

definition validate_base_name :: "validation_env \<Rightarrow> utf8 \<Rightarrow> unit checked" where
  "validate_base_name env input =
     (if \<not> ends_with ''.base.eth'' input then Inl (Names (EnsNameDoesntEndWith input ''.base.eth''))
      else let name_parts = split_on 46 input in
        if length name_parts \<noteq> 3 \<or> hd name_parts = [] then Inl (Envelope InvalidData)
        else if length input > 25 then Inl (Names (EnsNameExceedsLength input))
        else require_match env FNAME_REGEX (hd name_parts) (Names (EnsNameDoesntMatch input FNAME_REGEX)))"

definition validate_twitter_username :: "validation_env \<Rightarrow> utf8 \<Rightarrow> unit checked" where
  "validate_twitter_username env input =
     (if length input > 15 then Inl (Names (UsernameExceedsLength input 15))
      else require_match env TWITTER_USERNAME_REGEX input (Names (UsernameDoesntMatch input TWITTER_USERNAME_REGEX)))"

definition validate_github_username :: "validation_env \<Rightarrow> utf8 \<Rightarrow> unit checked" where
  "validate_github_username env input =
     (if length input > 38 then Inl (Names (UsernameExceedsLength input 38))
      else require_match env GITHUB_USERNAME_REGEX input (Names (UsernameDoesntMatch input GITHUB_USERNAME_REGEX)))"

section \<open>Locations\<close>

text \<open>\<open>str::parse::<f64>\<close> on the texts the location pattern captures, an optional minus sign, digits, a
  point and two digits: the value in hundredths. The bounds the code compares with are exact.\<close>

definition digit_value :: "u8 \<Rightarrow> nat option" where
  "digit_value b = (if 48 \<le> b \<and> b \<le> 57 then Some (unat b - 48) else None)"

fun digits_value :: "nat \<Rightarrow> utf8 \<Rightarrow> nat option" where
  "digits_value acc [] = Some acc"
| "digits_value acc (b # bs) = (case digit_value b of None \<Rightarrow> None | Some d \<Rightarrow> digits_value (10 * acc + d) bs)"

definition validate_number :: "utf8 \<Rightarrow> int checked" where
  "validate_number value =
     (let neg = (value \<noteq> [] \<and> hd value = 45); rest = (if neg then tl value else value) in
      case split_on 46 rest of
        [whole, frac] \<Rightarrow>
          if whole = [] \<or> length frac \<noteq> 2 then Inl (Profile InvalidLocationString)
          else (case digits_value 0 (whole @ frac) of
            None \<Rightarrow> Inl (Profile InvalidLocationString)
          | Some n \<Rightarrow> Inr (if neg then - int n else int n))
      | _ \<Rightarrow> Inl (Profile InvalidLocationString))"

definition validate_latitude :: "utf8 \<Rightarrow> unit checked" where
  "validate_latitude value = and_then (validate_number value) (\<lambda>number.
     if number < -9000 \<or> number > 9000 then Inl (Profile LatitudeOutOfRange) else Inr ())"

definition validate_longitude :: "utf8 \<Rightarrow> unit checked" where
  "validate_longitude value = and_then (validate_number value) (\<lambda>number.
     if number < -18000 \<or> number > 18000 then Inl (Profile LongitudeOutOfRange) else Inr ())"

definition location_regex :: string where
  "location_regex = (let d = [char_of (92 :: nat)] in
     ''^geo:(-?'' @ d @ ''d{1,2}'' @ d @ ''.'' @ d @ ''d{2}),(-?'' @ d @ ''d{1,3}'' @ d @ ''.'' @ d @ ''d{2})$'')"

definition validate_user_location :: "validation_env \<Rightarrow> utf8 \<Rightarrow> unit checked" where
  "validate_user_location env location =
     (if location = [] then Inr ()
      else case ve_captures env location_regex location of
        None \<Rightarrow> Inl (Profile InvalidLocationString)
      | Some None \<Rightarrow> Inl (Profile InvalidLocationString)
      | Some (Some (latitude, longitude)) \<Rightarrow>
          and_then (validate_latitude latitude) (\<lambda>_. validate_longitude longitude))"

section \<open>Other user data\<close>

definition validate_user_data_primary_address_ethereum :: "validation_env \<Rightarrow> utf8 \<Rightarrow> unit checked" where
  "validate_user_data_primary_address_ethereum env input =
     (if input = [] then Inr ()
      else if \<not> prefix (ascii ''0x'') input \<or> length input \<noteq> 42 then Inl (Claims InvalidEthAddressLength)
      else case ve_eth_from_hex env input of
        None \<Rightarrow> Inl (Envelope InvalidData)
      | Some parsed \<Rightarrow> and_then (validate_eth_address parsed) (\<lambda>_.
          if ve_eth_checksum env parsed \<noteq> input then Inl (Envelope InvalidData) else Inr ()))"

definition validate_user_data_primary_address_solana :: "validation_env \<Rightarrow> utf8 \<Rightarrow> unit checked" where
  "validate_user_data_primary_address_solana env input =
     (if input = [] then Inr ()
      else case ve_bs58_decode env input of
        None \<Rightarrow> Inl (Envelope InvalidData)
      | Some decoded \<Rightarrow> and_then (validate_sol_address decoded) (\<lambda>_. Inr ()))"

definition caip19_regex :: string where
  "caip19_regex = ''^[a-z0-9]+:[a-zA-Z0-9]+/[a-z0-9-]{3,8}:[-.%a-zA-Z0-9]{1,128}(/[a-zA-Z0-9]+)?$''"

definition validate_caip19_format :: "validation_env \<Rightarrow> utf8 \<Rightarrow> unit checked" where
  "validate_caip19_format env input =
     (if input = [] then Inr ()
      else if length input > 256 then Inl (Profile Caip19TooLong)
      else and_then (require_match env caip19_regex input (Envelope InvalidData)) (\<lambda>_.
        let parts = split_on 47 input in
        if length parts < 2 \<or> length parts > 3 then Inl (Envelope InvalidData)
        else let asset_part = parts ! 1 in
          if 58 \<in> set asset_part \<and> length (tl (dropWhile (\<lambda>b. b \<noteq> 58) asset_part)) > 128 then Inl (Envelope InvalidData)
          else Inr ()))"

datatype user_data_type =
    UserDataType_None | Pfp | Display | Bio | Url | Username | Location | Twitter | Github | Banner
  | UserDataPrimaryAddressEthereum | UserDataPrimaryAddressSolana | ProfileToken

definition user_data_type_i32 :: "user_data_type \<Rightarrow> i32" where
  "user_data_type_i32 t = (case t of UserDataType_None \<Rightarrow> 0 | Pfp \<Rightarrow> 1 | Display \<Rightarrow> 2 | Bio \<Rightarrow> 3 | Url \<Rightarrow> 5 | Username \<Rightarrow> 6
     | Location \<Rightarrow> 7 | Twitter \<Rightarrow> 8 | Github \<Rightarrow> 9 | Banner \<Rightarrow> 10 | UserDataPrimaryAddressEthereum \<Rightarrow> 11
     | UserDataPrimaryAddressSolana \<Rightarrow> 12 | ProfileToken \<Rightarrow> 13)"

definition try_user_data_type :: "i32 \<Rightarrow> user_data_type option" where
  "try_user_data_type n = find (\<lambda>t. user_data_type_i32 t = n)
     [UserDataType_None, Pfp, Display, Bio, Url, Username, Location, Twitter, Github, Banner,
      UserDataPrimaryAddressEthereum, UserDataPrimaryAddressSolana, ProfileToken]"

definition validate_user_data_add_body :: "validation_env \<Rightarrow> user_data_body \<Rightarrow> bool \<Rightarrow> engine_version \<Rightarrow> unit checked" where
  "validate_user_data_add_body env body is_pro_user version =
     (let value = ud_value body in case try_user_data_type (ud_type body) of
        None \<Rightarrow> Inl (Envelope InvalidData)
      | Some Pfp \<Rightarrow> if length value > 256 then Inl (Profile PfpValueTooLong) else Inr ()
      | Some Banner \<Rightarrow>
          if \<not> is_pro_user then Inl (Envelope ProUserFeature)
          else if length value > 256 then Inl (Profile BannerValueTooLong)
          else Inr ()
      | Some Display \<Rightarrow> if length value > 32 then Inl (Profile DisplayValueTooLong) else Inr ()
      | Some Bio \<Rightarrow> if length value > 256 then Inl (Profile BioValueTooLong) else Inr ()
      | Some Url \<Rightarrow> if length value > 256 then Inl (Profile UrlValueTooLong) else Inr ()
      | Some Username \<Rightarrow>
          if value = [] then Inr ()
          else if ends_with ''.base.eth'' value then validate_base_name env value
          else if ends_with ''.eth'' value then validate_ens_name env value
          else validate_fname env value
      | Some Location \<Rightarrow> validate_user_location env value
      | Some Twitter \<Rightarrow> validate_twitter_username env value
      | Some Github \<Rightarrow> validate_github_username env value
      | Some UserDataPrimaryAddressEthereum \<Rightarrow>
          if \<not> is_enabled version PrimaryAddresses then Inl (Envelope UnsupportedFeature)
          else validate_user_data_primary_address_ethereum env value
      | Some UserDataPrimaryAddressSolana \<Rightarrow>
          if \<not> is_enabled version PrimaryAddresses then Inl (Envelope UnsupportedFeature)
          else validate_user_data_primary_address_solana env value
      | Some ProfileToken \<Rightarrow>
          if \<not> is_enabled version UserProfileToken then Inl (Envelope UnsupportedFeature)
          else validate_caip19_format env value
      | Some UserDataType_None \<Rightarrow> Inl (Profile InvalidUserDataType))"

end
