(* ===== verification/Message_Rules.thy ===== *)
theory Message_Rules
  imports Profile_Rules
begin

text \<open>
  Static validation of a message: address verifications (\<open>core/validations/verification.rs\<close>), gasless keys
  (\<open>key.rs\<close>) and the envelope with the dispatch on the body (\<open>message.rs\<close>).
\<close>

section \<open>Verification claims\<close>

definition validate_eth_block_hash :: "bytes \<Rightarrow> bytes checked" where
  "validate_eth_block_hash block_hash =
     (if length block_hash = 0 then Inl (Claims BlockHashMissing)
      else if length block_hash \<noteq> 32 then Inl (Claims InvalidBlockhashLength)
      else Inr block_hash)"

definition validate_sol_block_hash :: "bytes \<Rightarrow> bytes checked" where
  "validate_sol_block_hash block_hash =
     (if length block_hash = 0 then Inl (Claims BlockHashMissing)
      else if length block_hash \<noteq> 32 then Inl (Claims InvalidBlockhashLength)
      else Inr block_hash)"

record verification_address_claim =
  cl_fid :: u64
  cl_address :: utf8
  cl_network :: i32
  cl_block_hash :: utf8
  cl_protocol :: i32

definition make_verification_address_claim ::
  "validation_env \<Rightarrow> u64 \<Rightarrow> bytes \<Rightarrow> farcaster_network \<Rightarrow> bytes \<Rightarrow> i32 \<Rightarrow> verification_address_claim checked" where
  "make_verification_address_claim env fid address network block_hash protocol =
     (if protocol = Protocol_Ethereum then
        and_then (validate_eth_address address) (\<lambda>_.
        and_then (validate_eth_block_hash block_hash) (\<lambda>_.
        Inr \<lparr>cl_fid = fid, cl_address = ve_hex env address, cl_network = network_i32 network,
             cl_block_hash = ve_hex env block_hash, cl_protocol = 0\<rparr>))
      else
        and_then (validate_sol_address address) (\<lambda>_.
        and_then (validate_sol_block_hash block_hash) (\<lambda>_.
        Inr \<lparr>cl_fid = fid, cl_address = ve_bs58_encode env address, cl_network = network_i32 network,
             cl_block_hash = ve_bs58_encode env block_hash, cl_protocol = 1\<rparr>)))"

text \<open>\<open>recover_address_from_prehash\<close> on a signature of 64 bytes and a recovery byte.\<close>

definition recover_address :: "validation_env \<Rightarrow> bytes \<Rightarrow> bytes \<Rightarrow> bytes option" where
  "recover_address env signature hash =
     ve_recover env (take 64 signature) (signature ! 64 \<noteq> 0x1b \<and> signature ! 64 \<noteq> 0x00) hash"

definition validate_verification_eoa_signature ::
  "validation_env \<Rightarrow> verification_address_claim \<Rightarrow> verification_add_address_body \<Rightarrow> unit checked" where
  "validate_verification_eoa_signature env claim body =
     (let data = VerificationClaimData (cl_fid claim) (cl_address claim) (cl_block_hash claim) (cl_network claim) in
      if \<not> ve_typed_data_ok env data then Inl (Envelope InvalidData)
      else case ve_signing_hash env data of
        None \<Rightarrow> Inl (Envelope InvalidHash)
      | Some hash \<Rightarrow>
          if length (va_claim_signature body) \<noteq> 65 then Inl (Claims InvalidClaimSignature)
          else (case recover_address env (va_claim_signature body) hash of
            None \<Rightarrow> Inl (Claims InvalidClaimSignature)
          | Some recovered \<Rightarrow> if recovered \<noteq> va_address body then Inl (Claims InvalidClaimSignature) else Inr ()))"

definition EIP_712_FARCASTER_VERIFICATION_CLAIM_CHAIN_IDS :: "16 word list" where
  "EIP_712_FARCASTER_VERIFICATION_CLAIM_CHAIN_IDS = [0, 1, 5, 10, 420]"

definition validate_verification_add_eth_address_signature ::
  "validation_env \<Rightarrow> verification_add_address_body \<Rightarrow> u64 \<Rightarrow> farcaster_network \<Rightarrow> unit checked" where
  "validate_verification_add_eth_address_signature env body fid network =
     (if length (va_claim_signature body) > 2048 then Inl (Claims InvalidEthClaimSignatureLength)
      else if ucast (va_chain_id body) \<notin> set EIP_712_FARCASTER_VERIFICATION_CLAIM_CHAIN_IDS then Inl (Envelope InvalidData)
      else case make_verification_address_claim env fid (va_address body) network (va_block_hash body) Protocol_Ethereum of
        Inl _ \<Rightarrow> Inl (Envelope InvalidData)
      | Inr claim \<Rightarrow>
          if va_verification_type body = 0 then validate_verification_eoa_signature env claim body
          else if va_verification_type body = 1 then Inr ()
          else Inl (Envelope InvalidData))"

definition recreate_solana_claim_message :: "verification_address_claim \<Rightarrow> bytes" where
  "recreate_solana_claim_message claim =
     ascii ''fid: '' @ ascii (decimal (unat (cl_fid claim))) @ ascii '' address: '' @ cl_address claim
     @ ascii '' network: '' @ ascii (decimal (nat (cl_network claim))) @ ascii '' blockHash: '' @ cl_block_hash claim
     @ ascii '' protocol: '' @ ascii (decimal (nat (cl_protocol claim)))"

definition validate_verification_add_sol_address_signature ::
  "validation_env \<Rightarrow> verification_add_address_body \<Rightarrow> u64 \<Rightarrow> farcaster_network \<Rightarrow> unit checked" where
  "validate_verification_add_sol_address_signature env body fid network =
     (if length (va_claim_signature body) \<noteq> 64 then Inl (Claims InvalidSolClaimSignatureLength)
      else case make_verification_address_claim env fid (va_address body) network (va_block_hash body) Protocol_Solana of
        Inl _ \<Rightarrow> Inl (Envelope InvalidData)
      | Inr claim \<Rightarrow>
          if \<not> ve_public_key_ok env (va_address body) then Inl (Envelope InvalidData)
          else if ve_verify_strict env (va_address body) (recreate_solana_claim_message claim) (va_claim_signature body) then Inr ()
          else Inl (Envelope InvalidSignature))"

definition validate_add_eth_address ::
  "validation_env \<Rightarrow> verification_add_address_body \<Rightarrow> u64 \<Rightarrow> farcaster_network \<Rightarrow> unit checked" where
  "validate_add_eth_address env body fid network =
     and_then (validate_eth_address (va_address body)) (\<lambda>_.
     and_then (validate_eth_block_hash (va_block_hash body)) (\<lambda>_.
     validate_verification_add_eth_address_signature env body fid network))"

definition validate_add_sol_address ::
  "validation_env \<Rightarrow> verification_add_address_body \<Rightarrow> u64 \<Rightarrow> farcaster_network \<Rightarrow> unit checked" where
  "validate_add_sol_address env body fid network =
     and_then (validate_sol_address (va_address body)) (\<lambda>_.
     and_then (validate_sol_block_hash (va_block_hash body)) (\<lambda>_.
     validate_verification_add_sol_address_signature env body fid network))"

definition validate_add_address ::
  "validation_env \<Rightarrow> verification_add_address_body \<Rightarrow> u64 \<Rightarrow> farcaster_network \<Rightarrow> unit checked" where
  "validate_add_address env body fid network =
     (if va_protocol body = Protocol_Ethereum then validate_add_eth_address env body fid network
      else if va_protocol body = Protocol_Solana then validate_add_sol_address env body fid network
      else Inl (Envelope InvalidData))"

definition validate_remove_address :: "verification_remove_body \<Rightarrow> unit checked" where
  "validate_remove_address body =
     (if vr_protocol body = Protocol_Ethereum then and_then (validate_eth_address (vr_address body)) (\<lambda>_. Inr ())
      else if vr_protocol body = Protocol_Solana then and_then (validate_sol_address (vr_address body)) (\<lambda>_. Inr ())
      else Inl (Envelope InvalidData))"

section \<open>Fname transfers\<close>

record fname_transfer =
  ft_id :: u64
  ft_from_fid :: u64
  ft_proof :: "user_name_proof option"

text \<open>The address of the fname server; its checksummed text is in the source.\<close>

definition FNAME_SIGNER_ADDRESS :: bytes where
  "FNAME_SIGNER_ADDRESS = [0xBc, 0x52, 0x74, 0xeF, 0xc2, 0x66, 0x31, 0x10, 0x15, 0x79, 0x3d, 0x89, 0xE9, 0xB5, 0x91, 0xfa,
     0x46, 0x29, 0x47, 0x41]"

text \<open>None is the panic on a transfer without a proof.\<close>

definition validate_fname_transfer ::
  "validation_env \<Rightarrow> fname_transfer \<Rightarrow> farcaster_network \<Rightarrow> bytes option \<Rightarrow> unit checked option" where
  "validate_fname_transfer env transfer network signer_address = (case ft_proof transfer of
     None \<Rightarrow> None
   | Some proof \<Rightarrow> Some (
       if \<not> valid_utf8 (up_name proof) then Inl (Names InvalidUsername)
       else let data = UserNameProofData (up_name proof) (up_timestamp proof) (ve_hex env (up_owner proof)) in
         if \<not> ve_typed_data_ok env data then Inl (Envelope InvalidData)
         else case ve_signing_hash env data of
           None \<Rightarrow> Inl (Envelope InvalidHash)
         | Some hash \<Rightarrow>
             if network = Devnet then Inr ()
             else if length (up_signature proof) \<noteq> 65 then Inl (Envelope InvalidSignature)
             else (case recover_address env (up_signature proof) hash of
               None \<Rightarrow> Inl (Envelope InvalidSignature)
             | Some recovered \<Rightarrow>
                 if recovered \<noteq> (case signer_address of Some a \<Rightarrow> a | None \<Rightarrow> FNAME_SIGNER_ADDRESS) then Inl (Envelope InvalidSignature)
                 else Inr ())))"

section \<open>Gasless keys\<close>

abbreviation ED25519_PUBLIC_KEY_LEN :: nat where "ED25519_PUBLIC_KEY_LEN \<equiv> 32"

abbreviation KEY_TYPE_ED25519 :: u32 where "KEY_TYPE_ED25519 \<equiv> 1"

abbreviation MAX_KEY_TTL_SECONDS :: u32 where "MAX_KEY_TTL_SECONDS \<equiv> 90 * 24 * 60 * 60"

abbreviation MAX_KEY_ADD_SCOPES :: nat where "MAX_KEY_ADD_SCOPES \<equiv> length message_types"

abbreviation METADATA_TYPE_SIGNED_KEY_REQUEST :: u32 where "METADATA_TYPE_SIGNED_KEY_REQUEST \<equiv> 1"

datatype key_remove_signature_type = Custody | SelfRevoke

definition try_key_remove_signature_type :: "u32 \<Rightarrow> key_remove_signature_type checked" where
  "try_key_remove_signature_type v = (if v = 1 then Inr Custody else if v = 2 then Inr SelfRevoke else Inl (Signers InvalidSignatureType))"

definition validate_key_add_scopes :: "i32 list \<Rightarrow> unit checked" where
  "validate_key_add_scopes scopes =
     (if scopes = [] then Inl (Signers EmptyScopes)
      else if length scopes > MAX_KEY_ADD_SCOPES then Inl (Signers (TooManyScopes MAX_KEY_ADD_SCOPES))
      else check_all (\<lambda>scope. case try_message_type scope of
          Some MessageType_None \<Rightarrow> Inl (Signers (InvalidScope scope))
        | Some KeyAdd \<Rightarrow> Inl (Signers (InvalidScope scope))
        | Some KeyRemove \<Rightarrow> Inl (Signers (InvalidScope scope))
        | Some _ \<Rightarrow> Inr ()
        | None \<Rightarrow> Inl (Signers (InvalidScope scope))) scopes)"

definition validate_key_add_body :: "key_add_body \<Rightarrow> unit checked" where
  "validate_key_add_body body =
     (if length (ka_key body) \<noteq> ED25519_PUBLIC_KEY_LEN then Inl (Signers InvalidKeyLength)
      else if ka_key_type body \<noteq> KEY_TYPE_ED25519 then Inl (Signers InvalidKeyType)
      else if ka_deadline body = 0 then Inl (Signers MissingDeadline)
      else if ka_ttl body = 0 \<or> ka_ttl body > MAX_KEY_TTL_SECONDS then Inl (Signers (InvalidTtl MAX_KEY_TTL_SECONDS))
      else if ka_metadata_type body \<noteq> METADATA_TYPE_SIGNED_KEY_REQUEST then Inl (Signers InvalidMetadataType)
      else if ka_metadata body = [] then Inl (Signers MissingMetadata)
      else validate_key_add_scopes (ka_scopes body))"

definition validate_key_remove_body :: "key_remove_body \<Rightarrow> unit checked" where
  "validate_key_remove_body body =
     (if length (kr_key body) \<noteq> ED25519_PUBLIC_KEY_LEN then Inl (Signers InvalidKeyLength)
      else and_then (try_key_remove_signature_type (kr_signature_type body)) (\<lambda>_.
        if kr_deadline body = 0 then Inl (Signers MissingDeadline) else Inr ()))"

text \<open>Custody signatures over the typed data of a key message.\<close>

definition recover_from_typed_data :: "validation_env \<Rightarrow> typed_data \<Rightarrow> bytes \<Rightarrow> bytes checked" where
  "recover_from_typed_data env data signature =
     (if length signature \<noteq> 65 then Inl (Envelope InvalidSignature)
      else case ve_signing_hash env data of
        None \<Rightarrow> Inl (Envelope InvalidHash)
      | Some prehash \<Rightarrow> (case recover_address env signature prehash of None \<Rightarrow> Inl (Envelope InvalidSignature) | Some a \<Rightarrow> Inr a))"

definition recover_key_add_custody_address :: "validation_env \<Rightarrow> u64 \<Rightarrow> key_add_body \<Rightarrow> u32 \<Rightarrow> bytes checked" where
  "recover_key_add_custody_address env fid body chain_id =
     (if \<exists>s\<in>set (ka_scopes body). s < 0 then Inl (Envelope InvalidData)
      else let data = KeyAddData fid (ka_key body) (ka_key_type body) (map word_of_int (ka_scopes body)) (ka_ttl body) (ka_nonce body)
                        (ka_deadline body) chain_id in
        if \<not> ve_typed_data_ok env data then Inl (Envelope InvalidData)
        else recover_from_typed_data env data (ka_custody_signature body))"

definition recover_key_remove_custody_address :: "validation_env \<Rightarrow> u64 \<Rightarrow> key_remove_body \<Rightarrow> u32 \<Rightarrow> bytes checked" where
  "recover_key_remove_custody_address env fid body chain_id =
     (let data = KeyRemoveData fid (kr_key body) (kr_nonce body) (kr_deadline body) chain_id in
      if \<not> ve_typed_data_ok env data then Inl (Envelope InvalidData)
      else recover_from_typed_data env data (kr_signature body))"

record verified_signed_key_request =
  vk_request_fid :: u64
  vk_request_signer :: bytes
  vk_deadline :: u64

text \<open>The ABI decoder gives the 256-bit numbers; those that do not fit 64 bits are refused.\<close>

definition verify_signed_key_request_metadata ::
  "validation_env \<Rightarrow> u32 \<Rightarrow> bytes \<Rightarrow> bytes \<Rightarrow> u64 \<Rightarrow> u32 \<Rightarrow> verified_signed_key_request checked" where
  "verify_signed_key_request_metadata env metadata_type metadata key current_timestamp chain_id =
     (if metadata_type \<noteq> METADATA_TYPE_SIGNED_KEY_REQUEST then Inl (Signers InvalidMetadataType)
      else if metadata = [] then Inl (Signers InvalidSignedKeyRequest)
      else case ve_abi_signed_key_request env metadata of
        None \<Rightarrow> Inl (Signers InvalidSignedKeyRequest)
      | Some (request_fid, request_signer, signature, deadline) \<Rightarrow>
          if deadline \<ge> 2 ^ 64 then Inl (Signers InvalidSignedKeyRequest)
          else if (word_of_nat deadline :: u64) < current_timestamp then Inl (Signers SignedKeyRequestExpired)
          else if request_fid \<ge> 2 ^ 64 then Inl (Signers InvalidSignedKeyRequest)
          else let data = SignedKeyRequestData (word_of_nat request_fid) key (word_of_nat deadline) chain_id in
            if \<not> ve_typed_data_ok env data then Inl (Signers InvalidSignedKeyRequest)
            else case recover_from_typed_data env data signature of
              Inl _ \<Rightarrow> Inl (Signers InvalidSignedKeyRequest)
            | Inr recovered \<Rightarrow>
                if recovered \<noteq> request_signer then Inl (Signers InvalidSignedKeyRequest)
                else Inr \<lparr>vk_request_fid = word_of_nat request_fid, vk_request_signer = request_signer,
                          vk_deadline = word_of_nat deadline\<rparr>)"

section \<open>Messages\<close>

abbreviation MAX_DATA_BYTES :: nat where "MAX_DATA_BYTES \<equiv> 2048"

abbreviation MAX_DATA_BYTES_FOR_10K_CAST :: nat where "MAX_DATA_BYTES_FOR_10K_CAST \<equiv> 16384"

abbreviation MAX_DATA_BYTES_FOR_LINK_COMPACT :: nat where "MAX_DATA_BYTES_FOR_LINK_COMPACT \<equiv> 65536"

abbreviation MAX_DATA_BYTES_FOR_USERNAME_PROOF :: nat where "MAX_DATA_BYTES_FOR_USERNAME_PROOF \<equiv> 16384"

abbreviation EMBEDS_V1_CUTOFF :: u32 where "EMBEDS_V1_CUTOFF \<equiv> 73612800"

abbreviation ALLOWED_CLOCK_SKEW_SECONDS :: u64 where "ALLOWED_CLOCK_SKEW_SECONDS \<equiv> 10 * 60"

abbreviation HashScheme_Blake3 :: i32 where "HashScheme_Blake3 \<equiv> 1"

definition validate_bytes_as_string :: "bytes \<Rightarrow> nat \<Rightarrow> bool \<Rightarrow> unit checked" where
  "validate_bytes_as_string byte_array max_length required =
     (if required \<and> length byte_array = 0 then Inl (Bodies MissingString)
      else if length byte_array > max_length then Inl (Bodies StringTooLong)
      else Inr ())"

definition validate_frame_action_body :: "frame_action_body \<Rightarrow> unit checked" where
  "validate_frame_action_body body =
     (if fa_button_index body > 5 then Inl (Bodies InvalidButtonIndex)
      else and_then (validate_bytes_as_string (fa_url body) 1024 True) (\<lambda>_.
        and_then (validate_bytes_as_string (fa_input_text body) 256 False) (\<lambda>_.
        and_then (validate_bytes_as_string (fa_state body) 4096 False) (\<lambda>_.
        and_then (validate_bytes_as_string (fa_transaction_id body) 256 False) (\<lambda>_.
        and_then (validate_bytes_as_string (fa_address body) 64 False) (\<lambda>_.
        case fa_cast_id body of Some c \<Rightarrow> validate_cast_id c | None \<Rightarrow> Inr ()))))))"

definition validate_timestamp :: "u32 \<Rightarrow> farcaster_time \<Rightarrow> engine_version \<Rightarrow> unit checked" where
  "validate_timestamp message_timestamp block_timestamp engine_version =
     (if is_enabled engine_version FutureTimestampValidation \<and> block_timestamp \<le> ucast message_timestamp
         \<and> ucast message_timestamp - block_timestamp > ALLOWED_CLOCK_SKEW_SECONDS
      then Inl (Envelope TimestampTooFarInFuture) else Inr ())"

definition validate_lend_storage_body :: "lend_storage_body \<Rightarrow> unit checked" where
  "validate_lend_storage_body body =
     (if ls_unit_type body \<notin> {0, 1, 2} then Inl (Bodies InvalidStorageUnitType)
      else if ls_num_units body > 5000 then Inl (Bodies ExceededMaxStorageUnits)
      else Inr ())"

definition validate_signature :: "validation_env \<Rightarrow> i32 \<Rightarrow> bytes \<Rightarrow> bytes \<Rightarrow> bytes \<Rightarrow> unit checked" where
  "validate_signature env signature_scheme data_bytes signature signer =
     (if signature_scheme \<noteq> SignatureScheme_Ed25519 then Inl (Envelope InvalidSignatureScheme)
      else if length signature = 0 then Inl (Envelope MissingSignature)
      else if \<not> ve_signature_ok env signature then Inl (Envelope InvalidSignature)
      else if \<not> ve_public_key_ok env signer then Inl (Envelope MissingOrInvalidSigner)
      else if \<not> ve_verify_strict env signer data_bytes signature then Inl (Envelope InvalidSignature)
      else Inr ())"

definition validate_message_hash :: "validation_env \<Rightarrow> i32 \<Rightarrow> bytes \<Rightarrow> bytes \<Rightarrow> unit checked" where
  "validate_message_hash env hash_scheme data_bytes hash =
     (if hash_scheme \<noteq> HashScheme_Blake3 then Inl (Envelope InvalidHashScheme)
      else if length data_bytes = 0 then Inl (Envelope MissingData)
      else if bytes_compare (blake3_20 (ve_hash32 env) data_bytes) hash \<noteq> 0 then Inl (Envelope InvalidHash)
      else Inr ())"

text \<open>The bytes the hash is over and the data they stand for.\<close>

definition message_payload :: "validation_env \<Rightarrow> message \<Rightarrow> (bytes \<times> message_data) checked" where
  "message_payload env m = (case m_data_bytes m of
     Some data_bytes \<Rightarrow>
       if length data_bytes = 0 then Inl (Envelope MissingData)
       else (case dec_message_data (ve_codec env) data_bytes of Some d \<Rightarrow> Inr (data_bytes, d) | None \<Rightarrow> Inl (Envelope InvalidData))
   | None \<Rightarrow> (case m_data m of None \<Rightarrow> Inl (Envelope MissingData) | Some d \<Rightarrow> Inr (enc_message_data (ve_codec env) d, d)))"

definition max_data_size :: "message_data \<Rightarrow> bool \<Rightarrow> engine_version \<Rightarrow> nat" where
  "max_data_size d is_pro_user version =
     (if is_enabled version MessageLengthCheckFix then
        if try_message_type (md_type d) = Some LinkCompactState then MAX_DATA_BYTES_FOR_LINK_COMPACT
        else if is_pro_user \<and> try_message_type (md_type d) = Some CastAdd then MAX_DATA_BYTES_FOR_10K_CAST
        else if try_message_type (md_type d) = Some UsernameProof \<and> is_enabled version IncreaseUsernameProofSizeLimit
          then MAX_DATA_BYTES_FOR_USERNAME_PROOF
        else MAX_DATA_BYTES
      else MAX_DATA_BYTES)"

definition validate_username_proof_body :: "validation_env \<Rightarrow> user_name_proof \<Rightarrow> engine_version \<Rightarrow> unit checked" where
  "validate_username_proof_body env proof version =
     (if up_type proof = 2 then
        (if \<not> is_enabled version EnsValidation then Inr ()
         else if \<not> valid_utf8 (up_name proof) then Inl (Envelope InvalidData)
         else validate_ens_name env (up_name proof))
      else if up_type proof = 3 then
        (if \<not> is_enabled version Basenames then Inl (Envelope UnsupportedFeature)
         else if \<not> valid_utf8 (up_name proof) then Inl (Envelope InvalidData)
         else validate_base_name env (up_name proof))
      else Inl (Names InvalidUsernameType))"

definition validate_body ::
  "validation_env \<Rightarrow> message_data \<Rightarrow> farcaster_network \<Rightarrow> bool \<Rightarrow> farcaster_time \<Rightarrow> engine_version \<Rightarrow> unit checked" where
  "validate_body env d network is_pro_user block_timestamp version = (case md_body d of
     Some (UserDataBody b) \<Rightarrow> validate_user_data_add_body env b is_pro_user version
   | Some (UsernameProofBody p) \<Rightarrow> validate_username_proof_body env p version
   | Some (VerificationAddAddressBody b) \<Rightarrow> validate_add_address env b (md_fid d) network
   | Some (LinkCompactStateBody b) \<Rightarrow> validate_link_compact_state_body b
   | Some (CastAddBody b) \<Rightarrow> validate_cast_add_body b (md_timestamp d < EMBEDS_V1_CUTOFF) is_pro_user
   | Some (CastRemoveBody target_hash) \<Rightarrow> validate_cast_remove_body target_hash
   | Some (ReactionBody b) \<Rightarrow> validate_reaction_body b
   | Some (LinkBody b) \<Rightarrow> validate_link_body b
   | Some (VerificationRemoveBody b) \<Rightarrow> validate_remove_address b
   | Some (FrameActionBody b) \<Rightarrow> validate_frame_action_body b
   | Some (LendStorageBody b) \<Rightarrow>
       if md_timestamp d < ucast (decr_by block_timestamp (60 * 10)) then Inl (Envelope TimestampTooFarInThePast)
       else validate_lend_storage_body b
   | Some (KeyAddBody b) \<Rightarrow> validate_key_add_body b
   | Some (KeyRemoveBody b) \<Rightarrow> validate_key_remove_body b
   | None \<Rightarrow> Inr ())"

definition validate_message ::
  "validation_env \<Rightarrow> message \<Rightarrow> farcaster_network \<Rightarrow> bool \<Rightarrow> farcaster_time \<Rightarrow> engine_version \<Rightarrow> unit checked" where
  "validate_message env m current_network is_pro_user block_timestamp version =
     and_then (message_payload env m) (\<lambda>(data_bytes, d).
       let limit = max_data_size d is_pro_user version in
       if length data_bytes > limit then Inl (Envelope (DataBytesTooLong limit))
       else case try_network (md_network d) of
         None \<Rightarrow> Inl (Envelope InvalidNetwork)
       | Some network \<Rightarrow>
           if network = Network_None then Inl (Envelope InvalidNetwork)
           else if current_network = Mainnet \<and> network \<noteq> Mainnet then Inl (Envelope InvalidNetwork)
           else and_then (validate_message_hash env (m_hash_scheme m) data_bytes (m_hash m)) (\<lambda>_.
             and_then (validate_signature env (m_signature_scheme m) (m_hash m) (m_signature m) (m_signer m)) (\<lambda>_.
             and_then (validate_timestamp (md_timestamp d) block_timestamp version) (\<lambda>_.
             validate_body env d network is_pro_user block_timestamp version))))"

end
