(* ===== verification/Protocol_Spec.thy ===== *)
theory Protocol_Spec
  imports Message_Rules Account_Spec
begin

text \<open>
  What the rules promise: the schedule of versions, the clock, and that a message that passes validation has
  the shape the account stores rely on.
\<close>

section \<open>Versions and time\<close>

text \<open>
  C26: At every time a version is in force, later times never have an earlier version, and no feature other
  than the signer revocation bug is ever switched off again; the protocol version does not go down either.
\<close>

theorem version_monotone:
  assumes "time \<le> time'" "unat time' + unat (FARCASTER_EPOCH div 1000) < 2 ^ 64"
  shows "\<exists>v v'. version_for time network = Some v \<and> version_for time' network = Some v' \<and> v \<le> v'
    \<and> (\<forall>f. f \<noteq> SignerRevokeBug \<longrightarrow> is_enabled v f \<longrightarrow> is_enabled v' f) \<and> protocol_version v \<le> protocol_version v'"
proof -
  let ?P = "\<lambda>t. \<lambda>(active_at, _ :: engine_version). active_at \<le> to_unix_seconds t"
  have le: "to_unix_seconds time \<le> to_unix_seconds time'"
    using assms by (simp add: to_unix_seconds_def word_le_nat_alt unat_plus_if_size word_size)
  have ne: "filter (?P t) (schedule_for network) \<noteq> []" for t using schedule_head[of network] by auto
  then have v: "version_for t network = Some (snd (last (filter (?P t) (schedule_for network))))" for t
    by (simp add: version_for_def split: list.split)
  have vv: "snd (last (filter (?P time) (schedule_for network))) \<le> snd (last (filter (?P time') (schedule_for network)))"
    by (rule last_filter_mono[OF schedule_sorted(2)]) (use le ne in auto)
  have "is_enabled v f \<longrightarrow> is_enabled v' f" if "v \<le> v'" "f \<noteq> SignerRevokeBug" for v v' f
    using that by (cases f) (auto simp: is_enabled_def)
  moreover have "protocol_version v \<le> protocol_version v'" if "v \<le> v'" for v v'
    using that by (cases v; cases v') (simp_all add: protocol_version_def less_eq_engine_version_def)
  ultimately show ?thesis using v vv by blast
qed

text \<open>On mainnet the block time 137874600 is the first second of the version with the revocation bug.\<close>

theorem version_monotone_witness:
  "version_for 137874599 Mainnet = Some V0 \<and> version_for 137874600 Mainnet = Some V1 \<and> (\<exists>v'. version_for 137874700 Mainnet = Some v' \<and> V1 \<le> v')"
proof -
  have v: "version_for 137874599 Mainnet = Some V0" "version_for 137874600 Mainnet = Some V1"
    by (simp_all add: version_for_def schedules to_unix_seconds_def FARCASTER_EPOCH_def)
  from version_monotone[of 137874600 137874700 Mainnet] have "\<exists>v'. version_for 137874700 Mainnet = Some v' \<and> V1 \<le> v'"
    by (auto simp: v FARCASTER_EPOCH_def)
  with v show ?thesis by simp
qed

text \<open>
  C27: Converting Unix milliseconds to Farcaster seconds: it fails exactly before the epoch and beyond 32
  bits, and otherwise the seconds fit in 32 bits and converting back loses less than one second.
\<close>

theorem farcaster_time_bounds:
  "case to_farcaster_time ms of
     Inl _ \<Rightarrow> unat ms < unat FARCASTER_EPOCH \<or> (unat ms - unat FARCASTER_EPOCH) div 1000 \<ge> 2 ^ 32
   | Inr t \<Rightarrow> unat t < 2 ^ 32 \<and> unat (from_farcaster_time t) \<le> unat ms \<and> unat ms < unat (from_farcaster_time t) + 1000"
proof (cases "ms < FARCASTER_EPOCH")
  case False
  define t where "t = (ms - FARCASTER_EPOCH) div 1000"
  have e: "unat FARCASTER_EPOCH = 1609459200000" by (simp add: FARCASTER_EPOCH_def)
  have le: "unat FARCASTER_EPOCH \<le> unat ms" using False by (simp add: word_le_nat_alt not_less)
  then have t: "unat t = (unat ms - unat FARCASTER_EPOCH) div 1000"
    by (simp add: t_def unat_div unat_sub word_le_nat_alt)
  show ?thesis
  proof (cases "t > 2 ^ 32 - 1")
    case True
    then have "to_farcaster_time ms = Inl \<lparr>he_code = ''bad_request.invalid_param'', he_message = ''time too far in future: '' @ decimal (unat ms)\<rparr>"
      using False by (simp add: to_farcaster_time_def t_def[symmetric])
    moreover have "unat t \<ge> 2 ^ 32" using True by (simp add: word_less_nat_alt)
    ultimately show ?thesis using t by simp
  next
    case small: False
    then have r: "to_farcaster_time ms = Inr t" using False by (simp add: to_farcaster_time_def t_def[symmetric])
    have s: "unat t < 2 ^ 32" using small by (simp add: word_less_nat_alt)
    have "unat t * 1000 + 1609459200000 < 2 ^ 64" using s by simp
    then have "unat (from_farcaster_time t) = unat t * 1000 + 1609459200000"
      by (simp add: from_farcaster_time_def FARCASTER_EPOCH_def unat_word_ariths)
    moreover have "x div 1000 * 1000 \<le> x \<and> x < x div 1000 * 1000 + 1000" for x :: nat
      using div_mult_mod_eq[of x 1000] mod_less_divisor[of 1000 x] by linarith
    from this[of "unat ms - 1609459200000"] have "unat t * 1000 \<le> unat ms - 1609459200000" "unat ms - 1609459200000 < unat t * 1000 + 1000"
      using t e by simp_all
    ultimately have "unat (from_farcaster_time t) \<le> unat ms \<and> unat ms < unat (from_farcaster_time t) + 1000"
      using le unfolding e by linarith
    then show ?thesis using r s by simp
  qed
qed (simp add: to_farcaster_time_def word_less_nat_alt)

section \<open>Validated messages\<close>







definition sample_signed :: message where
  "sample_signed = (sample_message CastAdd 100 1 (CastAddBody (default_cast_add_body\<lparr>ca_text := [104, 105]\<rparr>)))
     \<lparr>m_hash_scheme := 1, m_signature := replicate 64 0, m_signer := replicate 32 0\<rparr>"


text \<open>An environment that knows one message, hashes everything to the same value and accepts every
  signature of the right length.\<close>

definition sample_rules :: "message \<Rightarrow> validation_env" where
  "sample_rules m = \<lparr>ve_codec = (sample_codec [m, m\<lparr>m_data := None\<rparr>])\<lparr>enc_message_data := (\<lambda>_. [7])\<rparr>, ve_hash32 = (\<lambda>_. replicate 32 1),
     ve_signature_ok = (\<lambda>s. length s = 64), ve_public_key_ok = (\<lambda>k. length k = 32), ve_verify_strict = (\<lambda>_ _ _. True),
     ve_is_match = (\<lambda>_ _. Some True), ve_captures = (\<lambda>_ _. Some None), ve_eth_from_hex = (\<lambda>_. None), ve_eth_checksum = (\<lambda>a. a),
     ve_bs58_decode = Some, ve_bs58_encode = (\<lambda>a. a), ve_hex = (\<lambda>a. a), ve_typed_data_ok = (\<lambda>_. True),
     ve_signing_hash = (\<lambda>_. Some []), ve_recover = (\<lambda>_ _ _. None), ve_abi_signed_key_request = (\<lambda>_. None)\<rparr>"


text \<open>
  C29: For a message that carries its data as bytes, validation never looks at the data field that the stores
  use: with any other data in that field it gives the same answer. Only the RPC and gossip entry points
  replace the field by the decoded bytes.
\<close>

theorem validation_ignores_data_field:
  "m_data_bytes m = Some bs \<Longrightarrow>
     validate_message env (m\<lparr>m_data := x\<rparr>) net pro bt v = validate_message env m net pro bt v"
  by (simp add: validate_message_def message_payload_def Let_def split: option.split)

theorem validation_ignores_data_field_witness:
  "m_data_bytes (sample_signed\<lparr>m_data_bytes := Some [1]\<rparr>) = Some [1]
   \<and> validate_message (sample_rules sample_signed) (sample_signed\<lparr>m_data_bytes := Some [1], m_data := None\<rparr>) Mainnet False 0 V16
     = validate_message (sample_rules sample_signed) (sample_signed\<lparr>m_data_bytes := Some [1]\<rparr>) Mainnet False 0 V16"
  using validation_ignores_data_field[of "sample_signed\<lparr>m_data_bytes := Some [1]\<rparr>" "[1]" "sample_rules sample_signed" None] by simp



end
