(* ===== verification/Block_Data.thy ===== *)
theory Block_Data
  imports Message_Rules
begin

text \<open>
  The protobuf messages of \<open>blocks.proto\<close> that a shard handles: events of shard 0, transactions and chunks,
  and the record kept for a gasless key. Their binary codec (prost) is a parameter.
\<close>

datatype block_event_body = HeartbeatEventBody | MergeMessageEventBody (be_message: "message option")

record block_event_data =
  be_seqnum :: u64
  be_type :: i32
  be_block_number :: u64
  be_event_index :: u64
  be_block_timestamp :: u64
  be_body :: "block_event_body option"

record block_event =
  be_hash :: bytes
  be_data :: "block_event_data option"

record validator_message =
  vm_on_chain_event :: "onchain_event option"
  vm_fname_transfer :: "fname_transfer option"
  vm_block_event :: "block_event option"

record transaction =
  tx_fid :: u64
  tx_user_messages :: "message list"
  tx_system_messages :: "validator_message list"
  tx_account_root :: bytes

record height =
  h_shard_index :: u32
  h_block_number :: u64

record shard_header =
  sh_height :: "height option"
  sh_timestamp :: u64
  sh_parent_hash :: bytes
  sh_shard_root :: bytes

record shard_hash =
  hs_shard_index :: u32
  hs_hash :: bytes

record commit_signature =
  cs_signer :: bytes
  cs_signature :: bytes

record commits =
  co_height :: "height option"
  co_round :: int
  co_value :: "shard_hash option"
  co_signatures :: "commit_signature list"

record shard_chunk =
  sc_header :: "shard_header option"
  sc_hash :: bytes
  sc_transactions :: "transaction list"
  sc_commits :: "commits option"

record gasless_key_record =
  gk_message :: "message option"
  gk_request_fid :: u64

record block_codec =
  enc_block_event :: "block_event \<Rightarrow> bytes"
  dec_block_event :: "bytes \<Rightarrow> string + block_event"
  enc_shard_chunk :: "shard_chunk \<Rightarrow> bytes"
  dec_shard_chunk :: "bytes \<Rightarrow> string + shard_chunk"
  enc_gasless_key :: "gasless_key_record \<Rightarrow> bytes"
  dec_gasless_key :: "bytes \<Rightarrow> string + gasless_key_record"

text \<open>What prost documents: decoding an encoding gives the value back.\<close>

definition block_codec_ok :: "block_codec \<Rightarrow> bool" where
  "block_codec_ok bc \<longleftrightarrow> (\<forall>e. dec_block_event bc (enc_block_event bc e) = Inr e)
     \<and> (\<forall>c. dec_shard_chunk bc (enc_shard_chunk bc c) = Inr c)
     \<and> (\<forall>g. dec_gasless_key bc (enc_gasless_key bc g) = Inr g)"

text \<open>\<open>Message::fid\<close> and \<open>Message::msg_type\<close>.\<close>

definition message_fid :: "message \<Rightarrow> u64" where
  "message_fid m = (case m_data m of Some d \<Rightarrow> md_fid d | None \<Rightarrow> 0)"

definition msg_type :: "message \<Rightarrow> message_type" where
  "msg_type m = (case m_data m of
     Some d \<Rightarrow> (case try_message_type (md_type d) of Some t \<Rightarrow> t | None \<Rightarrow> MessageType_None)
   | None \<Rightarrow> MessageType_None)"

section \<open>Errors of the engines\<close>

datatype message_validation_error =
    NoMessageData | MissingFid | MissingSigner | GaslessKeyOutOfScope i32 | MessageInvalid validation_error
  | InvalidMessageType i32 | StoreError hub_error | MissingFname | InvalidEthereumAddress | InvalidSolanaAddress
  | AddressNotPartOfVerification | InvalidSeqnumForBlockEvent | BlockEventMissingBody

type_synonym 'a mv = "message_validation_error fault + 'a"

definition of_checked :: "'a checked \<Rightarrow> 'a mv" where
  "of_checked r = map_err (\<lambda>e. Fails (MessageInvalid e)) r"

lemma of_checked_eq_Inr [simp]: "of_checked r = Inr x \<longleftrightarrow> r = Inr x"
  by (cases r) (simp_all add: of_checked_def)

end
