(* ===== verification/Paging.thy ===== *)
theory Paging
  imports Fallible
begin

text \<open>
  Reading rows page by page: the closure that decodes rows until a page is full, the page it returns, and the
  loop that follows the page tokens. With as much fuel as there are rows the loop returns all of them.
\<close>

definition collect_step :: "(bytes \<Rightarrow> hub_error + 'a) \<Rightarrow> nat \<Rightarrow> 'a list \<times> bytes \<Rightarrow> bytes \<Rightarrow> bytes \<Rightarrow> ('a list \<times> bytes) \<times> (hub_error + bool)" where
  "collect_step dec limit acc key value = (case dec value of
     Inl e \<Rightarrow> (acc, Inl e)
   | Inr x \<Rightarrow>
       (let xs = fst acc @ [x]
        in if length xs \<ge> limit then ((xs, key), Inr True) else ((xs, snd acc), Inr False)))"

definition collect_page ::
  "(bytes \<Rightarrow> hub_error + 'a) \<Rightarrow> nat \<Rightarrow> 'e engine_ops \<Rightarrow> 'e rocksdb \<Rightarrow> bytes \<Rightarrow> bytes \<Rightarrow> page_options \<Rightarrow> hub_error + ('a list \<times> bytes option)" where
  "collect_page dec limit ops db start_prefix stop_prefix po =
     (case for_each_iterator_by_prefix_paged ops db (Some start_prefix) (Some stop_prefix) po (collect_step dec limit) ([], []) of
        (_, Inl e) \<Rightarrow> Inl e
      | ((xs, last_key), Inr _) \<Rightarrow> Inr (xs, if length last_key > 0 then Some last_key else None))"

primrec pages_loop :: "nat \<Rightarrow> (bytes option \<Rightarrow> 'e + ('a list \<times> bytes option)) \<Rightarrow> bytes option \<Rightarrow> 'a list \<Rightarrow> ('e + 'a list) option" where
  "pages_loop 0 page next_page_token acc = None"
| "pages_loop (Suc fuel) page next_page_token acc = (case page next_page_token of
     Inl e \<Rightarrow> Some (Inl e)
   | Inr (xs, token) \<Rightarrow>
       (case token of None \<Rightarrow> Some (Inr (acc @ xs)) | Some t \<Rightarrow> pages_loop fuel page (Some t) (acc @ xs)))"

section \<open>One page\<close>

lemma collect_run:
  assumes "\<forall>r\<in>set items. dec (snd r) = Inr (f (snd r))" "length acc = c" "c < n"
  shows "iterate_items (collect_step dec n) (Some n) c (acc, lk) items =
    (if n - c \<le> length items
     then ((acc @ map (\<lambda>r. f (snd r)) (take (n - c) items), fst (items ! (n - c - 1))), Inr False)
     else ((acc @ map (\<lambda>r. f (snd r)) items, lk), Inr True))"
  using assms
proof (induction items arbitrary: acc c)
  case (Cons r items)
  obtain k v where r: "r = (k, v)" by (cases r)
  have dec: "dec v = Inr (f v)" using Cons.prems(1) r by simp
  show ?case
  proof (cases "Suc c = n")
    case True
    then have "n - c = 1" by simp
    then show ?thesis using True Cons.prems(2) r dec by (simp add: collect_step_def)
  next
    case False
    with Cons.prems(3) have lt: "Suc c < n" by simp
    have "iterate_items (collect_step dec n) (Some n) c (acc, lk) (r # items)
        = iterate_items (collect_step dec n) (Some n) (Suc c) (acc @ [f v], lk) items"
      using lt Cons.prems(2) r dec by (simp add: collect_step_def)
    also have "\<dots> = (if n - Suc c \<le> length items
        then (((acc @ [f v]) @ map (\<lambda>r. f (snd r)) (take (n - Suc c) items), fst (items ! (n - Suc c - 1))), Inr False)
        else (((acc @ [f v]) @ map (\<lambda>r. f (snd r)) items, lk), Inr True))"
      using Cons.IH[of "acc @ [f v]" "Suc c"] Cons.prems lt by simp
    also have "\<dots> = (if n - c \<le> length (r # items)
        then ((acc @ map (\<lambda>r. f (snd r)) (take (n - c) (r # items)), fst ((r # items) ! (n - c - 1))), Inr False)
        else ((acc @ map (\<lambda>r. f (snd r)) (r # items), lk), Inr True))"
      using lt r by (auto simp: take_Cons' nth_Cons' Suc_diff_Suc)
    finally show ?thesis .
  qed
qed simp

section \<open>All pages\<close>

lemma range_resume:
  assumes "engine_laws ops rows einv" "einv e" "i < length (raw_range ops e lo hi)"
  shows "raw_range ops e (fst (raw_range ops e lo hi ! i) @ [0]) hi = drop (Suc i) (raw_range ops e lo hi)"
proof -
  let ?xs = "raw_range ops e lo hi"
  obtain k v where kv: "?xs ! i = (k, v)" by (cases "?xs ! i")
  have ok: "hm_ok ?xs" "hm_ok (raw_range ops e (k @ [0]) hi)" by (rule engine_range_ok[OF assms(1,2)])+
  have split: "?xs = take i ?xs @ (k, v) # drop (Suc i) ?xs" using id_take_nth_drop[OF assms(3)] kv by simp
  have ok': "hm_ok (take i ?xs @ (k, v) # drop (Suc i) ?xs)" using ok(1) split by simp
  then have s: "\<forall>x\<in>fst ` set (take i ?xs). x < k" "\<forall>x\<in>fst ` set (drop (Suc i) ?xs). k < x" "hm_ok (drop (Suc i) ?xs)"
    by (auto simp: hm_ok_def sorted_wrt_append)
  have in_xs: "set ?xs = {(k, v). rows e k = Some v \<and> lo \<le> k \<and> k < hi}" by (rule engine_range[OF assms(1,2)])
  have "(k, v) \<in> set ?xs" using split by (metis in_set_conv_decomp)
  then have lo: "lo \<le> k" using in_xs by simp
  have "x \<in> set (drop (Suc i) ?xs) \<longleftrightarrow> x \<in> set ?xs \<and> k < fst x" for x
  proof -
    have "set ?xs = set (take i ?xs) \<union> {(k, v)} \<union> set (drop (Suc i) ?xs)" using arg_cong[OF split, of set] by simp
    with s(1,2) show ?thesis by fastforce
  qed
  then have "set (drop (Suc i) ?xs) = {(k', v'). rows e k' = Some v' \<and> k < k' \<and> k' < hi}"
    using in_xs lo by (auto intro: order.strict_implies_order le_less_trans)
  also have "\<dots> = set (raw_range ops e (k @ [0]) hi)"
    unfolding engine_range[OF assms(1,2)] by (simp add: snoc_0_le_iff)
  finally have "map_of (drop (Suc i) ?xs) = map_of (raw_range ops e (k @ [0]) hi)"
    using map_of_inject_set[OF hm_ok_distinct[OF s(3)] hm_ok_distinct[OF ok(2)]] by simp
  from hm_eqI[OF s(3) ok(2) this] kv show ?thesis by simp
qed

text \<open>The rows that are left after a token, and a page of them.\<close>

abbreviation rest_rows :: "'e engine_ops \<Rightarrow> 'e \<Rightarrow> bytes \<Rightarrow> bytes \<Rightarrow> bytes option \<Rightarrow> (bytes \<times> bytes) list" where
  "rest_rows ops e lo hi token \<equiv> raw_range ops e (case token of Some t \<Rightarrow> t @ [0] | None \<Rightarrow> lo) hi"

lemma collect_page_rows:
  assumes "\<forall>r\<in>set (rest_rows ops e lo hi token). dec (snd r) = Inr (f (snd r)) \<and> fst r \<noteq> []" "0 < n"
  shows "collect_page dec n ops (Some (TransactionDb e)) lo hi \<lparr>page_size = Some n, page_token = token, page_reverse = False\<rparr> =
    Inr (map (\<lambda>r. f (snd r)) (take n (rest_rows ops e lo hi token)),
         if n \<le> length (rest_rows ops e lo hi token) then Some (fst (rest_rows ops e lo hi token ! (n - 1))) else None)"
proof -
  let ?items = "rest_rows ops e lo hi token"
  have "fst (?items ! (n - 1)) \<noteq> []" if "n \<le> length ?items"
  proof -
    have "?items ! (n - 1) \<in> set ?items" by (rule nth_mem) (use that assms(2) in simp)
    with assms(1) show ?thesis by blast
  qed
  moreover have "for_each_iterator_by_prefix_paged ops (Some (TransactionDb e)) (Some lo) (Some hi)
      \<lparr>page_size = Some n, page_token = token, page_reverse = False\<rparr> (collect_step dec n) ([], [])
    = iterate_items (collect_step dec n) (Some n) 0 ([], []) ?items"
    by (simp add: for_each_iterator_by_prefix_paged_def iterate_with_opts_def get_iterator_options_def Let_def split: option.split)
  ultimately show ?thesis
    using collect_run[of ?items dec f "[]" 0 n "[]"] assms by (auto simp: collect_page_def)
qed

lemma pages_complete:
  assumes "engine_laws ops rows einv" "einv e" "0 < n"
    and "\<forall>r\<in>set (rest_rows ops e lo hi token). dec (snd r) = Inr (f (snd r)) \<and> fst r \<noteq> []"
    and "length (rest_rows ops e lo hi token) < fuel"
  shows "pages_loop fuel (\<lambda>t. collect_page dec n ops (Some (TransactionDb e)) lo hi \<lparr>page_size = Some n, page_token = t, page_reverse = False\<rparr>) token acc
    = Some (Inr (acc @ map (\<lambda>r. f (snd r)) (rest_rows ops e lo hi token)))"
  using assms(4,5)
proof (induction fuel arbitrary: token acc)
  case (Suc fuel)
  let ?items = "rest_rows ops e lo hi token"
  note page = collect_page_rows[OF Suc.prems(1) assms(3)]
  show ?case
  proof (cases "n \<le> length ?items")
    case False
    then show ?thesis by (simp add: page)
  next
    case True
    let ?t = "Some (fst (?items ! (n - 1)))"
    have "rest_rows ops e lo hi ?t = drop n ?items"
      using range_resume[OF assms(1,2), of "n - 1" _ hi] True assms(3) by simp
    moreover from this have "length (rest_rows ops e lo hi ?t) < fuel" using Suc.prems(2) True assms(3) by simp
    moreover have "\<forall>r\<in>set (rest_rows ops e lo hi ?t). dec (snd r) = Inr (f (snd r)) \<and> fst r \<noteq> []"
      using calculation(1) Suc.prems(1) by (auto dest: in_set_dropD)
    ultimately show ?thesis
      using Suc.IH[of ?t "acc @ map (\<lambda>r. f (snd r)) (take n ?items)"] True
      by (simp add: page map_append[symmetric] del: map_append)
  qed
qed simp

end
