(* ===== verification/Onchain_Store.thy ===== *)
theory Onchain_Store
  imports Protocol_Version Results Account_Store Paging
begin

text \<open>
  The on-chain events of an account (\<open>storage/store/account/onchain_event_store.rs\<close>): registrations,
  signers, storage rents and tier purchases, with the indices by account and by signer and what is derived from
  them. The wall clock that \<open>is_active\<close> reads is an argument \<open>now\<close>.
\<close>

section \<open>Errors and enums\<close>

datatype onchain_error =
    OnchainRocksdbError rocksdb_error | OnchainHubError hub_error | InvalidStorageRentEventType
  | OnchainDecodeError string | UnexpectedEventType | DuplicateOnchainEvent | OnchainPanic

type_synonym 'a oc = "onchain_error + 'a"

fun onchain_failure :: "failure \<Rightarrow> onchain_error" where
  "onchain_failure (HubFailure e) = OnchainHubError e"
| "onchain_failure Panic = OnchainPanic"

datatype onchain_event_type =
    EventTypeNone | EventTypeSigner | EventTypeSignerMigrated | EventTypeIdRegister | EventTypeStorageRent | EventTypeTierPurchase

definition onchain_event_type_num :: "onchain_event_type \<Rightarrow> nat" where
  "onchain_event_type_num t = (case t of EventTypeNone \<Rightarrow> 0 | EventTypeSigner \<Rightarrow> 1 | EventTypeSignerMigrated \<Rightarrow> 2 | EventTypeIdRegister \<Rightarrow> 3
     | EventTypeStorageRent \<Rightarrow> 4 | EventTypeTierPurchase \<Rightarrow> 5)"

text \<open>\<open>OnChainEvent::type()\<close>: an unknown number reads as the default.\<close>

definition event_type_of :: "onchain_event \<Rightarrow> onchain_event_type" where
  "event_type_of e = (case find (\<lambda>t. int (onchain_event_type_num t) = oe_type e)
       [EventTypeSigner, EventTypeSignerMigrated, EventTypeIdRegister, EventTypeStorageRent, EventTypeTierPurchase] of
     Some t \<Rightarrow> t | None \<Rightarrow> EventTypeNone)"

abbreviation SignerEventType_Add :: i32 where "SignerEventType_Add \<equiv> 1"

abbreviation SignerEventType_Remove :: i32 where "SignerEventType_Remove \<equiv> 2"

abbreviation SignerEventType_AdminReset :: i32 where "SignerEventType_AdminReset \<equiv> 3"

abbreviation IdRegisterEventType_Register :: i32 where "IdRegisterEventType_Register \<equiv> 1"

abbreviation IdRegisterEventType_ChangeRecovery :: i32 where "IdRegisterEventType_ChangeRecovery \<equiv> 3"

section \<open>Keys\<close>

definition make_onchain_event_type_prefix :: "onchain_event_type \<Rightarrow> bytes" where
  "make_onchain_event_type_prefix t = [rp_u8 Rp_OnChainEvent, 1, word_of_nat (onchain_event_type_num t)]"

definition make_onchain_event_primary_key :: "onchain_event \<Rightarrow> bytes" where
  "make_onchain_event_primary_key e =
     make_onchain_event_type_prefix (event_type_of e) @ make_fid_key (oe_fid e) @ u32_to_be (oe_block_number e) @ u32_to_be (oe_log_index e)"

definition make_id_register_by_fid_key :: "u64 \<Rightarrow> bytes" where
  "make_id_register_by_fid_key fid = [rp_u8 Rp_OnChainEvent, 52] @ make_fid_key fid"

definition make_signer_onchain_event_by_signer_key :: "u64 \<Rightarrow> bytes \<Rightarrow> bytes" where
  "make_signer_onchain_event_by_signer_key fid key = [rp_u8 Rp_OnChainEvent, 51] @ make_fid_key fid @ key"

definition type_fid_prefix :: "onchain_event_type \<Rightarrow> u64 option \<Rightarrow> bytes" where
  "type_fid_prefix t fid = make_onchain_event_type_prefix t @ (case fid of Some f \<Rightarrow> make_fid_key f | None \<Rightarrow> [])"

section \<open>Reading\<close>

record 'e onchain_store =
  os_ops :: "'e engine_ops"
  os_db :: "'e rocksdb"
  os_opts :: store_options
  os_codec :: proto_codec

definition os_read :: "'e onchain_store \<Rightarrow> db_read" where
  "os_read os = db_get (os_ops os) (os_db os)"

definition get_event_by_secondary_key :: "'e onchain_store \<Rightarrow> bytes \<Rightarrow> txn_batch option \<Rightarrow> onchain_event option oc" where
  "get_event_by_secondary_key os secondary_key txn_batch =
     (let txn = (case txn_batch of Some t \<Rightarrow> t | None \<Rightarrow> txn_new) in
      and_then (map_err OnchainHubError (get_from_db_or_txn (os_read os) txn secondary_key)) (\<lambda>pk. case pk of
        None \<Rightarrow> Inr None
      | Some event_primary_key \<Rightarrow>
          and_then (map_err OnchainHubError (get_from_db_or_txn (os_read os) txn event_primary_key)) (\<lambda>ev. case ev of
            None \<Rightarrow> Inr None
          | Some bs \<Rightarrow> and_then (map_err OnchainDecodeError (dec_onchain_event (os_codec os) bs)) (\<lambda>e. Inr (Some e)))))"

record onchain_events_page =
  op_onchain_events :: "onchain_event list"
  op_next_page_token :: "bytes option"

text \<open>The closure of the two page readers; \<open>flt\<close> is constantly true in the unfiltered one.\<close>

definition onchain_page_step ::
  "proto_codec \<Rightarrow> page_options \<Rightarrow> (onchain_event \<Rightarrow> bool) \<Rightarrow> onchain_event list \<times> bytes \<Rightarrow> bytes \<Rightarrow> bytes
     \<Rightarrow> (onchain_event list \<times> bytes) \<times> (hub_error + bool)" where
  "onchain_page_step pc po flt acc key value = (case dec_onchain_event pc value of
     Inl e \<Rightarrow> (acc, Inl (hub_error_from_decode e))
   | Inr e \<Rightarrow>
       if flt e then
         let events = fst acc @ [e] in
         if length events \<ge> (case page_size po of Some n \<Rightarrow> n | None \<Rightarrow> 1000) then ((events, key), Inr True)
         else ((events, snd acc), Inr False)
       else (acc, Inr False))"

definition onchain_page :: "(onchain_event list \<times> bytes) \<times> (hub_error + bool) \<Rightarrow> onchain_events_page oc" where
  "onchain_page r = (case r of
     (_, Inl e) \<Rightarrow> Inl (OnchainHubError e)
   | ((events, last_key), Inr _) \<Rightarrow>
       Inr \<lparr>op_onchain_events = events, op_next_page_token = (if length last_key > 0 then Some last_key else None)\<rparr>)"

definition get_onchain_events :: "'e onchain_store \<Rightarrow> page_options \<Rightarrow> bytes \<Rightarrow> bytes \<Rightarrow> onchain_events_page oc" where
  "get_onchain_events os po start_prefix stop_prefix =
     onchain_page (for_each_iterator_by_prefix_paged (os_ops os) (os_db os) (Some start_prefix) (Some stop_prefix) po
       (onchain_page_step (os_codec os) po (\<lambda>_. True)) ([], []))"

definition get_onchain_events_with_filter ::
  "'e onchain_store \<Rightarrow> page_options \<Rightarrow> onchain_event_type \<Rightarrow> u64 option \<Rightarrow> (onchain_event \<Rightarrow> bool) \<Rightarrow> onchain_events_page oc" where
  "get_onchain_events_with_filter os po t fid flt =
     onchain_page (for_each_iterator_by_prefix (os_ops os) (os_db os) (Some (type_fid_prefix t fid))
       (Some (increment_vec_u8 (type_fid_prefix t fid))) po (onchain_page_step (os_codec os) po flt) ([], []))"

text \<open>The loop over all pages of 1000 events; it makes at most one step more than there are rows.\<close>

primrec onchain_events_loop ::
  "nat \<Rightarrow> 'e onchain_store \<Rightarrow> bytes \<Rightarrow> bytes \<Rightarrow> bytes option \<Rightarrow> onchain_event list \<Rightarrow> onchain_event list oc option" where
  "onchain_events_loop 0 os start_prefix stop_prefix next_page_token acc = None"
| "onchain_events_loop (Suc fuel) os start_prefix stop_prefix next_page_token acc =
     (case get_onchain_events os \<lparr>page_size = Some 1000, page_token = next_page_token, page_reverse = False\<rparr> start_prefix stop_prefix of
        Inl e \<Rightarrow> Some (Inl e)
      | Inr page \<Rightarrow>
          let acc' = acc @ op_onchain_events page in
          (case op_next_page_token page of
             None \<Rightarrow> Some (Inr acc')
           | Some t \<Rightarrow> onchain_events_loop fuel os start_prefix stop_prefix (Some t) acc'))"

definition get_onchain_events_by_type ::
  "nat \<Rightarrow> 'e onchain_store \<Rightarrow> onchain_event_type \<Rightarrow> u64 option \<Rightarrow> onchain_event list oc option" where
  "get_onchain_events_by_type fuel os t fid =
     onchain_events_loop fuel os (type_fid_prefix t fid) (increment_vec_u8 (type_fid_prefix t fid)) None []"

definition get_id_register_event_by_fid :: "'e onchain_store \<Rightarrow> u64 \<Rightarrow> txn_batch option \<Rightarrow> onchain_event option oc" where
  "get_id_register_event_by_fid os fid txn_batch = get_event_by_secondary_key os (make_id_register_by_fid_key fid) txn_batch"

abbreviation SUPPORTED_SIGNER_KEY_TYPE :: u32 where "SUPPORTED_SIGNER_KEY_TYPE \<equiv> 1"

definition get_active_signer :: "'e onchain_store \<Rightarrow> u64 \<Rightarrow> bytes \<Rightarrow> txn_batch option \<Rightarrow> onchain_event option oc" where
  "get_active_signer os fid signer txn_batch =
     and_then (get_event_by_secondary_key os (make_signer_onchain_event_by_signer_key fid signer) txn_batch) (\<lambda>ev.
       case ev of
         Some e \<Rightarrow>
           (case oe_body e of
              Some (SignerEventBody b) \<Rightarrow>
                if se_event_type b = SignerEventType_Add \<and> se_key_type b = SUPPORTED_SIGNER_KEY_TYPE then Inr (Some e) else Inr None
            | _ \<Rightarrow> Inr None)
       | None \<Rightarrow> Inr None)"

definition get_signers :: "'e onchain_store \<Rightarrow> u64 option \<Rightarrow> page_options \<Rightarrow> onchain_events_page oc" where
  "get_signers os fid po = get_onchain_events_with_filter os po EventTypeSigner fid (\<lambda>e. case oe_body e of
     Some (SignerEventBody b) \<Rightarrow>
       (case get_active_signer os (oe_fid e) (se_key b) None of Inr (Some _) \<Rightarrow> True | _ \<Rightarrow> False)
   | _ \<Rightarrow> False)"

definition get_fids :: "'e onchain_store \<Rightarrow> page_options \<Rightarrow> (u64 list \<times> bytes option) oc" where
  "get_fids os po =
     and_then (get_onchain_events os po (make_onchain_event_type_prefix EventTypeIdRegister)
         (increment_vec_u8 (make_onchain_event_type_prefix EventTypeIdRegister))) (\<lambda>page.
       Inr (map oe_fid (filter (\<lambda>e. case oe_body e of
              Some (IdRegisterEventBody b) \<Rightarrow> ir_event_type b = IdRegisterEventType_Register
            | _ \<Rightarrow> False) (op_onchain_events page)), op_next_page_token page))"

section \<open>Merging\<close>

definition build_secondary_indices_for_id_register ::
  "'e onchain_store \<Rightarrow> onchain_event \<Rightarrow> id_register_event_body \<Rightarrow> txn_batch \<Rightarrow> txn_batch oc" where
  "build_secondary_indices_for_id_register os e body txn =
     (if ir_event_type body = IdRegisterEventType_ChangeRecovery then Inr txn
      else let key = make_id_register_by_fid_key (oe_fid e) in
        and_then (get_event_by_secondary_key os key (Some txn)) (\<lambda>existing.
          if (case existing of Some x \<Rightarrow> oe_block_number x > oe_block_number e | None \<Rightarrow> False) then Inr txn
          else Inr (txn_put txn key (make_onchain_event_primary_key e))))"

definition signer_body :: "onchain_event \<Rightarrow> signer_event_body option" where
  "signer_body e = (case oe_body e of Some (SignerEventBody b) \<Rightarrow> Some b | _ \<Rightarrow> None)"

text \<open>The search of an admin reset for the event that added the key, page by page in the committed rows.\<close>

primrec admin_reset_loop ::
  "nat \<Rightarrow> 'e onchain_store \<Rightarrow> bytes \<Rightarrow> bytes \<Rightarrow> bytes \<Rightarrow> bytes \<Rightarrow> bytes option \<Rightarrow> txn_batch \<Rightarrow> txn_batch oc option" where
  "admin_reset_loop 0 os start_prefix stop_prefix key signer_key next_page_token txn = None"
| "admin_reset_loop (Suc fuel) os start_prefix stop_prefix key signer_key next_page_token txn =
     (case get_onchain_events os \<lparr>page_size = None, page_token = next_page_token, page_reverse = False\<rparr> start_prefix stop_prefix of
        Inl e \<Rightarrow> Some (Inl e)
      | Inr page \<Rightarrow>
          (case find (\<lambda>e. case signer_body e of Some b \<Rightarrow> se_event_type b = SignerEventType_Add \<and> se_key b = key | None \<Rightarrow> False)
                  (op_onchain_events page) of
             Some e \<Rightarrow> Some (Inr (txn_put txn signer_key (make_onchain_event_primary_key e)))
           | None \<Rightarrow>
               (case op_next_page_token page of
                  None \<Rightarrow> Some (Inr txn)
                | Some t \<Rightarrow> admin_reset_loop fuel os start_prefix stop_prefix key signer_key (Some t) txn)))"

text \<open>The body of the existing event is read from the new event, as in the source.\<close>

definition build_secondary_indices_for_signer ::
  "nat \<Rightarrow> 'e onchain_store \<Rightarrow> onchain_event \<Rightarrow> signer_event_body \<Rightarrow> txn_batch \<Rightarrow> txn_batch oc option" where
  "build_secondary_indices_for_signer fuel os e body txn =
     (let signer_key = make_signer_onchain_event_by_signer_key (oe_fid e) (se_key body);
          write = (if se_event_type body = SignerEventType_AdminReset then
                     admin_reset_loop fuel os (type_fid_prefix EventTypeSigner (Some (oe_fid e)))
                       (increment_vec_u8 (type_fid_prefix EventTypeSigner (Some (oe_fid e)))) (se_key body) signer_key None txn
                   else Some (Inr (txn_put txn signer_key (make_onchain_event_primary_key e))))
      in case get_event_by_secondary_key os signer_key (Some txn) of
           Inl err \<Rightarrow> Some (Inl err)
         | Inr None \<Rightarrow> write
         | Inr (Some existing) \<Rightarrow>
             if oe_block_number existing > oe_block_number e then Some (Inr txn)
             else (case signer_body e of
                 None \<Rightarrow> Some (Inl UnexpectedEventType)
               | Some existing_body \<Rightarrow>
                   if se_event_type existing_body = SignerEventType_Remove \<and> se_event_type body = SignerEventType_Add
                   then Some (Inr txn) else write))"

definition build_secondary_indices :: "nat \<Rightarrow> 'e onchain_store \<Rightarrow> onchain_event \<Rightarrow> txn_batch \<Rightarrow> txn_batch oc option" where
  "build_secondary_indices fuel os e txn = (case oe_body e of
     Some (IdRegisterEventBody b) \<Rightarrow> Some (build_secondary_indices_for_id_register os e b txn)
   | Some (SignerEventBody b) \<Rightarrow> build_secondary_indices_for_signer fuel os e b txn
   | _ \<Rightarrow> Some (Inr txn))"

text \<open>A failure leaves the row of the event in the batch.\<close>

definition merge_onchain_event_rows :: "nat \<Rightarrow> 'e onchain_store \<Rightarrow> onchain_event \<Rightarrow> txn_batch \<Rightarrow> (unit oc \<times> txn_batch) option" where
  "merge_onchain_event_rows fuel os e txn =
     (let primary_key = make_onchain_event_primary_key e;
          put = (let txn1 = txn_put txn primary_key (enc_onchain_event (os_codec os) e) in
                 map_option (\<lambda>r. case r of Inl err \<Rightarrow> (Inl err, txn1) | Inr txn2 \<Rightarrow> (Inr (), txn2)) (build_secondary_indices fuel os e txn1))
      in if conflict_free (os_opts os) then put
         else case get_from_db_or_txn (os_read os) txn primary_key of
             Inl err \<Rightarrow> Some (Inl (OnchainHubError err), txn)
           | Inr (Some _) \<Rightarrow> Some (Inl DuplicateOnchainEvent, txn)
           | Inr None \<Rightarrow> put)"

definition merge_onchain_event :: "nat \<Rightarrow> 'e onchain_store \<Rightarrow> onchain_event \<Rightarrow> store_state \<Rightarrow> (hub_event oc \<times> store_state) option" where
  "merge_onchain_event fuel os e s =
     map_option (\<lambda>(r, txn). let s1 = s\<lparr>ss_txn := txn\<rparr> in case r of
         Inl err \<Rightarrow> (Inl err, s1)
       | Inr _ \<Rightarrow> (case commit_transaction (os_codec os) False (new_event MergeOnChainEvent (MergeOnChainEventBody (Some e))) s1 of
             (r2, s2) \<Rightarrow> (of_store onchain_failure r2, s2)))
       (merge_onchain_event_rows fuel os e (ss_txn s))"

definition onchain_event_exists :: "'e onchain_store \<Rightarrow> onchain_event \<Rightarrow> bool oc" where
  "onchain_event_exists os e =
     and_then (map_err OnchainRocksdbError (os_read os (make_onchain_event_primary_key e))) (\<lambda>r. Inr (r \<noteq> None))"

section \<open>Tiers\<close>

abbreviation TierType_Pro :: i32 where "TierType_Pro \<equiv> 1"

text \<open>The loop over the purchases, which ends at the first one after \<open>as_of\<close>.\<close>

fun tier_expiry :: "u64 option \<Rightarrow> u64 \<Rightarrow> (u64 \<times> u64) list \<Rightarrow> u64" where
  "tier_expiry as_of expires_at [] = expires_at"
| "tier_expiry as_of expires_at ((block_timestamp, for_days) # rest) =
     (if (case as_of of Some t \<Rightarrow> block_timestamp > t | None \<Rightarrow> False) then expires_at
      else tier_expiry as_of (max block_timestamp expires_at + for_days * 24 * 60 * 60) rest)"

definition tier_purchases :: "i32 \<Rightarrow> onchain_event list \<Rightarrow> (u64 \<times> u64) list" where
  "tier_purchases tier_type events = List.map_filter (\<lambda>e. case oe_body e of
     Some (TierPurchaseEventBody b) \<Rightarrow> if tp_tier_type b = tier_type then Some (oe_block_timestamp e, tp_for_days b) else None
   | _ \<Rightarrow> None) events"

definition tier_subscription_exires_at :: "nat \<Rightarrow> 'e onchain_store \<Rightarrow> i32 \<Rightarrow> u64 \<Rightarrow> farcaster_time option \<Rightarrow> u64 oc option" where
  "tier_subscription_exires_at fuel os tier_type fid as_of =
     map_option (\<lambda>r. and_then r (\<lambda>events.
         Inr (tier_expiry (map_option to_unix_seconds as_of) 0 (tier_purchases tier_type events))))
       (get_onchain_events_by_type fuel os EventTypeTierPurchase (Some fid))"

definition is_tier_subscription_active_at :: "nat \<Rightarrow> 'e onchain_store \<Rightarrow> i32 \<Rightarrow> u64 \<Rightarrow> farcaster_time \<Rightarrow> bool oc option" where
  "is_tier_subscription_active_at fuel os tier_type fid timestamp =
     map_option (\<lambda>r. and_then r (\<lambda>expires_at. Inr (expires_at \<ge> to_unix_seconds timestamp)))
       (tier_subscription_exires_at fuel os tier_type fid (Some timestamp))"

section \<open>Storage\<close>

datatype storage_unit_type = UnitTypeLegacy | UnitType2024 | UnitType2025

record storage_slot =
  units_legacy :: u32
  units_2024 :: u32
  units_2025 :: u32
  invalidate_at :: u32

definition slot_new :: "u32 \<Rightarrow> u32 \<Rightarrow> u32 \<Rightarrow> u32 \<Rightarrow> storage_slot" where
  "slot_new a b c t = \<lparr>units_legacy = a, units_2024 = b, units_2025 = c, invalidate_at = t\<rparr>"

definition units_for :: "storage_slot \<Rightarrow> storage_unit_type \<Rightarrow> u32" where
  "units_for s t = (case t of UnitTypeLegacy \<Rightarrow> units_legacy s | UnitType2024 \<Rightarrow> units_2024 s | UnitType2025 \<Rightarrow> units_2025 s)"

definition unit_type_2024_cutoff :: "farcaster_network \<Rightarrow> u32" where
  "unit_type_2024_cutoff network = (if network = Mainnet then 1752685200 else 1752426000)"

text \<open>\<open>LendStorageBody::unit_type()\<close> reads an unknown number as the legacy type.\<close>

definition from_storage_lend :: "lend_storage_body \<Rightarrow> storage_slot" where
  "from_storage_lend b = (let units = ucast (ls_num_units b) in
     if ls_unit_type b = 1 then slot_new 0 units 0 (- 1)
     else if ls_unit_type b = 2 then slot_new 0 0 units (- 1)
     else slot_new units 0 0 (- 1))"

abbreviation UNIT_TYPE_LEGACY_CUTOFF_TIMESTAMP :: u32 where "UNIT_TYPE_LEGACY_CUTOFF_TIMESTAMP \<equiv> 1724889600"

abbreviation ONE_YEAR_IN_SECONDS :: u32 where "ONE_YEAR_IN_SECONDS \<equiv> 365 * 24 * 60 * 60"

definition slot_from_event :: "onchain_event \<Rightarrow> farcaster_network \<Rightarrow> storage_slot oc" where
  "slot_from_event e network = (case oe_body e of
     Some (StorageRentEventBody b) \<Rightarrow>
       Inr (if oe_block_timestamp e < ucast UNIT_TYPE_LEGACY_CUTOFF_TIMESTAMP then
              slot_new (sr_units b) 0 0 (ucast (oe_block_timestamp e) + ONE_YEAR_IN_SECONDS * 3)
            else if oe_block_timestamp e < ucast (unit_type_2024_cutoff network) then
              slot_new 0 (sr_units b) 0 (ucast (oe_block_timestamp e) + ONE_YEAR_IN_SECONDS * 2)
            else slot_new 0 0 (sr_units b) (ucast (oe_block_timestamp e) + ONE_YEAR_IN_SECONDS))
   | _ \<Rightarrow> Inl InvalidStorageRentEventType)"

definition is_active :: "u32 \<Rightarrow> storage_slot \<Rightarrow> bool" where
  "is_active now s \<longleftrightarrow> now < invalidate_at s"

definition slot_merge :: "u32 \<Rightarrow> storage_slot \<Rightarrow> storage_slot \<Rightarrow> storage_slot" where
  "slot_merge now self other =
     (if \<not> is_active now other then self
      else if \<not> is_active now self then other
      else \<lparr>units_legacy = units_legacy self + units_legacy other, units_2024 = units_2024 self + units_2024 other,
            units_2025 = units_2025 self + units_2025 other, invalidate_at = min (invalidate_at self) (invalidate_at other)\<rparr>)"

definition slot_sub :: "u32 \<Rightarrow> storage_slot \<Rightarrow> storage_slot \<Rightarrow> storage_slot" where
  "slot_sub now self other =
     (if is_active now other then
        self\<lparr>units_legacy := units_legacy self - units_legacy other, units_2024 := units_2024 self - units_2024 other,
             units_2025 := units_2025 self - units_2025 other\<rparr>
      else self)"

fun merge_rents :: "u32 \<Rightarrow> farcaster_network \<Rightarrow> onchain_event list \<Rightarrow> storage_slot \<Rightarrow> storage_slot oc" where
  "merge_rents now network [] slot = Inr slot"
| "merge_rents now network (e # es) slot =
     and_then (slot_from_event e network) (\<lambda>s. merge_rents now network es (slot_merge now slot s))"

text \<open>\<open>OnchainEventStore::get_storage_slot_for_fid\<close>.\<close>

definition rented_slot ::
  "nat \<Rightarrow> u32 \<Rightarrow> 'e onchain_store \<Rightarrow> u64 \<Rightarrow> farcaster_network \<Rightarrow> onchain_event list \<Rightarrow> storage_slot \<Rightarrow> storage_slot \<Rightarrow> storage_slot oc option" where
  "rented_slot fuel now os fid network pending_events lent_storage borrowed_storage =
     map_option (\<lambda>r. and_then r (\<lambda>rent_events.
         and_then (merge_rents now network rent_events (slot_new 0 0 0 0)) (\<lambda>slot1.
         and_then (merge_rents now network (filter (\<lambda>e. oe_fid e = fid \<and> event_type_of e = EventTypeStorageRent) pending_events) slot1)
           (\<lambda>slot2. Inr (slot_merge now (slot_sub now slot2 lent_storage) borrowed_storage)))))
       (get_onchain_events_by_type fuel os EventTypeStorageRent (Some fid))"

end
