(* ===== verification/Gasless_Keys.thy ===== *)
theory Gasless_Keys
  imports Block_Data Onchain_Store
begin

unbundle bit_operations_syntax

text \<open>
  Keys that an account adds and removes by signed messages instead of on-chain transactions: the rows of
  \<open>key_add_store.rs\<close>, \<open>key_last_used_at_store.rs\<close> and \<open>key_nonce_store.rs\<close>, the lookup of \<open>active_key.rs\<close> and
  the merges of \<open>gasless_key_merge.rs\<close>, all under \<open>storage/store/account\<close>.
\<close>

section \<open>Rows\<close>

definition validate_key_len :: "string \<Rightarrow> bytes \<Rightarrow> unit res" where
  "validate_key_len store public_key =
     (if length public_key \<noteq> ED25519_PUBLIC_KEY_LEN then
        hub_err ''bad_request.validation_failure'' (store @ '': expected 32-byte key, got '' @ decimal (length public_key))
      else Inr ())"

definition gasless_key :: "user_postfix \<Rightarrow> bytes \<Rightarrow> bytes" where
  "gasless_key postfix rest = rp_u8 Rp_GaslessKey # postfix_u8 postfix # rest"

definition make_gasless_key_by_fid_key :: "u64 \<Rightarrow> bytes \<Rightarrow> bytes res" where
  "make_gasless_key_by_fid_key fid public_key =
     bind_res (validate_key_len ''gasless-key store'' public_key) (\<lambda>_.
       Inr (gasless_key GaslessKeyByFid (make_fid_key fid @ public_key)))"

definition make_gasless_key_by_public_key_key :: "bytes \<Rightarrow> bytes res" where
  "make_gasless_key_by_public_key_key public_key =
     bind_res (validate_key_len ''gasless-key store'' public_key) (\<lambda>_. Inr (gasless_key GaslessKeyByPublicKey public_key))"

definition make_gasless_key_count_by_fid_key :: "u64 \<Rightarrow> bytes" where
  "make_gasless_key_count_by_fid_key fid = gasless_key GaslessKeyCountByFid (make_fid_key fid)"

definition make_last_used_at_key :: "u64 \<Rightarrow> bytes \<Rightarrow> bytes res" where
  "make_last_used_at_key fid public_key =
     bind_res (validate_key_len ''gasless-key last_used_at'' public_key) (\<lambda>_.
       Inr (gasless_key GaslessKeyLastUsedAt (make_fid_key fid @ public_key)))"

definition make_nonce_key :: "user_postfix \<Rightarrow> u64 \<Rightarrow> bytes" where
  "make_nonce_key postfix fid = gasless_key postfix (make_fid_key fid)"

text \<open>A row that holds a 32-bit number; a value of another length is reported as corrupt.\<close>

definition read_u32_row :: "string \<Rightarrow> db_read \<Rightarrow> txn_batch \<Rightarrow> bytes \<Rightarrow> u32 option res" where
  "read_u32_row what rd txn key =
     bind_res (from_hub (get_from_db_or_txn rd txn key)) (\<lambda>v. case v of
        None \<Rightarrow> Inr None
      | Some bs \<Rightarrow>
          if length bs \<noteq> 4 then
            hub_err ''internal_error'' (''corrupt gasless-key '' @ what @ '' value: expected 4 bytes, got '' @ decimal (length bs))
          else Inr (Some (u32_from_be bs)))"

section \<open>The record of a key\<close>

definition get_gasless_key_record :: "block_codec \<Rightarrow> db_read \<Rightarrow> txn_batch \<Rightarrow> u64 \<Rightarrow> bytes \<Rightarrow> gasless_key_record option res" where
  "get_gasless_key_record bc rd txn fid public_key =
     bind_res (make_gasless_key_by_fid_key fid public_key) (\<lambda>key.
     bind_res (from_hub (get_from_db_or_txn rd txn key)) (\<lambda>v. case v of
        None \<Rightarrow> Inr None
      | Some bs \<Rightarrow> (case dec_gasless_key bc bs of
          Inr r \<Rightarrow> Inr (Some r)
        | Inl e \<Rightarrow> hub_err ''internal_error'' (''corrupt GaslessKeyRecord at fid='' @ decimal (unat fid) @ '': '' @ e))))"

definition put_gasless_key_record :: "block_codec \<Rightarrow> u64 \<Rightarrow> bytes \<Rightarrow> gasless_key_record \<Rightarrow> (txn_batch, unit) action" where
  "put_gasless_key_record bc fid public_key record =
     bind_st (lift_res (make_gasless_key_by_fid_key fid public_key)) (\<lambda>key.
       modify_st (\<lambda>txn. txn_put txn key (enc_gasless_key bc record)))"

definition delete_gasless_key_record :: "u64 \<Rightarrow> bytes \<Rightarrow> (txn_batch, unit) action" where
  "delete_gasless_key_record fid public_key =
     bind_st (lift_res (make_gasless_key_by_fid_key fid public_key)) (\<lambda>key. modify_st (\<lambda>txn. txn_delete txn key))"

definition get_gasless_key_owner_fid :: "db_read \<Rightarrow> txn_batch \<Rightarrow> bytes \<Rightarrow> u64 option res" where
  "get_gasless_key_owner_fid rd txn public_key =
     bind_res (make_gasless_key_by_public_key_key public_key) (\<lambda>key.
     bind_res (from_hub (get_from_db_or_txn rd txn key)) (\<lambda>v. case v of
        None \<Rightarrow> Inr None
      | Some bs \<Rightarrow>
          if length bs \<noteq> FID_BYTES then
            hub_err ''internal_error'' (''corrupt gasless-key owner entry: expected 4 bytes, got '' @ decimal (length bs))
          else bind_res (read_fid_key bs 0) (\<lambda>fid. Inr (Some fid))))"

definition put_gasless_key_owner :: "bytes \<Rightarrow> u64 \<Rightarrow> (txn_batch, unit) action" where
  "put_gasless_key_owner public_key fid =
     bind_st (lift_res (make_gasless_key_by_public_key_key public_key)) (\<lambda>key. modify_st (\<lambda>txn. txn_put txn key (make_fid_key fid)))"

definition delete_gasless_key_owner :: "bytes \<Rightarrow> (txn_batch, unit) action" where
  "delete_gasless_key_owner public_key =
     bind_st (lift_res (make_gasless_key_by_public_key_key public_key)) (\<lambda>key. modify_st (\<lambda>txn. txn_delete txn key))"

section \<open>The number of keys of an account\<close>

definition get_gasless_key_count :: "db_read \<Rightarrow> txn_batch \<Rightarrow> u64 \<Rightarrow> u32 res" where
  "get_gasless_key_count rd txn fid =
     bind_res (read_u32_row ''count'' rd txn (make_gasless_key_count_by_fid_key fid)) (\<lambda>n.
       Inr (case n of Some c \<Rightarrow> c | None \<Rightarrow> 0))"

definition increment_gasless_key_count :: "db_read \<Rightarrow> u64 \<Rightarrow> (txn_batch, unit) action" where
  "increment_gasless_key_count rd fid =
     bind_st get_st (\<lambda>txn. bind_st (lift_res (get_gasless_key_count rd txn fid)) (\<lambda>current.
       let next = (if current = - 1 then - 1 else current + 1)
       in modify_st (\<lambda>txn. txn_put txn (make_gasless_key_count_by_fid_key fid) (u32_to_be next))))"

definition decrement_gasless_key_count :: "db_read \<Rightarrow> u64 \<Rightarrow> (txn_batch, unit) action" where
  "decrement_gasless_key_count rd fid =
     bind_st get_st (\<lambda>txn. bind_st (lift_res (get_gasless_key_count rd txn fid)) (\<lambda>current.
       let next = (if current = 0 then 0 else current - 1)
       in modify_st (\<lambda>txn. if next = 0 then txn_delete txn (make_gasless_key_count_by_fid_key fid)
            else txn_put txn (make_gasless_key_count_by_fid_key fid) (u32_to_be next))))"

section \<open>The time of last use\<close>

definition get_last_used_at :: "db_read \<Rightarrow> txn_batch \<Rightarrow> u64 \<Rightarrow> bytes \<Rightarrow> u32 option res" where
  "get_last_used_at rd txn fid public_key =
     bind_res (make_last_used_at_key fid public_key) (\<lambda>key. read_u32_row ''last_used_at'' rd txn key)"

definition init_last_used_at :: "u64 \<Rightarrow> bytes \<Rightarrow> u32 \<Rightarrow> (txn_batch, unit) action" where
  "init_last_used_at fid public_key message_timestamp =
     bind_st (lift_res (make_last_used_at_key fid public_key)) (\<lambda>key.
       modify_st (\<lambda>txn. txn_put txn key (u32_to_be message_timestamp)))"

definition delete_last_used_at :: "u64 \<Rightarrow> bytes \<Rightarrow> (txn_batch, unit) action" where
  "delete_last_used_at fid public_key =
     bind_st (lift_res (make_last_used_at_key fid public_key)) (\<lambda>key. modify_st (\<lambda>txn. txn_delete txn key))"

abbreviation (input) SLIDING_TTL_THROTTLE_SECONDS :: u64 where "SLIDING_TTL_THROTTLE_SECONDS \<equiv> 300"

definition check_and_bump_last_used_at :: "db_read \<Rightarrow> u64 \<Rightarrow> bytes \<Rightarrow> u32 \<Rightarrow> u32 \<Rightarrow> u64 \<Rightarrow> (txn_batch, unit) action" where
  "check_and_bump_last_used_at rd fid public_key ttl message_timestamp current_block_timestamp =
     bind_st get_st (\<lambda>txn.
     bind_st (lift_res (make_last_used_at_key fid public_key)) (\<lambda>key.
     bind_st (lift_res (read_u32_row ''last_used_at'' rd txn key)) (\<lambda>v. case v of
        None \<Rightarrow> lift_res (hub_err ''internal_error'' (''gasless-key last_used_at entry missing for fid='' @ decimal (unat fid)
                  @ '' (expected KEY_ADD to have initialized it)''))
      | Some last_used \<Rightarrow>
          (let stored = ucast last_used :: u64 in
           if stored + ucast ttl < current_block_timestamp then
             lift_res (hub_err ''bad_request.validation_failure''
               (''gasless-key last_used_at expired: stored='' @ decimal (unat stored) @ '' + ttl='' @ decimal (unat ttl)
                @ '' < current_block_timestamp='' @ decimal (unat current_block_timestamp)))
           else if ucast message_timestamp > stored + SLIDING_TTL_THROTTLE_SECONDS then
             modify_st (\<lambda>txn. txn_put txn key (u32_to_be message_timestamp))
           else return_st ()))))"

section \<open>Nonces\<close>

definition check_and_set_nonce :: "db_read \<Rightarrow> bytes \<Rightarrow> u32 \<Rightarrow> (txn_batch, unit) action" where
  "check_and_set_nonce rd key new_nonce =
     bind_st get_st (\<lambda>txn. bind_st (lift_res (read_u32_row ''nonce'' rd txn key)) (\<lambda>v.
       let stored = (case v of Some n \<Rightarrow> n | None \<Rightarrow> 0)
       in if new_nonce \<le> stored then
            lift_res (hub_err ''bad_request.conflict'' (''gasless-key nonce '' @ decimal (unat new_nonce)
              @ '' is not greater than stored nonce '' @ decimal (unat stored)))
          else modify_st (\<lambda>txn. txn_put txn key (u32_to_be new_nonce))))"

definition check_and_set_user_nonce :: "db_read \<Rightarrow> u64 \<Rightarrow> u32 \<Rightarrow> (txn_batch, unit) action" where
  "check_and_set_user_nonce rd fid = check_and_set_nonce rd (make_nonce_key GaslessKeyUserNonce fid)"

definition check_and_set_app_nonce :: "db_read \<Rightarrow> u64 \<Rightarrow> u32 \<Rightarrow> (txn_batch, unit) action" where
  "check_and_set_app_nonce rd app_fid = check_and_set_nonce rd (make_nonce_key GaslessKeyAppNonce app_fid)"

section \<open>Active keys\<close>

datatype active_key = OnChain | Gasless (ak_scopes_mask: u64) (ak_ttl_seconds: u32)

definition compute_scopes_mask :: "i32 list \<Rightarrow> u64" where
  "compute_scopes_mask scopes = foldl (\<lambda>mask scope. if 0 \<le> scope \<and> scope < 64 then mask OR push_bit (nat scope) 1 else mask) 0 scopes"

definition message_type_bit :: "message_type \<Rightarrow> u64" where
  "message_type_bit t = (if message_type_num t < 64 then push_bit (message_type_num t) 1 else 0)"

definition admits :: "active_key \<Rightarrow> message_type \<Rightarrow> bool" where
  "admits k t = (case k of OnChain \<Rightarrow> True | Gasless scopes_mask _ \<Rightarrow> scopes_mask AND message_type_bit t \<noteq> 0)"

definition extract_scope_and_ttl :: "message option \<Rightarrow> (u64 \<times> u32) option" where
  "extract_scope_and_ttl m = (case m of
     None \<Rightarrow> None
   | Some msg \<Rightarrow> (case m_data msg of
       None \<Rightarrow> None
     | Some d \<Rightarrow> (case md_body d of
         Some (KeyAddBody b) \<Rightarrow> Some (compute_scopes_mask (ka_scopes b), ka_ttl b)
       | _ \<Rightarrow> None)))"

definition get_active_key :: "block_codec \<Rightarrow> 'e onchain_store \<Rightarrow> txn_batch \<Rightarrow> u64 \<Rightarrow> bytes \<Rightarrow> active_key option oc" where
  "get_active_key bc os txn fid signer =
     and_then (get_active_signer os fid signer (Some txn)) (\<lambda>onchain. case onchain of
        Some _ \<Rightarrow> Inr (Some OnChain)
      | None \<Rightarrow>
          and_then (of_store onchain_failure (get_gasless_key_record bc (os_read os) txn fid signer)) (\<lambda>record. case record of
             None \<Rightarrow> Inr None
           | Some r \<Rightarrow>
               (let (scopes_mask, ttl_seconds) = (case extract_scope_and_ttl (gk_message r) of Some st \<Rightarrow> st | None \<Rightarrow> (0, 0))
                in Inr (Some (Gasless scopes_mask ttl_seconds)))))"

section \<open>Listing\<close>

record gasless_keys_page =
  gp_records :: "(bytes \<times> gasless_key_record) list"
  gp_next_page_token :: "bytes option"

definition list_gasless_step ::
  "block_codec \<Rightarrow> u64 \<Rightarrow> nat \<Rightarrow> (bytes \<times> gasless_key_record) list \<times> bytes \<Rightarrow> bytes \<Rightarrow> bytes
     \<Rightarrow> ((bytes \<times> gasless_key_record) list \<times> bytes) \<times> (hub_error + bool)" where
  "list_gasless_step bc fid limit acc key value = (case dec_gasless_key bc value of
     Inl e \<Rightarrow> (acc, Inl \<lparr>he_code = ''internal_error'', he_message = ''corrupt GaslessKeyRecord at fid='' @ decimal (unat fid) @ '': '' @ e\<rparr>)
   | Inr record \<Rightarrow>
       if length key < 6 + ED25519_PUBLIC_KEY_LEN then
         (acc, Inl \<lparr>he_code = ''internal_error'', he_message = ''gasless-key index row too short: got '' @ decimal (length key) @ '' bytes''\<rparr>)
       else
         let records = fst acc @ [(take ED25519_PUBLIC_KEY_LEN (drop 6 key), record)] in
         if length records \<ge> limit then ((records, key), Inr True) else ((records, snd acc), Inr False))"

definition list_gasless_keys_by_fid :: "block_codec \<Rightarrow> 'e engine_ops \<Rightarrow> 'e rocksdb \<Rightarrow> u64 \<Rightarrow> page_options \<Rightarrow> hub_error + gasless_keys_page" where
  "list_gasless_keys_by_fid bc ops db fid po =
     (let start_prefix = gasless_key GaslessKeyByFid (make_fid_key fid) in
      case for_each_iterator_by_prefix_paged ops db (Some start_prefix) (Some (increment_vec_u8 start_prefix)) po
             (list_gasless_step bc fid (case page_size po of Some n \<Rightarrow> n | None \<Rightarrow> 1000)) ([], []) of
        (_, Inl e) \<Rightarrow> Inl e
      | ((records, last_key), Inr _) \<Rightarrow>
          Inr \<lparr>gp_records = records, gp_next_page_token = (if last_key = [] then None else Some last_key)\<rparr>)"

section \<open>Merging keys\<close>

abbreviation (input) ETH_MAINNET_CHAIN_ID :: u32 where "ETH_MAINNET_CHAIN_ID \<equiv> 1"

abbreviation (input) MAX_GASLESS_KEYS_PER_FID :: u32 where "MAX_GASLESS_KEYS_PER_FID \<equiv> 1000"

definition of_oc :: "(onchain_error \<Rightarrow> 'f) \<Rightarrow> 'a oc \<Rightarrow> 'f fault + 'a" where
  "of_oc f r = map_err (\<lambda>e. if e = OnchainPanic then Halts Panics else Fails (f e)) r"

lemma of_oc_eq_Inr [simp]: "of_oc f r = Inr x \<longleftrightarrow> r = Inr x"
  by (cases r) (simp_all add: of_oc_def)

lemma fail_with_Inr [simp]: "fail_with e \<noteq> Inr x"
  by (simp add: fail_with_def)

lemma or_fail_simps [simp]: "or_fail (Some x) e = Inr x" "or_fail None e = fail_with e"
  by (simp_all add: or_fail_def)

text \<open>The custody address of an account, as its registration has it.\<close>

definition custody_address :: "'e onchain_store \<Rightarrow> txn_batch \<Rightarrow> u64 \<Rightarrow> message_validation_error \<Rightarrow> bytes mv" where
  "custody_address os txn fid absent =
     and_then (of_oc (\<lambda>_. MissingFid) (get_id_register_event_by_fid os fid (Some txn))) (\<lambda>ev.
     and_then (or_fail ev absent) (\<lambda>e. case oe_body e of
       Some (IdRegisterEventBody b) \<Rightarrow> Inr (ir_to b)
     | _ \<Rightarrow> fail_with absent))"

text \<open>The record that an added key replaces; only its own application may replace it.\<close>

definition prior_gasless_record :: "block_codec \<Rightarrow> db_read \<Rightarrow> txn_batch \<Rightarrow> u64 \<Rightarrow> bytes \<Rightarrow> u64 \<Rightarrow> gasless_key_record option mv" where
  "prior_gasless_record bc rd txn fid key request_fid =
     and_then (of_res StoreError (get_gasless_key_owner_fid rd txn key)) (\<lambda>owner. case owner of
        None \<Rightarrow> Inr None
      | Some owner_fid \<Rightarrow>
          if owner_fid \<noteq> fid then fail_with (MessageInvalid (Signers KeyClaimedByDifferentFid))
          else
            and_then (of_res StoreError (get_gasless_key_record bc rd txn fid key)) (\<lambda>r.
            and_then (or_fail r (StoreError \<lparr>he_code = ''internal_error'', he_message =
                ''gasless owner index has fid='' @ decimal (unat fid) @ '' for key but primary record missing''\<rparr>)) (\<lambda>record.
            and_then (require (gk_request_fid record = request_fid) (MessageInvalid (Signers KeyRegisteredByDifferentRequestingFid)))
              (\<lambda>_. Inr (Some record)))))"

text \<open>The checks of \<open>merge_key_add\<close> up to the nonce: the verified request and the record it replaces.\<close>

definition check_key_add ::
  "validation_env \<Rightarrow> block_codec \<Rightarrow> 'e onchain_store \<Rightarrow> bool \<Rightarrow> u64 \<Rightarrow> u32 \<Rightarrow> key_add_body \<Rightarrow> txn_batch
     \<Rightarrow> (verified_signed_key_request \<times> gasless_key_record option) mv" where
  "check_key_add env bc os is_replay fid timestamp body txn =
     and_then (of_checked (verify_signed_key_request_metadata env (ka_metadata_type body) (ka_metadata body) (ka_key body)
         (ucast timestamp) ETH_MAINNET_CHAIN_ID)) (\<lambda>verified.
     and_then (if is_replay then Inr ()
         else and_then (custody_address os txn (vk_request_fid verified) (MessageInvalid (Signers InvalidSignedKeyRequest))) (\<lambda>custody.
           require (custody = vk_request_signer verified) (MessageInvalid (Signers SignedKeyRequestCustodyMismatch)))) (\<lambda>_.
     and_then (of_checked (recover_key_add_custody_address env fid body ETH_MAINNET_CHAIN_ID)) (\<lambda>recovered.
     and_then (custody_address os txn fid MissingFid) (\<lambda>custody.
     and_then (require (custody = recovered) (MessageInvalid (Envelope InvalidSignature))) (\<lambda>_.
     and_then (of_oc (\<lambda>_. MissingSigner) (get_active_signer os fid (ka_key body) (Some txn))) (\<lambda>existing_onchain.
     and_then (require (existing_onchain = None) (MessageInvalid (Signers KeyAlreadyRegisteredOnchain))) (\<lambda>_.
     and_then (prior_gasless_record bc (os_read os) txn fid (ka_key body) (vk_request_fid verified)) (\<lambda>prior.
     and_then (if prior = None then
           and_then (of_res StoreError (get_gasless_key_count (os_read os) txn fid)) (\<lambda>gasless_count.
             require (gasless_count < MAX_GASLESS_KEYS_PER_FID) (MessageInvalid (Signers (ActiveKeyCapExceeded MAX_GASLESS_KEYS_PER_FID))))
         else Inr ()) (\<lambda>_.
       Inr (verified, prior))))))))))"

definition merge_key_add ::
  "validation_env \<Rightarrow> block_codec \<Rightarrow> 'e onchain_store \<Rightarrow> message \<Rightarrow> bool \<Rightarrow> (txn_batch, message_validation_error fault, hub_event) stateful" where
  "merge_key_add env bc os m is_replay =
     bind_st (lift_res (or_fail (m_data m) NoMessageData)) (\<lambda>data.
     bind_st (lift_res (case md_body data of Some (KeyAddBody b) \<Rightarrow> Inr b | _ \<Rightarrow> fail_with (InvalidMessageType (md_type data)))) (\<lambda>body.
     bind_st get_st (\<lambda>txn.
     bind_st (lift_res (check_key_add env bc os is_replay (md_fid data) (md_timestamp data) body txn)) (\<lambda>(verified, prior).
     bind_st (of_action StoreError (
       bind_st (check_and_set_user_nonce (os_read os) (md_fid data) (ka_nonce body)) (\<lambda>_.
       bind_st (put_gasless_key_record bc (md_fid data) (ka_key body) \<lparr>gk_message = Some m, gk_request_fid = vk_request_fid verified\<rparr>) (\<lambda>_.
       bind_st (put_gasless_key_owner (ka_key body) (md_fid data)) (\<lambda>_.
       bind_st (init_last_used_at (md_fid data) (ka_key body) (md_timestamp data)) (\<lambda>_.
         if prior = None then increment_gasless_key_count (os_read os) (md_fid data) else return_st ())))))) (\<lambda>_.
       return_st (new_event MergeMessage (MergeMessageBody (Some m)
         (case prior of Some r \<Rightarrow> (case gk_message r of Some old \<Rightarrow> [old] | None \<Rightarrow> []) | None \<Rightarrow> []))))))))"

definition authorize_key_remove ::
  "validation_env \<Rightarrow> 'e onchain_store \<Rightarrow> message \<Rightarrow> u64 \<Rightarrow> key_remove_body \<Rightarrow> gasless_key_record
     \<Rightarrow> (txn_batch, message_validation_error fault, unit) stateful" where
  "authorize_key_remove env os m fid body record =
     bind_st (lift_res (of_checked (try_key_remove_signature_type (kr_signature_type body)))) (\<lambda>sig_type. case sig_type of
       Custody \<Rightarrow>
         bind_st (lift_res (of_checked (recover_key_remove_custody_address env fid body ETH_MAINNET_CHAIN_ID))) (\<lambda>recovered.
         bind_st get_st (\<lambda>txn.
         bind_st (lift_res (custody_address os txn fid MissingFid)) (\<lambda>custody.
         bind_st (lift_res (require (custody = recovered) (MessageInvalid (Envelope InvalidSignature)))) (\<lambda>_.
           of_action StoreError (check_and_set_user_nonce (os_read os) fid (kr_nonce body))))))
     | SelfRevoke \<Rightarrow>
         bind_st (lift_res (require (m_signer m = kr_key body) (MessageInvalid (Envelope InvalidSignature)))) (\<lambda>_.
           of_action StoreError (check_and_set_app_nonce (os_read os) (gk_request_fid record) (kr_nonce body))))"

definition merge_key_remove ::
  "validation_env \<Rightarrow> block_codec \<Rightarrow> 'e onchain_store \<Rightarrow> message \<Rightarrow> (txn_batch, message_validation_error fault, hub_event) stateful" where
  "merge_key_remove env bc os m =
     bind_st (lift_res (or_fail (m_data m) NoMessageData)) (\<lambda>data.
     bind_st (lift_res (case md_body data of Some (KeyRemoveBody b) \<Rightarrow> Inr b | _ \<Rightarrow> fail_with (InvalidMessageType (md_type data)))) (\<lambda>body.
     bind_st get_st (\<lambda>txn.
     bind_st (lift_res (and_then (of_res StoreError (get_gasless_key_record bc (os_read os) txn (md_fid data) (kr_key body)))
         (\<lambda>r. or_fail r (MessageInvalid (Signers KeyNotRegistered))))) (\<lambda>record.
     bind_st (authorize_key_remove env os m (md_fid data) body record) (\<lambda>_.
     bind_st (of_action StoreError (
       bind_st (delete_gasless_key_record (md_fid data) (kr_key body)) (\<lambda>_.
       bind_st (delete_gasless_key_owner (kr_key body)) (\<lambda>_.
       bind_st (delete_last_used_at (md_fid data) (kr_key body)) (\<lambda>_.
         decrement_gasless_key_count (os_read os) (md_fid data)))))) (\<lambda>_.
       return_st (new_event MergeMessage (MergeMessageBody (Some m) (case gk_message record of Some old \<Rightarrow> [old] | None \<Rightarrow> [])))))))))"

end
