(* ===== verification/Gasless_Indices.thy ===== *)
theory Gasless_Indices
  imports Gasless_Keys
begin

text \<open>
  What the merges of gasless keys do to the rows: the four indices of a key move together and the counter of an
  account is the number of its records.
\<close>

section \<open>Rows a merge writes\<close>

lemma gasless_key_inject [simp]: "gasless_key p x = gasless_key q y \<longleftrightarrow> postfix_u8 p = postfix_u8 q \<and> x = y"
  by (simp add: gasless_key_def)

lemma validate_key_len_Inr [simp]: "validate_key_len what k = Inr u \<longleftrightarrow> length k = 32"
  by (simp add: validate_key_len_def hub_err_def)

lemma gasless_row_keys:
  assumes "length k = 32"
  shows "make_gasless_key_by_fid_key fid k = Inr (gasless_key GaslessKeyByFid (make_fid_key fid @ k))"
    and "make_gasless_key_by_public_key_key k = Inr (gasless_key GaslessKeyByPublicKey k)"
    and "make_last_used_at_key fid k = Inr (gasless_key GaslessKeyLastUsedAt (make_fid_key fid @ k))"
  using assms by (simp_all add: make_gasless_key_by_fid_key_def make_gasless_key_by_public_key_key_def make_last_used_at_key_def
      validate_key_len_def)

lemma ucast_u32_u64 [simp]: "(ucast (ucast (x :: u32) :: u64) :: u32) = x"
  by transfer simp

lemma gasless_owner_read:
  assumes "get_gasless_key_owner_fid (reads m) txn k = Inr owner"
  shows "length k = 32"
    and "owner = None \<longleftrightarrow> overlay m txn (gasless_key GaslessKeyByPublicKey k) = None"
    and "owner = Some fid \<Longrightarrow> overlay m txn (gasless_key GaslessKeyByPublicKey k) = Some (make_fid_key fid)"
proof -
  show len: "length k = 32"
    using assms by (auto simp: get_gasless_key_owner_fid_def make_gasless_key_by_public_key_key_def bind_res_eq_Inr)
  show "owner = None \<longleftrightarrow> overlay m txn (gasless_key GaslessKeyByPublicKey k) = None"
    using assms by (auto simp: get_gasless_key_owner_fid_def gasless_row_keys[OF len] bind_res_eq_Inr hub_err_def split: option.splits if_splits)
  show "overlay m txn (gasless_key GaslessKeyByPublicKey k) = Some (make_fid_key fid)" if "owner = Some fid"
    using assms that u32_to_from_be
    by (auto simp: get_gasless_key_owner_fid_def gasless_row_keys[OF len] bind_res_eq_Inr hub_err_def read_fid_key_def FID_BYTES_def
        make_fid_key_def split: option.splits if_splits)
qed

lemma prior_gasless_record_cases:
  assumes "prior_gasless_record bc (reads m) txn fid k request = Inr prior"
  shows "length k = 32"
    and "prior = None \<Longrightarrow> overlay m txn (gasless_key GaslessKeyByPublicKey k) = None"
    and "prior \<noteq> None \<Longrightarrow> overlay m txn (gasless_key GaslessKeyByPublicKey k) = Some (make_fid_key fid)"
proof -
  from assms obtain owner where o: "get_gasless_key_owner_fid (reads m) txn k = Inr owner"
    by (auto simp: prior_gasless_record_def)
  then have p: "owner = None \<and> prior = None \<or> owner = Some fid \<and> prior \<noteq> None"
    using assms by (cases owner) (auto simp: prior_gasless_record_def split: if_splits)
  note read = gasless_owner_read[OF o]
  show "length k = 32" by (rule read(1))
  show "overlay m txn (gasless_key GaslessKeyByPublicKey k) = None" if "prior = None" using p that read(2) by auto
  show "overlay m txn (gasless_key GaslessKeyByPublicKey k) = Some (make_fid_key fid)" if "prior \<noteq> None" using p that read(3) by auto
qed

lemma check_key_add_prior:
  assumes "check_key_add env bc os replay fid ts b txn = Inr (verified, prior)" "os_read os = reads m"
  shows "prior_gasless_record bc (reads m) txn fid (ka_key b) (vk_request_fid verified) = Inr prior"
    and "prior = None \<Longrightarrow> \<exists>n. get_gasless_key_count (reads m) txn fid = Inr n \<and> n < 1000"
  using assms by (auto simp: check_key_add_def split: if_splits)

text \<open>The batch after an added key, where \<open>f\<close> is the account's part of the row keys.\<close>

definition key_added :: "block_codec \<Rightarrow> message \<Rightarrow> message_data \<Rightarrow> key_add_body \<Rightarrow> u64 \<Rightarrow> (bytes \<rightharpoonup> bytes) \<Rightarrow> (bytes \<rightharpoonup> bytes)" where
  "key_added bc msg d b request rows = rows(
     make_nonce_key GaslessKeyUserNonce (md_fid d) \<mapsto> u32_to_be (ka_nonce b),
     gasless_key GaslessKeyByFid (make_fid_key (md_fid d) @ ka_key b) \<mapsto> enc_gasless_key bc \<lparr>gk_message = Some msg, gk_request_fid = request\<rparr>,
     gasless_key GaslessKeyByPublicKey (ka_key b) \<mapsto> make_fid_key (md_fid d),
     gasless_key GaslessKeyLastUsedAt (make_fid_key (md_fid d) @ ka_key b) \<mapsto> u32_to_be (md_timestamp d))"

lemma read_u32_row_cases:
  "read_u32_row what (reads m) txn key = (case overlay m txn key of
     None \<Rightarrow> Inr None
   | Some bs \<Rightarrow> if length bs = 4 then Inr (Some (u32_from_be bs))
       else hub_err ''internal_error'' (''corrupt gasless-key '' @ what @ '' value: expected 4 bytes, got '' @ decimal (length bs)))"
  by (simp add: read_u32_row_def split: option.split)

lemma set_nonce_cases:
  "check_and_set_nonce (reads m) key n txn = (Inr (), txn_put txn key (u32_to_be n))
   \<or> (\<exists>e. check_and_set_nonce (reads m) key n txn = (Inl e, txn))"
  by (cases "read_u32_row ''nonce'' (reads m) txn key") (simp_all add: check_and_set_nonce_def Let_def hub_err_def)

lemma gasless_writes:
  assumes "length k = 32"
  shows "put_gasless_key_record bc fid k g t = (Inr (), txn_put t (gasless_key GaslessKeyByFid (make_fid_key fid @ k)) (enc_gasless_key bc g))"
    and "put_gasless_key_owner k fid t = (Inr (), txn_put t (gasless_key GaslessKeyByPublicKey k) (make_fid_key fid))"
    and "init_last_used_at fid k ts t = (Inr (), txn_put t (gasless_key GaslessKeyLastUsedAt (make_fid_key fid @ k)) (u32_to_be ts))"
    and "delete_gasless_key_record fid k t = (Inr (), txn_delete t (gasless_key GaslessKeyByFid (make_fid_key fid @ k)))"
    and "delete_gasless_key_owner k t = (Inr (), txn_delete t (gasless_key GaslessKeyByPublicKey k))"
    and "delete_last_used_at fid k t = (Inr (), txn_delete t (gasless_key GaslessKeyLastUsedAt (make_fid_key fid @ k)))"
  by (simp_all add: put_gasless_key_record_def put_gasless_key_owner_def init_last_used_at_def delete_gasless_key_record_def
      delete_gasless_key_owner_def delete_last_used_at_def gasless_row_keys[OF assms])

lemma gasless_count_keys [simp]:
  "make_gasless_key_count_by_fid_key fid \<noteq> make_nonce_key GaslessKeyUserNonce fid'"
  "make_gasless_key_count_by_fid_key fid \<noteq> make_nonce_key GaslessKeyAppNonce fid'"
  "make_gasless_key_count_by_fid_key fid \<noteq> gasless_key GaslessKeyByFid x"
  "make_gasless_key_count_by_fid_key fid \<noteq> gasless_key GaslessKeyByPublicKey x"
  "make_gasless_key_count_by_fid_key fid \<noteq> gasless_key GaslessKeyLastUsedAt x"
  by (simp_all add: make_nonce_key_def make_gasless_key_count_by_fid_key_def)

lemma merge_key_add_accepts:
  assumes rd: "os_read os = reads m" and d: "m_data msg = Some d" and b: "md_body d = Some (KeyAddBody b)"
    and c: "check_key_add env bc os replay (md_fid d) (md_timestamp d) b txn = Inr (verified, prior)"
    and nonce: "check_and_set_user_nonce (reads m) (md_fid d) (ka_nonce b) txn = (Inr (), t1)"
  shows "\<exists>ev txn'. merge_key_add env bc os msg replay txn = (Inr ev, txn') \<and> ev_id ev = 0
    \<and> overlay m txn' = (let rows = key_added bc msg d b (vk_request_fid verified) (overlay m txn) in
        if prior = None then rows(make_gasless_key_count_by_fid_key (md_fid d) \<mapsto>
          u32_to_be (projr (get_gasless_key_count (reads m) txn (md_fid d)) + 1)) else rows)"
proof -
  note prior = check_key_add_prior[OF c rd]
  have len: "length (ka_key b) = 32" by (rule prior_gasless_record_cases(1)[OF prior(1)])
  let ?f = "md_fid d" and ?key = "make_nonce_key GaslessKeyUserNonce (md_fid d)"
  have set: "check_and_set_nonce (reads m) ?key (ka_nonce b) txn = (Inr (), txn_put txn ?key (u32_to_be (ka_nonce b)))"
    using set_nonce_cases[of m ?key "ka_nonce b" txn] nonce by (auto simp: check_and_set_user_nonce_def)
  define t where "t = txn_put (txn_put (txn_put (txn_put txn ?key (u32_to_be (ka_nonce b)))
    (gasless_key GaslessKeyByFid (make_fid_key ?f @ ka_key b)) (enc_gasless_key bc \<lparr>gk_message = Some msg, gk_request_fid = vk_request_fid verified\<rparr>))
    (gasless_key GaslessKeyByPublicKey (ka_key b)) (make_fid_key ?f))
    (gasless_key GaslessKeyLastUsedAt (make_fid_key ?f @ ka_key b)) (u32_to_be (md_timestamp d))"
  have rows: "overlay m t = key_added bc msg d b (vk_request_fid verified) (overlay m txn)"
    by (simp add: t_def key_added_def)
  have cnt: "get_gasless_key_count (reads m) t ?f = get_gasless_key_count (reads m) txn ?f"
    by (simp add: get_gasless_key_count_def read_u32_row_cases rows key_added_def)
  note run = merge_key_add_def d b c rd of_action_def check_and_set_user_nonce_def set bind_st_def gasless_writes[OF len] new_event_def t_def
  show ?thesis
  proof (cases prior)
    case None
    with prior(2) obtain n where n: "get_gasless_key_count (reads m) txn ?f = Inr n" "n < 1000" by blast
    then have "increment_gasless_key_count (reads m) ?f t = (Inr (), txn_put t (make_gasless_key_count_by_fid_key ?f) (u32_to_be (n + 1)))"
      using cnt by (auto simp: increment_gasless_key_count_def Let_def)
    then have "\<exists>ev. merge_key_add env bc os msg replay txn = (Inr ev, txn_put t (make_gasless_key_count_by_fid_key ?f) (u32_to_be (n + 1))) \<and> ev_id ev = 0"
      by (simp add: run None)
    with n rows None show ?thesis by (auto simp: Let_def)
  next
    case (Some p)
    then have "\<exists>ev. merge_key_add env bc os msg replay txn = (Inr ev, t) \<and> ev_id ev = 0" by (simp add: run)
    with rows Some show ?thesis by (auto simp: Let_def)
  qed
qed

lemma merge_key_add_cases:
  assumes rd: "os_read os = reads m" and run: "merge_key_add env bc os msg replay txn = (r, txn')"
  shows "(\<exists>e. r = Inl e \<and> txn' = txn) \<or>
    (\<exists>d b verified prior. m_data msg = Some d \<and> md_body d = Some (KeyAddBody b) \<and> length (ka_key b) = 32
       \<and> check_key_add env bc os replay (md_fid d) (md_timestamp d) b txn = Inr (verified, prior)
       \<and> (\<exists>t1. check_and_set_user_nonce (reads m) (md_fid d) (ka_nonce b) txn = (Inr (), t1))
       \<and> isl r = False \<and> ev_id (projr r) = 0
       \<and> overlay m txn' = (let rows = key_added bc msg d b (vk_request_fid verified) (overlay m txn) in
           if prior = None then rows(make_gasless_key_count_by_fid_key (md_fid d) \<mapsto>
             u32_to_be (projr (get_gasless_key_count (reads m) txn (md_fid d)) + 1)) else rows))"
proof (cases "m_data msg")
  case None
  with run show ?thesis by (auto simp: merge_key_add_def fail_with_def)
next
  case d: (Some d)
  show ?thesis
  proof (cases "\<exists>b. md_body d = Some (KeyAddBody b)")
    case False
    with run d show ?thesis by (auto simp: merge_key_add_def fail_with_def split: option.splits message_body.splits)
  next
    case True
    then obtain b where b: "md_body d = Some (KeyAddBody b)" ..
    show ?thesis
    proof (cases "check_key_add env bc os replay (md_fid d) (md_timestamp d) b txn")
      case (Inl e)
      with run d b show ?thesis by (auto simp: merge_key_add_def)
    next
      case (Inr vp)
      obtain verified prior where vp: "vp = (verified, prior)" by (cases vp)
      note c = Inr[unfolded vp]
      note prior = check_key_add_prior[OF c rd]
      have len: "length (ka_key b) = 32" by (rule prior_gasless_record_cases(1)[OF prior(1)])
      let ?key = "make_nonce_key GaslessKeyUserNonce (md_fid d)"
      consider "check_and_set_nonce (reads m) ?key (ka_nonce b) txn = (Inr (), txn_put txn ?key (u32_to_be (ka_nonce b)))"
        | e where "check_and_set_nonce (reads m) ?key (ka_nonce b) txn = (Inl e, txn)"
        using set_nonce_cases by blast
      then show ?thesis
      proof cases
        case 1
        then have nonce: "check_and_set_user_nonce (reads m) (md_fid d) (ka_nonce b) txn = (Inr (), txn_put txn ?key (u32_to_be (ka_nonce b)))"
          by (simp add: check_and_set_user_nonce_def)
        from merge_key_add_accepts[OF rd d b c nonce] run
        obtain ev where "r = Inr ev" "ev_id ev = 0" "overlay m txn' = (let rows = key_added bc msg d b (vk_request_fid verified) (overlay m txn) in
           if prior = None then rows(make_gasless_key_count_by_fid_key (md_fid d) \<mapsto>
             u32_to_be (projr (get_gasless_key_count (reads m) txn (md_fid d)) + 1)) else rows)" by auto
        with c d b len nonce show ?thesis by auto
      next
        case 2
        with run show ?thesis
          by (cases e) (auto simp: merge_key_add_def d b c rd of_action_def check_and_set_user_nonce_def bind_st_def)
      qed
    qed
  qed
qed

lemma authorize_key_remove_cases:
  assumes "os_read os = reads m"
  shows "(\<exists>p f. (p = GaslessKeyUserNonce \<or> p = GaslessKeyAppNonce)
       \<and> authorize_key_remove env os msg fid b g txn = (Inr (), txn_put txn (make_nonce_key p f) (u32_to_be (kr_nonce b))))
     \<or> (\<exists>e. authorize_key_remove env os msg fid b g txn = (Inl e, txn))"
proof -
  have nonce: "of_action StoreError (check_and_set_nonce (reads m) (make_nonce_key p f) n) txn = (Inr (), txn_put txn (make_nonce_key p f) (u32_to_be n))
      \<or> (\<exists>e. of_action StoreError (check_and_set_nonce (reads m) (make_nonce_key p f) n) txn = (Inl e, txn))" for p f n
    using set_nonce_cases[of m "make_nonce_key p f" n txn] by (auto simp: of_action_def of_res_def)
  show ?thesis
  proof (cases "try_key_remove_signature_type (kr_signature_type b)")
    case (Inr sig)
    show ?thesis
    proof (cases sig)
      case Custody
      show ?thesis
        using nonce[of GaslessKeyUserNonce fid "kr_nonce b"] Inr Custody
        by (cases "recover_key_remove_custody_address env fid b 1"; cases "custody_address os txn fid MissingFid")
          (auto simp: authorize_key_remove_def of_checked_def require_def fail_with_def check_and_set_user_nonce_def assms)
    next
      case SelfRevoke
      then show ?thesis
        using nonce[of GaslessKeyAppNonce "gk_request_fid g" "kr_nonce b"] Inr
        by (auto simp: authorize_key_remove_def of_checked_def require_def fail_with_def check_and_set_app_nonce_def assms)
    qed
  qed (simp add: authorize_key_remove_def of_checked_def)
qed

definition key_removed :: "bytes \<Rightarrow> bytes \<Rightarrow> (bytes \<rightharpoonup> bytes) \<Rightarrow> (bytes \<rightharpoonup> bytes)" where
  "key_removed f k rows = rows(gasless_key GaslessKeyByFid (f @ k) := None, gasless_key GaslessKeyByPublicKey k := None,
     gasless_key GaslessKeyLastUsedAt (f @ k) := None)"

lemma decrement_le_1: "(if n = 0 then 0 else n - 1) = 0 \<longleftrightarrow> n \<le> (1 :: u32)"
proof -
  have "n < 1 \<longleftrightarrow> n = 0" by (simp add: word_less_nat_alt unat_eq_zero)
  then show ?thesis by (auto simp: order.order_iff_strict)
qed

lemma merge_key_remove_cases:
  assumes rd: "os_read os = reads m" and run: "merge_key_remove env bc os msg txn = (r, txn')"
    and cnt: "\<forall>fid. \<exists>n. get_gasless_key_count (reads m) txn fid = Inr n"
  shows "(\<exists>e. r = Inl e \<and> txn' = txn) \<or>
    (\<exists>d b p f n. m_data msg = Some d \<and> md_body d = Some (KeyRemoveBody b) \<and> length (kr_key b) = 32
       \<and> overlay m txn (gasless_key GaslessKeyByFid (make_fid_key (md_fid d) @ kr_key b)) \<noteq> None
       \<and> isl r = False \<and> (p = GaslessKeyUserNonce \<or> p = GaslessKeyAppNonce)
       \<and> get_gasless_key_count (reads m) txn (md_fid d) = Inr n
       \<and> overlay m txn' = (key_removed (make_fid_key (md_fid d)) (kr_key b) ((overlay m txn)(make_nonce_key p f \<mapsto> u32_to_be (kr_nonce b))))
            (make_gasless_key_count_by_fid_key (md_fid d) := (if n \<le> 1 then None else Some (u32_to_be (n - 1)))))"
proof (cases "m_data msg")
  case None
  with run show ?thesis by (auto simp: merge_key_remove_def fail_with_def)
next
  case d: (Some d)
  show ?thesis
  proof (cases "\<exists>b. md_body d = Some (KeyRemoveBody b)")
    case False
    with run d show ?thesis by (auto simp: merge_key_remove_def fail_with_def split: option.splits message_body.splits)
  next
    case True
    then obtain b where b: "md_body d = Some (KeyRemoveBody b)" ..
    show ?thesis
    proof (cases "and_then (of_res StoreError (get_gasless_key_record bc (reads m) txn (md_fid d) (kr_key b)))
        (\<lambda>r. or_fail r (MessageInvalid (Signers KeyNotRegistered)))")
      case (Inl e)
      with run d b rd show ?thesis by (auto simp: merge_key_remove_def)
    next
      case g: (Inr g)
      then have gk: "get_gasless_key_record bc (reads m) txn (md_fid d) (kr_key b) = Inr (Some g)" by simp
      then have len: "length (kr_key b) = 32"
        by (auto simp: get_gasless_key_record_def make_gasless_key_by_fid_key_def bind_res_eq_Inr)
      from gk have row: "overlay m txn (gasless_key GaslessKeyByFid (make_fid_key (md_fid d) @ kr_key b)) \<noteq> None"
        by (auto simp: get_gasless_key_record_def gasless_row_keys[OF len] split: option.splits)
      from authorize_key_remove_cases[OF rd, of env msg "md_fid d" b g txn] consider
          p f where "p = GaslessKeyUserNonce \<or> p = GaslessKeyAppNonce"
            "authorize_key_remove env os msg (md_fid d) b g txn = (Inr (), txn_put txn (make_nonce_key p f) (u32_to_be (kr_nonce b)))"
        | e where "authorize_key_remove env os msg (md_fid d) b g txn = (Inl e, txn)" by metis
      then show ?thesis
      proof cases
        case 1
        from cnt obtain n where n: "get_gasless_key_count (reads m) txn (md_fid d) = Inr n" by blast
        let ?c = "make_gasless_key_count_by_fid_key (md_fid d)"
        define t where "t = txn_delete (txn_delete (txn_delete (txn_put txn (make_nonce_key p f) (u32_to_be (kr_nonce b)))
          (gasless_key GaslessKeyByFid (make_fid_key (md_fid d) @ kr_key b))) (gasless_key GaslessKeyByPublicKey (kr_key b)))
          (gasless_key GaslessKeyLastUsedAt (make_fid_key (md_fid d) @ kr_key b))"
        have rows: "overlay m t = key_removed (make_fid_key (md_fid d)) (kr_key b) ((overlay m txn)(make_nonce_key p f \<mapsto> u32_to_be (kr_nonce b)))"
          by (simp add: t_def key_removed_def)
        have "get_gasless_key_count (reads m) t (md_fid d) = Inr n"
          using n 1(1) by (auto simp: get_gasless_key_count_def read_u32_row_cases rows key_removed_def)
        then have "decrement_gasless_key_count (reads m) (md_fid d) t = (Inr (), if n \<le> 1 then txn_delete t ?c else txn_put t ?c (u32_to_be (n - 1)))"
          using decrement_le_1[of n] by (auto simp: decrement_gasless_key_count_def Let_def)
        with run have "isl r = False" "txn' = (if n \<le> 1 then txn_delete t ?c else txn_put t ?c (u32_to_be (n - 1)))"
          by (auto simp: merge_key_remove_def d b rd bind_st_def g 1(2) of_action_def gasless_writes[OF len] t_def)
        with rows d b len row n 1(1) show ?thesis
          by (intro disjI2 exI[of _ d] exI[of _ b] exI[of _ p] exI[of _ f] exI[of _ n]) auto
      next
        case 2
        with run d b rd g show ?thesis by (auto simp: merge_key_remove_def bind_st_def)
      qed
    qed
  qed
qed

section \<open>The indices move together\<close>

definition keys_of :: "(bytes \<rightharpoonup> bytes) \<Rightarrow> bytes \<Rightarrow> bytes set" where
  "keys_of rows f = {k. length k = 32 \<and> rows (gasless_key GaslessKeyByFid (f @ k)) \<noteq> None}"

text \<open>
  Every key has at most one owner, the record and the time of last use exist exactly for the owner, and the
  counter is the number of records, which is at most the cap.
\<close>

definition indices_agree :: "(bytes \<rightharpoonup> bytes) \<Rightarrow> bool" where
  "indices_agree rows \<longleftrightarrow> (\<forall>f k. length f = 4 \<and> length k = 32 \<longrightarrow>
       (rows (gasless_key GaslessKeyByFid (f @ k)) \<noteq> None \<longleftrightarrow> rows (gasless_key GaslessKeyByPublicKey k) = Some f)
     \<and> (rows (gasless_key GaslessKeyLastUsedAt (f @ k)) \<noteq> None \<longleftrightarrow> rows (gasless_key GaslessKeyByFid (f @ k)) \<noteq> None)
     \<and> (\<forall>v. rows (gasless_key GaslessKeyByPublicKey k) = Some v \<or> rows (gasless_key GaslessKeyLastUsedAt (f @ k)) = Some v \<longrightarrow> length v = 4))"

lemma indices_agreeD:
  assumes "indices_agree rows" "length f = 4" "length k = 32"
  shows "rows (gasless_key GaslessKeyByFid (f @ k)) \<noteq> None \<longleftrightarrow> rows (gasless_key GaslessKeyByPublicKey k) = Some f"
    and "rows (gasless_key GaslessKeyLastUsedAt (f @ k)) \<noteq> None \<longleftrightarrow> rows (gasless_key GaslessKeyByPublicKey k) = Some f"
    and "rows (gasless_key GaslessKeyByPublicKey k) = Some v \<Longrightarrow> length v = 4"
    and "rows (gasless_key GaslessKeyLastUsedAt (f @ k)) = Some v \<Longrightarrow> length v = 4"
  using assms unfolding indices_agree_def by blast+

definition counts_agree :: "(bytes \<rightharpoonup> bytes) \<Rightarrow> bool" where
  "counts_agree rows \<longleftrightarrow> (\<forall>fid. let K = keys_of rows (make_fid_key fid) in finite K \<and> card K \<le> 1000
     \<and> rows (make_gasless_key_count_by_fid_key fid) = (if card K = 0 then None else Some (u32_to_be (of_nat (card K)))))"

definition gasless_consistent :: "(bytes \<rightharpoonup> bytes) \<Rightarrow> bool" where
  "gasless_consistent rows \<longleftrightarrow> indices_agree rows \<and> counts_agree rows"

lemma gasless_count_value:
  assumes "gasless_consistent (overlay m txn)"
  shows "get_gasless_key_count (reads m) txn fid = Inr (of_nat (card (keys_of (overlay m txn) (make_fid_key fid))))"
  using assms by (auto simp: gasless_consistent_def counts_agree_def Let_def get_gasless_key_count_def read_u32_row_cases)

lemma count_key_inject [simp]: "make_gasless_key_count_by_fid_key a = make_gasless_key_count_by_fid_key b \<longleftrightarrow> make_fid_key a = make_fid_key b"
  by (simp add: make_gasless_key_count_by_fid_key_def)

lemma unat_small: "n \<le> 1000 \<Longrightarrow> unat (of_nat n :: u32) = n"
  by (simp add: unat_of_nat)

lemma of_nat_u32_bounds: "c \<le> 1000 \<Longrightarrow> (of_nat c :: u32) \<le> 1 \<longleftrightarrow> c \<le> 1" "c \<le> 1000 \<Longrightarrow> (of_nat c :: u32) < 1000 \<longleftrightarrow> c < 1000"
  by (simp_all add: word_le_nat_alt word_less_nat_alt unat_small)

lemma indices_after_add:
  assumes "indices_agree rows" "length k = 32" "length f = 4"
    and "rows (gasless_key GaslessKeyByPublicKey k) = None \<or> rows (gasless_key GaslessKeyByPublicKey k) = Some f"
  shows "indices_agree (rows(make_nonce_key GaslessKeyUserNonce fid \<mapsto> a, gasless_key GaslessKeyByFid (f @ k) \<mapsto> b,
    gasless_key GaslessKeyByPublicKey k \<mapsto> f, gasless_key GaslessKeyLastUsedAt (f @ k) \<mapsto> u32_to_be ts))"
  (is "indices_agree ?rows")
proof -
  have "(?rows (gasless_key GaslessKeyByFid (f' @ k')) \<noteq> None \<longleftrightarrow> ?rows (gasless_key GaslessKeyByPublicKey k') = Some f')
     \<and> (?rows (gasless_key GaslessKeyLastUsedAt (f' @ k')) \<noteq> None \<longleftrightarrow> ?rows (gasless_key GaslessKeyByFid (f' @ k')) \<noteq> None)
     \<and> (\<forall>v. ?rows (gasless_key GaslessKeyByPublicKey k') = Some v \<or> ?rows (gasless_key GaslessKeyLastUsedAt (f' @ k')) = Some v \<longrightarrow> length v = 4)"
    if "length f' = 4" "length k' = 32" for f' k'
    using indices_agreeD[OF assms(1) that] assms(2-4) that
    by (cases "k' = k"; cases "f' = f") (auto simp: make_nonce_key_def)
  then show ?thesis unfolding indices_agree_def by blast
qed

lemma indices_after_remove:
  assumes "indices_agree rows" "length k = 32" "length f = 4" "rows (gasless_key GaslessKeyByFid (f @ k)) \<noteq> None"
    and "p = GaslessKeyUserNonce \<or> p = GaslessKeyAppNonce"
  shows "indices_agree (key_removed f k (rows(make_nonce_key p fid \<mapsto> a)))"
  (is "indices_agree ?rows")
proof -
  have own: "rows (gasless_key GaslessKeyByPublicKey k) = Some f" using indices_agreeD(1)[OF assms(1,3,2)] assms(4) by simp
  have "(?rows (gasless_key GaslessKeyByFid (f' @ k')) \<noteq> None \<longleftrightarrow> ?rows (gasless_key GaslessKeyByPublicKey k') = Some f')
     \<and> (?rows (gasless_key GaslessKeyLastUsedAt (f' @ k')) \<noteq> None \<longleftrightarrow> ?rows (gasless_key GaslessKeyByFid (f' @ k')) \<noteq> None)
     \<and> (\<forall>v. ?rows (gasless_key GaslessKeyByPublicKey k') = Some v \<or> ?rows (gasless_key GaslessKeyLastUsedAt (f' @ k')) = Some v \<longrightarrow> length v = 4)"
    if "length f' = 4" "length k' = 32" for f' k'
    using indices_agreeD[OF assms(1) that] assms(2,3,5) that own
    by (cases "k' = k"; cases "f' = f") (auto simp: make_nonce_key_def key_removed_def)
  then show ?thesis unfolding indices_agree_def by blast
qed

lemma indices_agree_count [simp]: "indices_agree (rows(make_gasless_key_count_by_fid_key fid := v)) = indices_agree rows"
  by (simp add: indices_agree_def make_gasless_key_count_by_fid_key_def)

lemma keys_of_count [simp]: "keys_of (rows(make_gasless_key_count_by_fid_key fid := v)) f = keys_of rows f"
  by (simp add: keys_of_def make_gasless_key_count_by_fid_key_def)

lemma keys_of_added:
  assumes "length (ka_key b) = 32" "length f = 4"
  shows "keys_of (key_added bc msg d b request rows) f = (if f = make_fid_key (md_fid d) then insert (ka_key b) (keys_of rows f) else keys_of rows f)"
  using assms by (auto simp: keys_of_def key_added_def make_nonce_key_def)

lemma keys_of_removed:
  assumes "p = GaslessKeyUserNonce \<or> p = GaslessKeyAppNonce" "length f = 4" "length f' = 4"
  shows "keys_of (key_removed f k (rows(make_nonce_key p fid \<mapsto> a))) f' = (if f' = f then keys_of rows f' - {k} else keys_of rows f')"
  using assms by (auto simp: keys_of_def key_removed_def make_nonce_key_def)

lemma counts_after:
  assumes "counts_agree rows" "\<forall>f. length f = 4 \<longrightarrow> f \<noteq> make_fid_key fid \<longrightarrow> keys_of rows' f = keys_of rows f"
    and "finite (keys_of rows' (make_fid_key fid))" "card (keys_of rows' (make_fid_key fid)) \<le> 1000"
    and "\<forall>fid'. rows' (make_gasless_key_count_by_fid_key fid') = (if make_fid_key fid' = make_fid_key fid
      then (if card (keys_of rows' (make_fid_key fid)) = 0 then None else Some (u32_to_be (of_nat (card (keys_of rows' (make_fid_key fid))))))
      else rows (make_gasless_key_count_by_fid_key fid'))"
  shows "counts_agree rows'"
proof -
  have "let K = keys_of rows' (make_fid_key g) in finite K \<and> card K \<le> 1000
     \<and> rows' (make_gasless_key_count_by_fid_key g) = (if card K = 0 then None else Some (u32_to_be (of_nat (card K))))" for g
  proof (cases "make_fid_key g = make_fid_key fid")
    case True
    then show ?thesis using assms(3,4,5) by (simp add: Let_def)
  next
    case False
    then have "keys_of rows' (make_fid_key g) = keys_of rows (make_fid_key g)" using assms(2) by simp
    then show ?thesis using assms(1,5) False by (simp add: counts_agree_def Let_def)
  qed
  then show ?thesis unfolding counts_agree_def by blast
qed

lemma consistent_after_add:
  assumes con: "gasless_consistent (overlay m txn)" and rd: "os_read os = reads m"
    and len: "length (ka_key b) = 32" and c: "check_key_add env bc os replay (md_fid d) ts b txn = Inr (verified, prior)"
    and rows: "overlay m txn' = (let rows = key_added bc msg d b (vk_request_fid verified) (overlay m txn) in
           if prior = None then rows(make_gasless_key_count_by_fid_key (md_fid d) \<mapsto>
             u32_to_be (projr (get_gasless_key_count (reads m) txn (md_fid d)) + 1)) else rows)"
  shows "gasless_consistent (overlay m txn')"
proof -
  let ?f = "make_fid_key (md_fid d)" and ?o = "overlay m txn"
  note prior = check_key_add_prior[OF c rd]
  note own = prior_gasless_record_cases[OF prior(1)]
  have agree: "indices_agree ?o" "counts_agree ?o" using con by (simp_all add: gasless_consistent_def)
  have ind: "indices_agree (key_added bc msg d b (vk_request_fid verified) ?o)"
    unfolding key_added_def by (rule indices_after_add[OF agree(1) len]) (use own(2,3) in auto)
  let ?K = "keys_of ?o ?f"
  have K: "finite ?K" "card ?K \<le> 1000" using agree(2) by (simp_all add: counts_agree_def Let_def)
  have mem: "ka_key b \<in> ?K \<longleftrightarrow> prior \<noteq> None"
    using indices_agreeD(1)[OF agree(1) _ len, of ?f] own(2,3) len by (cases prior) (auto simp: keys_of_def)
  note cnt = gasless_count_value[OF con, of "md_fid d"]
  have keys: "keys_of (overlay m txn') f = (if f = ?f then insert (ka_key b) ?K else keys_of ?o f)" if "length f = 4" for f
    using that by (cases prior) (simp_all add: rows Let_def keys_of_added[OF len])
  have room: "card ?K < 1000" if "prior = None" using prior(2)[OF that] cnt of_nat_u32_bounds(2)[OF K(2)] by simp
  have "counts_agree (overlay m txn')"
  proof (rule counts_after[OF agree(2), where fid = "md_fid d"])
    show "\<forall>f. length f = 4 \<longrightarrow> f \<noteq> ?f \<longrightarrow> keys_of (overlay m txn') f = keys_of ?o f" using keys by simp
    show "finite (keys_of (overlay m txn') ?f)" using keys K(1) by simp
    show "card (keys_of (overlay m txn') ?f) \<le> 1000" using keys[of ?f] K mem room by (cases prior) (auto simp: insert_absorb)
    show "\<forall>fid'. overlay m txn' (make_gasless_key_count_by_fid_key fid') = (if make_fid_key fid' = ?f
      then (if card (keys_of (overlay m txn') ?f) = 0 then None else Some (u32_to_be (of_nat (card (keys_of (overlay m txn') ?f)))))
      else ?o (make_gasless_key_count_by_fid_key fid'))"
    proof (cases prior)
      case None
      then have "card (keys_of (overlay m txn') ?f) = Suc (card ?K)" using keys[of ?f] mem K(1) by simp
      then show ?thesis using None cnt by (auto simp: rows Let_def key_added_def add.commute)
    next
      case (Some r)
      then have "keys_of (overlay m txn') ?f = ?K" using keys[of ?f] mem by (simp add: insert_absorb)
      moreover have "?o (make_gasless_key_count_by_fid_key fid') = (if card ?K = 0 then None else Some (u32_to_be (of_nat (card ?K))))"
        if "make_fid_key fid' = ?f" for fid'
        using agree(2) that by (simp add: counts_agree_def Let_def make_gasless_key_count_by_fid_key_def)
      ultimately show ?thesis using Some by (auto simp: rows Let_def key_added_def)
    qed
  qed
  with ind show ?thesis by (simp add: gasless_consistent_def rows Let_def)
qed

lemma consistent_after_remove:
  assumes con: "gasless_consistent (overlay m txn)"
    and len: "length k = 32" and row: "overlay m txn (gasless_key GaslessKeyByFid (make_fid_key fid @ k)) \<noteq> None"
    and p: "p = GaslessKeyUserNonce \<or> p = GaslessKeyAppNonce" and cnt: "get_gasless_key_count (reads m) txn fid = Inr n"
    and rows: "overlay m txn' = (key_removed (make_fid_key fid) k ((overlay m txn)(make_nonce_key p g \<mapsto> a)))
            (make_gasless_key_count_by_fid_key fid := (if n \<le> 1 then None else Some (u32_to_be (n - 1))))"
  shows "gasless_consistent (overlay m txn')"
proof -
  let ?f = "make_fid_key fid" and ?o = "overlay m txn"
  have agree: "indices_agree ?o" "counts_agree ?o" using con by (simp_all add: gasless_consistent_def)
  have ind: "indices_agree (overlay m txn')"
    unfolding rows using indices_after_remove[OF agree(1) len _ row p] by simp
  let ?K = "keys_of ?o ?f"
  have K: "finite ?K" "card ?K \<le> 1000" using agree(2) by (simp_all add: counts_agree_def Let_def)
  have mem: "k \<in> ?K" using row len by (simp add: keys_of_def)
  then have pos: "0 < card ?K" using K(1) card_gt_0_iff by blast
  have n: "n = of_nat (card ?K)" using cnt gasless_count_value[OF con, of fid] by simp
  have keys: "keys_of (overlay m txn') f = (if f = ?f then ?K - {k} else keys_of ?o f)" if "length f = 4" for f
    using keys_of_removed[OF p _ that] by (simp add: rows)
  have card: "card (keys_of (overlay m txn') ?f) = card ?K - 1" using keys[of ?f] mem K(1) by simp
  have "counts_agree (overlay m txn')"
  proof (rule counts_after[OF agree(2), where fid = fid])
    show "\<forall>f. length f = 4 \<longrightarrow> f \<noteq> ?f \<longrightarrow> keys_of (overlay m txn') f = keys_of ?o f" using keys by simp
    show "finite (keys_of (overlay m txn') ?f)" using keys[of ?f] K(1) by simp
    show "card (keys_of (overlay m txn') ?f) \<le> 1000" using card K(2) by simp
    have other: "overlay m txn' (make_gasless_key_count_by_fid_key fid') = (if make_fid_key fid' = ?f
      then (if n \<le> 1 then None else Some (u32_to_be (n - 1))) else ?o (make_gasless_key_count_by_fid_key fid'))" for fid'
      using p by (auto simp: rows key_removed_def)
    have "n - 1 = of_nat (card ?K - 1)" using n pos by (simp add: of_nat_diff)
    then show "\<forall>fid'. overlay m txn' (make_gasless_key_count_by_fid_key fid') = (if make_fid_key fid' = ?f
      then (if card (keys_of (overlay m txn') ?f) = 0 then None else Some (u32_to_be (of_nat (card (keys_of (overlay m txn') ?f)))))
      else ?o (make_gasless_key_count_by_fid_key fid'))"
      using n of_nat_u32_bounds(1)[OF K(2)] pos by (auto simp: other card)
  qed
  with ind show ?thesis by (simp add: gasless_consistent_def)
qed

end
