(* ===== verification/Gasless_Spec.thy ===== *)
theory Gasless_Spec
  imports Gasless_Indices Account_Spec
begin

text \<open>
  Properties of the keys that accounts add and remove by messages: the indices agree, an added key admits
  exactly the message types it names, and the deadline of a custody signature is not enforced.
\<close>

text \<open>
  C31: Merging a message that adds or removes a gasless key keeps the indices of all keys in step (one owner per
  key, a record and a time of last use exactly for the owner, a counter that is the number of records and at
  most 1000), and a message that is refused leaves the batch as it was.
\<close>

theorem gasless_indices_agree:
  assumes "os_read os = reads m" "gasless_consistent (overlay m txn)"
    and "merge_key_add env bc os msg replay txn = (r, txn') \<or> merge_key_remove env bc os msg txn = (r, txn')"
  shows "gasless_consistent (overlay m txn') \<and> (isl r \<longrightarrow> txn' = txn)"
  using assms(3)
proof
  assume run: "merge_key_add env bc os msg replay txn = (r, txn')"
  show ?thesis using merge_key_add_cases[OF assms(1) run]
    by (elim disjE exE conjE) (use assms(2) in simp, blast intro: consistent_after_add[OF assms(2,1)])
next
  assume run: "merge_key_remove env bc os msg txn = (r, txn')"
  have cnt: "\<forall>fid. \<exists>n. get_gasless_key_count (reads m) txn fid = Inr n" using gasless_count_value[OF assms(2)] by blast
  show ?thesis using merge_key_remove_cases[OF assms(1) run cnt]
    by (elim disjE exE conjE) (use assms(2) in simp, (blast intro: consistent_after_remove[OF assms(2)])+)
qed

section \<open>A registered account for the witnesses\<close>

definition registration :: onchain_event where
  "registration = \<lparr>oe_type = 3, oe_chain_id = 10, oe_block_number = 1, oe_block_hash = [], oe_block_timestamp = 1, oe_transaction_hash = [],
     oe_log_index = 0, oe_fid = 5, oe_body = Some (IdRegisterEventBody \<lparr>ir_to = replicate 20 9, ir_event_type = 1, ir_from = [],
     ir_recovery_address = []\<rparr>), oe_tx_index = 0, oe_version = 0\<rparr>"

definition registered_batch :: txn_batch where
  "registered_batch = [(make_id_register_by_fid_key 5, Some [rp_u8 Rp_OnChainEvent]), ([rp_u8 Rp_OnChainEvent], Some [1])]"

definition registered_store :: "(bytes \<times> bytes) list onchain_store" where
  "registered_store = \<lparr>os_ops = list_engine, os_db = Some (TransactionDb []), os_opts = default_store_options,
     os_codec = (sample_codec [])\<lparr>dec_onchain_event := (\<lambda>_. Inr registration)\<rparr>\<rparr>"

definition custody_rules :: validation_env where
  "custody_rules = \<lparr>ve_codec = sample_codec [], ve_hash32 = (\<lambda>_. replicate 32 1), ve_signature_ok = (\<lambda>s. length s = 64),
     ve_public_key_ok = (\<lambda>k. length k = 32), ve_verify_strict = (\<lambda>_ _ _. True), ve_is_match = (\<lambda>_ _. Some True),
     ve_captures = (\<lambda>_ _. Some None), ve_eth_from_hex = (\<lambda>_. None), ve_eth_checksum = (\<lambda>a. a), ve_bs58_decode = Some,
     ve_bs58_encode = (\<lambda>a. a), ve_hex = (\<lambda>a. a), ve_typed_data_ok = (\<lambda>_. True), ve_signing_hash = (\<lambda>_. Some []),
     ve_recover = (\<lambda>_ _ _. Some (replicate 20 9)), ve_abi_signed_key_request = (\<lambda>_. Some (5, replicate 20 9, replicate 65 27, 1000))\<rparr>"

definition sample_key_add :: key_add_body where
  "sample_key_add = \<lparr>ka_key = replicate 32 4, ka_key_type = 1, ka_custody_signature = replicate 65 27, ka_deadline = 50, ka_nonce = 1,
     ka_metadata = [1], ka_metadata_type = 1, ka_registration_tx_hash = [], ka_scopes = [1, 2], ka_ttl = 3600\<rparr>"

definition sample_add_data :: "u32 \<Rightarrow> message_data" where
  "sample_add_data ts = default_data\<lparr>md_fid := 5, md_timestamp := ts, md_body := Some (KeyAddBody sample_key_add)\<rparr>"

definition sample_add :: "u32 \<Rightarrow> message" where
  "sample_add ts = default_message\<lparr>m_data := Some (sample_add_data ts)\<rparr>"

definition one_record_codec :: "u32 \<Rightarrow> block_codec" where
  "one_record_codec ts = \<lparr>enc_block_event = (\<lambda>_. []), dec_block_event = (\<lambda>_. Inl []), enc_shard_chunk = (\<lambda>_. []), dec_shard_chunk = (\<lambda>_. Inl []),
     enc_gasless_key = (\<lambda>g. replicate (unat (gk_request_fid g)) 0),
     dec_gasless_key = (\<lambda>bs. Inr \<lparr>gk_message = Some (sample_add ts), gk_request_fid = word_of_nat (length bs)\<rparr>)\<rparr>"

lemma registered_read: "os_read registered_store = reads Map.empty"
  using db_get_reads[OF list_engine_laws hm_ok_Nil] by (simp add: os_read_def registered_store_def)

lemma registered_rows:
  "overlay Map.empty registered_batch = [make_id_register_by_fid_key 5 \<mapsto> [rp_u8 Rp_OnChainEvent], [rp_u8 Rp_OnChainEvent] \<mapsto> [1]]"
  by (auto simp: overlay_def registered_batch_def fun_eq_iff make_id_register_by_fid_key_def)

lemma registered_other:
  "overlay Map.empty registered_batch (gasless_key p x) = None"
  "overlay Map.empty registered_batch (make_nonce_key p fid) = None"
  "overlay Map.empty registered_batch (make_gasless_key_count_by_fid_key fid) = None"
  "overlay Map.empty registered_batch (make_signer_onchain_event_by_signer_key fid key) = None"
  by (simp_all add: registered_rows make_id_register_by_fid_key_def gasless_key_def make_nonce_key_def make_gasless_key_count_by_fid_key_def
      make_signer_onchain_event_by_signer_key_def)

lemma registered_consistent: "gasless_consistent (overlay Map.empty registered_batch)"
  by (simp add: gasless_consistent_def indices_agree_def counts_agree_def keys_of_def registered_other)

lemma registered_codec:
  "dec_onchain_event (os_codec registered_store) bs = Inr registration"
  "oe_body registration = Some (IdRegisterEventBody \<lparr>ir_to = replicate 20 9, ir_event_type = 1, ir_from = [], ir_recovery_address = []\<rparr>)"
  by (simp_all add: registered_store_def registration_def)

lemma registered_custody: "custody_address registered_store registered_batch 5 e = Inr (replicate 20 9)"
  by (simp add: custody_address_def get_id_register_event_by_fid_def get_event_by_secondary_key_def registered_read registered_rows
      registered_codec make_id_register_by_fid_key_def)

lemma sample_request:
  "ts \<le> 1000 \<Longrightarrow> verify_signed_key_request_metadata custody_rules 1 [1] (replicate 32 4) ts 1
     = Inr \<lparr>vk_request_fid = 5, vk_request_signer = replicate 20 9, vk_deadline = 1000\<rparr>"
  by (simp add: verify_signed_key_request_metadata_def custody_rules_def recover_from_typed_data_def recover_address_def Let_def)

lemma unat_ucast_u32: "unat (ucast (x :: u32) :: u64) = unat x"
  using unsigned_less[of x, where 'a = nat] by (simp add: unsigned_ucast_eq take_bit_nat_eq_self)

lemma sample_check:
  assumes "ts \<le> 1000"
  shows "check_key_add custody_rules bc registered_store False 5 ts sample_key_add registered_batch
     = Inr (\<lparr>vk_request_fid = 5, vk_request_signer = replicate 20 9, vk_deadline = 1000\<rparr>, None)"
proof -
  have ts: "(ucast ts :: u64) \<le> 1000" using assms by (simp add: word_le_nat_alt unat_ucast_u32)
  have "get_active_signer registered_store 5 (replicate 32 4) (Some registered_batch) = Inr None"
    by (simp add: get_active_signer_def get_event_by_secondary_key_def registered_read registered_other)
  moreover have "prior_gasless_record bc (reads Map.empty) registered_batch 5 (replicate 32 4) 5 = Inr None"
    by (simp add: prior_gasless_record_def get_gasless_key_owner_fid_def gasless_row_keys registered_other)
  moreover have "get_gasless_key_count (reads Map.empty) registered_batch 5 = Inr 0"
    by (simp add: get_gasless_key_count_def read_u32_row_cases registered_other)
  moreover have "recover_key_add_custody_address custody_rules 5 sample_key_add 1 = Inr (replicate 20 9)"
    by (simp add: recover_key_add_custody_address_def custody_rules_def recover_from_typed_data_def recover_address_def sample_key_add_def)
  ultimately show ?thesis using sample_request[OF ts]
    by (simp add: check_key_add_def sample_key_add_def registered_custody registered_read)
qed

lemma sample_added:
  assumes "ts \<le> 1000"
  shows "\<exists>ev txn'. merge_key_add custody_rules bc registered_store (sample_add ts) False registered_batch = (Inr ev, txn')"
proof -
  have "check_and_set_user_nonce (reads Map.empty) 5 1 registered_batch
      = (Inr (), txn_put registered_batch (make_nonce_key GaslessKeyUserNonce 5) (u32_to_be 1))"
    by (simp add: check_and_set_user_nonce_def check_and_set_nonce_def read_u32_row_cases registered_other)
  then show ?thesis
    using merge_key_add_accepts[OF registered_read, of "sample_add ts" "sample_add_data ts" sample_key_add custody_rules bc False registered_batch]
      sample_check[OF assms] by (fastforce simp: sample_add_def sample_add_data_def sample_key_add_def)
qed

theorem gasless_indices_agree_witness:
  "\<exists>ev txn'. merge_key_add custody_rules (one_record_codec 100) registered_store (sample_add 100) False registered_batch = (Inr ev, txn')
     \<and> gasless_consistent (overlay Map.empty txn')"
  using sample_added[of 100 "one_record_codec 100"] gasless_indices_agree[OF registered_read registered_consistent] by fastforce

section \<open>What an added key may do\<close>

lemma scopes_mask_bits:
  "bit (foldl (\<lambda>mask s. if 0 \<le> s \<and> s < 64 then mask OR push_bit (nat s) 1 else mask) (a :: u64) ss) n
     \<longleftrightarrow> bit a n \<or> n < 64 \<and> int n \<in> set ss"
proof (induction ss arbitrary: a)
  case (Cons s ss)
  show ?case by (auto simp: Cons.IH bit_or_iff bit_exp_iff)
qed simp

lemma message_type_num_less: "message_type_num t < 64"
  by (cases t) simp_all

lemma admits_scopes: "admits (Gasless (compute_scopes_mask ss) ttl) t \<longleftrightarrow> int (message_type_num t) \<in> set ss"
proof -
  have "x AND push_bit n 1 \<noteq> 0 \<longleftrightarrow> bit x n" if "n < 64" for x :: u64 and n
    using that by (auto simp: bit_eq_iff[of "x AND 2 ^ n" 0] bit_and_iff bit_exp_iff)
  then show ?thesis using message_type_num_less[of t]
    by (simp add: admits_def message_type_bit_def compute_scopes_mask_def scopes_mask_bits)
qed

text \<open>The index of the on-chain signers points to on-chain rows.\<close>

definition signer_index_ok :: "(bytes \<rightharpoonup> bytes) \<Rightarrow> bool" where
  "signer_index_ok rows \<longleftrightarrow> (\<forall>fid key v. rows (make_signer_onchain_event_by_signer_key fid key) = Some v
     \<longrightarrow> v \<noteq> [] \<and> hd v = rp_u8 Rp_OnChainEvent)"

lemma active_signer_kept:
  assumes "os_read os = reads m" "signer_index_ok (overlay m txn)"
    and same: "\<forall>k. k \<noteq> [] \<and> hd k = rp_u8 Rp_OnChainEvent \<longrightarrow> overlay m txn' k = overlay m txn k"
  shows "get_active_signer os fid key (Some txn') = get_active_signer os fid key (Some txn)"
proof -
  let ?k = "make_signer_onchain_event_by_signer_key fid key"
  have k: "overlay m txn' ?k = overlay m txn ?k" using same by (simp add: make_signer_onchain_event_by_signer_key_def)
  moreover have "overlay m txn' v = overlay m txn v" if "overlay m txn ?k = Some v" for v
    using assms(2) that same unfolding signer_index_ok_def by blast
  ultimately show ?thesis
    by (cases "overlay m txn ?k") (simp_all add: get_active_signer_def get_event_by_secondary_key_def assms(1))
qed

text \<open>
  C32: A key that was added is active from then on: the lookup of the account's key gives a gasless key with the
  time to live of the message, and the key admits a message type exactly when the message lists it.
\<close>

theorem key_add_activates:
  assumes "os_read os = reads m" "signer_index_ok (overlay m txn)"
    and run: "merge_key_add env bc os msg replay txn = (Inr ev, txn')"
    and dec: "\<forall>g. gk_message g = Some msg \<longrightarrow> dec_gasless_key bc (enc_gasless_key bc g) = Inr g"
  shows "\<exists>d b mask. m_data msg = Some d \<and> md_body d = Some (KeyAddBody b)
    \<and> get_active_key bc os txn' (md_fid d) (ka_key b) = Inr (Some (Gasless mask (ka_ttl b)))
    \<and> (\<forall>t. admits (Gasless mask (ka_ttl b)) t \<longleftrightarrow> int (message_type_num t) \<in> set (ka_scopes b))"
proof -
  from merge_key_add_cases[OF assms(1) run] obtain d b verified prior where d: "m_data msg = Some d" "md_body d = Some (KeyAddBody b)"
      and len: "length (ka_key b) = 32"
      and c: "check_key_add env bc os replay (md_fid d) (md_timestamp d) b txn = Inr (verified, prior)"
      and rows: "overlay m txn' = (let rows = key_added bc msg d b (vk_request_fid verified) (overlay m txn) in
           if prior = None then rows(make_gasless_key_count_by_fid_key (md_fid d) \<mapsto>
             u32_to_be (projr (get_gasless_key_count (reads m) txn (md_fid d)) + 1)) else rows)" by auto
  have "\<forall>k. k \<noteq> [] \<and> hd k = rp_u8 Rp_OnChainEvent \<longrightarrow> overlay m txn' k = overlay m txn k"
    by (auto simp: rows Let_def key_added_def gasless_key_def make_nonce_key_def make_gasless_key_count_by_fid_key_def)
  from active_signer_kept[OF assms(1,2) this] have "get_active_signer os (md_fid d) (ka_key b) (Some txn') = Inr None"
    using c by (auto simp: check_key_add_def)
  moreover have "overlay m txn' (gasless_key GaslessKeyByFid (make_fid_key (md_fid d) @ ka_key b))
      = Some (enc_gasless_key bc \<lparr>gk_message = Some msg, gk_request_fid = vk_request_fid verified\<rparr>)"
    by (simp add: rows Let_def key_added_def gasless_count_keys(3)[symmetric])
  then have "get_gasless_key_record bc (reads m) txn' (md_fid d) (ka_key b) = Inr (Some \<lparr>gk_message = Some msg, gk_request_fid = vk_request_fid verified\<rparr>)"
    using dec by (simp add: get_gasless_key_record_def gasless_row_keys[OF len])
  ultimately have "get_active_key bc os txn' (md_fid d) (ka_key b) = Inr (Some (Gasless (compute_scopes_mask (ka_scopes b)) (ka_ttl b)))"
    using d by (simp add: get_active_key_def assms(1) extract_scope_and_ttl_def of_store_def)
  then show ?thesis using d admits_scopes by blast
qed

text \<open>
  C33: The deadline of a key's custody signature is not enforced: whether a key is added depends on the message's
  timestamp only through the deadline of the application's request. A message that was accepted is also
  accepted with any other timestamp up to that deadline, whatever its own deadline says.
\<close>

theorem key_deadline_unenforced:
  assumes "os_read os = reads m" and run: "merge_key_add env bc os msg replay txn = (Inr ev, txn')"
    and d: "m_data msg = Some d" "md_body d = Some (KeyAddBody b)"
    and v: "verify_signed_key_request_metadata env (ka_metadata_type b) (ka_metadata b) (ka_key b) (ucast ts) 1 = Inr verified"
  shows "\<exists>ev' txn''. merge_key_add env bc os (msg\<lparr>m_data := Some (d\<lparr>md_timestamp := ts\<rparr>)\<rparr>) replay txn = (Inr ev', txn'')"
proof -
  from merge_key_add_cases[OF assms(1) run] d obtain verified' prior t1
    where c: "check_key_add env bc os replay (md_fid d) (md_timestamp d) b txn = Inr (verified', prior)"
      and n: "check_and_set_user_nonce (reads m) (md_fid d) (ka_nonce b) txn = (Inr (), t1)" by auto
  from c obtain v0 where v0: "verify_signed_key_request_metadata env (ka_metadata_type b) (ka_metadata b) (ka_key b) (ucast (md_timestamp d)) 1 = Inr v0"
    by (auto simp: check_key_add_def)
  have "v0 = verified" using v v0
    by (auto simp: verify_signed_key_request_metadata_def Let_def split: if_splits option.splits sum.splits)
  then have "check_key_add env bc os replay (md_fid d) ts b txn = Inr (verified', prior)" using c v v0 by (simp add: check_key_add_def)
  then show ?thesis
    using merge_key_add_accepts[OF assms(1), of "msg\<lparr>m_data := Some (d\<lparr>md_timestamp := ts\<rparr>)\<rparr>" "d\<lparr>md_timestamp := ts\<rparr>" b] d n by fastforce
qed

theorem key_add_activates_witness:
  "\<exists>ev txn' mask. merge_key_add custody_rules (one_record_codec 100) registered_store (sample_add 100) False registered_batch = (Inr ev, txn')
     \<and> get_active_key (one_record_codec 100) registered_store txn' 5 (replicate 32 4) = Inr (Some (Gasless mask 3600))
     \<and> admits (Gasless mask 3600) CastAdd \<and> \<not> admits (Gasless mask 3600) LinkAdd"
proof -
  have dec: "\<forall>g. gk_message g = Some (sample_add 100) \<longrightarrow> dec_gasless_key (one_record_codec 100) (enc_gasless_key (one_record_codec 100) g) = Inr g"
    by (simp add: one_record_codec_def)
  have ok: "signer_index_ok (overlay Map.empty registered_batch)" by (simp add: signer_index_ok_def registered_other)
  obtain ev txn' where run: "merge_key_add custody_rules (one_record_codec 100) registered_store (sample_add 100) False registered_batch = (Inr ev, txn')"
    using sample_added[of 100 "one_record_codec 100"] by auto
  have "m_data (sample_add 100) = Some (sample_add_data 100)" "md_body (sample_add_data 100) = Some (KeyAddBody sample_key_add)"
    "md_fid (sample_add_data 100) = 5" "ka_key sample_key_add = replicate 32 4" "ka_ttl sample_key_add = 3600" "ka_scopes sample_key_add = [1, 2]"
    by (simp_all add: sample_add_def sample_add_data_def sample_key_add_def)
  with key_add_activates[OF registered_read ok run dec]
  obtain mask where "get_active_key (one_record_codec 100) registered_store txn' 5 (replicate 32 4) = Inr (Some (Gasless mask 3600))"
    "\<forall>t. admits (Gasless mask 3600) t \<longleftrightarrow> int (message_type_num t) \<in> {1, 2}" by auto
  with run show ?thesis by auto
qed

theorem key_deadline_unenforced_witness:
  "ka_deadline sample_key_add < 900
   \<and> (\<exists>ev txn'. merge_key_add custody_rules (one_record_codec 10) registered_store (sample_add 900) False registered_batch = (Inr ev, txn'))"
proof -
  obtain ev txn' where run: "merge_key_add custody_rules (one_record_codec 10) registered_store (sample_add 10) False registered_batch = (Inr ev, txn')"
    using sample_added[of 10 "one_record_codec 10"] by auto
  have "m_data (sample_add 10) = Some (sample_add_data 10)" "md_body (sample_add_data 10) = Some (KeyAddBody sample_key_add)"
    "(sample_add 10)\<lparr>m_data := Some ((sample_add_data 10)\<lparr>md_timestamp := 900\<rparr>)\<rparr> = sample_add 900"
    by (simp_all add: sample_add_def sample_add_data_def)
  with key_deadline_unenforced[OF registered_read run, of "sample_add_data 10" sample_key_add 900] sample_request[of 900]
  show ?thesis by (simp add: sample_key_add_def)
qed

end
