(* ===== verification/Trie_Keys.thy ===== *)
theory Trie_Keys
  imports Merkle_Trie Block_Data Hub_Events
begin

unbundle bit_operations_syntax

text \<open>
  The keys under which messages, on-chain events and fnames enter the trie, and what an event of a store does to
  the trie (\<open>TrieKey\<close> and \<open>update_for_event\<close> of \<open>storage/trie/merkle_trie.rs\<close>), with the routing of accounts to
  shards (\<open>mempool/routing.rs\<close>). SHA-256 is a parameter.
\<close>

section \<open>Routing\<close>

text \<open>Division by zero is a panic. The router of a message is an argument, as in the source.\<close>

definition route_fid :: "(bytes \<Rightarrow> bytes) \<Rightarrow> u64 \<Rightarrow> u32 \<Rightarrow> u32 option" where
  "route_fid sha256 fid num_shards =
     (if num_shards = 0 then None else Some (u32_from_be (take 4 (sha256 (u32_to_be (ucast fid)))) mod num_shards + 1))"

definition route_message :: "(u64 \<Rightarrow> u32 \<Rightarrow> u32 option) \<Rightarrow> message \<Rightarrow> u32 \<Rightarrow> u32 option" where
  "route_message router m num_shards =
     (if msg_type m \<in> {LendStorage, KeyAdd, KeyRemove} then Some 0 else router (message_fid m) num_shards)"

definition fid_shard :: "(bytes \<Rightarrow> bytes) \<Rightarrow> u64 \<Rightarrow> u8" where
  "fid_shard sha256 fid = ucast (the (route_fid sha256 fid 256) - 1)"

section \<open>Keys\<close>

definition for_fid :: "(bytes \<Rightarrow> bytes) \<Rightarrow> u64 \<Rightarrow> bytes" where
  "for_fid sha256 fid = fid_shard sha256 fid # make_fid_key fid"

definition for_message_type :: "(bytes \<Rightarrow> bytes) \<Rightarrow> u64 \<Rightarrow> u8 \<Rightarrow> bytes" where
  "for_message_type sha256 fid t = for_fid sha256 fid @ [push_bit 3 t]"

text \<open>A storage lend has a second key, for the borrower. No data is a panic.\<close>

definition for_message :: "(bytes \<Rightarrow> bytes) \<Rightarrow> message \<Rightarrow> bytes list option" where
  "for_message sha256 m = (case m_data m of
     None \<Rightarrow> None
   | Some d \<Rightarrow>
       (let key = (\<lambda>fid. for_message_type sha256 fid (message_type_u8 (msg_type m)) @ m_hash m)
        in Some (key (message_fid m) # (case md_body d of Some (LendStorageBody b) \<Rightarrow> [key (ls_to_fid b)] | _ \<Rightarrow> []))))"

definition for_onchain_event :: "(bytes \<Rightarrow> bytes) \<Rightarrow> onchain_event \<Rightarrow> bytes" where
  "for_onchain_event sha256 e =
     for_fid sha256 (oe_fid e) @ [word_of_int (oe_type e)] @ oe_transaction_hash e @ u32_to_be (oe_log_index e)"

abbreviation (input) USERNAME_MAX_LENGTH :: nat where "USERNAME_MAX_LENGTH \<equiv> 20"

abbreviation (input) FNAME_MESSAGE_TYPE :: u8 where "FNAME_MESSAGE_TYPE \<equiv> 7"

definition for_fname :: "(bytes \<Rightarrow> bytes) \<Rightarrow> u64 \<Rightarrow> bytes \<Rightarrow> bytes" where
  "for_fname sha256 fid name =
     for_fid sha256 fid @ [FNAME_MESSAGE_TYPE] @ name @ replicate (USERNAME_MAX_LENGTH - length name) 0"

record decoded_trie_key =
  dk_virtual_shard :: u8
  dk_fid :: u64
  dk_onchain_message_type :: "u8 option"
  dk_message_type :: "u8 option"
  dk_rest :: bytes

text \<open>The length check compares a number of bytes with a number of nibbles, so it asks for twelve bytes.\<close>

definition decode_trie_key :: "bytes \<Rightarrow> decoded_trie_key tr" where
  "decode_trie_key key =
     (if length key < UNCOMPACTED_LENGTH then Inl (Error KeyLengthTooShort)
      else let t = key ! 5 in
        Inr \<lparr>dk_virtual_shard = key ! 0, dk_fid = ucast (u32_from_be (take 4 (drop 1 key))),
             dk_onchain_message_type = (if t < 8 then Some t else None),
             dk_message_type = (if t < 8 then None else Some (drop_bit 3 t)),
             dk_rest = drop 6 key\<rparr>)"

section \<open>What an event changes\<close>

abbreviation (input) UsernameTypeFname :: i32 where "UsernameTypeFname \<equiv> 1"

definition keys_of_message :: "(bytes \<Rightarrow> bytes) \<Rightarrow> message option \<Rightarrow> bytes list option" where
  "keys_of_message sha256 m = (case m of None \<Rightarrow> Some [] | Some x \<Rightarrow> for_message sha256 x)"

fun keys_of_messages :: "(bytes \<Rightarrow> bytes) \<Rightarrow> message list \<Rightarrow> bytes list option" where
  "keys_of_messages sha256 [] = Some []"
| "keys_of_messages sha256 (m # ms) = (case for_message sha256 m of
     None \<Rightarrow> None
   | Some ks \<Rightarrow> map_option ((@) ks) (keys_of_messages sha256 ms))"

text \<open>The key of an fname proof; a name that is not UTF-8 is a panic.\<close>

definition keys_of_fname :: "(bytes \<Rightarrow> bytes) \<Rightarrow> (user_name_proof \<Rightarrow> bool) \<Rightarrow> user_name_proof option \<Rightarrow> bytes list option" where
  "keys_of_fname sha256 wanted proof = (case proof of
     None \<Rightarrow> Some []
   | Some p \<Rightarrow>
       if up_type p = UsernameTypeFname \<and> wanted p then
         (if valid_utf8 (up_name p) then Some [for_fname sha256 (up_fid p) (up_name p)] else None)
       else Some [])"

definition for_hub_event :: "(bytes \<Rightarrow> bytes) \<Rightarrow> hub_event \<Rightarrow> (bytes list \<times> bytes list) option" where
  "for_hub_event sha256 event =
     (let both = (\<lambda>i d. case (i, d) of (Some x, Some y) \<Rightarrow> Some (x, y) | _ \<Rightarrow> None)
      in case ev_body event of
        None \<Rightarrow> None
      | Some (MergeMessageBody m ds) \<Rightarrow> both (keys_of_message sha256 m) (keys_of_messages sha256 ds)
      | Some (MergeOnChainEventBody e) \<Rightarrow> Some (case e of Some x \<Rightarrow> [for_onchain_event sha256 x] | None \<Rightarrow> [], [])
      | Some (PruneMessageBody m) \<Rightarrow> both (Some []) (keys_of_message sha256 m)
      | Some (RevokeMessageBody m) \<Rightarrow> both (Some []) (keys_of_message sha256 m)
      | Some (MergeUsernameProofBody proof deleted_proof m deleted_m) \<Rightarrow>
          (case (both (keys_of_message sha256 m) (keys_of_message sha256 deleted_m),
                 both (keys_of_fname sha256 (\<lambda>p. up_fid p \<noteq> 0) proof) (keys_of_fname sha256 (\<lambda>_. True) deleted_proof)) of
             (Some (i1, d1), Some (i2, d2)) \<Rightarrow> Some (i1 @ i2, d1 @ d2)
           | _ \<Rightarrow> None)
      | Some (MergeFailureBody _ _ _) \<Rightarrow> Some ([], [])
      | Some (BlockConfirmedBody _) \<Rightarrow> Some ([], []))"

definition of_trie :: "'a tr \<Rightarrow> trie_error fault + 'a" where
  "of_trie r = map_err (\<lambda>e. case e of Error x \<Rightarrow> Fails x | Panicked \<Rightarrow> Halts Panics | OutOfFuel \<Rightarrow> Halts NoFuel) r"

type_synonym trie_state = "merkle_trie \<times> txn_batch"

text \<open>One insertion or deletion. How far a failing one got is not described: the state is then the one before it.\<close>

definition trie_step ::
  "(merkle_trie \<Rightarrow> txn_batch \<Rightarrow> bytes list \<Rightarrow> (merkle_trie \<times> txn_batch \<times> bool list) tr) \<Rightarrow> bytes \<Rightarrow> (trie_state, trie_error fault, unit) stateful" where
  "trie_step f key s = (case of_trie (f (fst s) (snd s) [key]) of
     Inl e \<Rightarrow> (Inl e, s)
   | Inr (t, txn, _) \<Rightarrow> (Inr (), (t, txn)))"

definition update_for_event :: "trie_env \<Rightarrow> (bytes \<Rightarrow> bytes) \<Rightarrow> hub_event \<Rightarrow> (trie_state, trie_error fault, unit) stateful" where
  "update_for_event env sha256 event =
     bind_st (lift_res (or_panic (for_hub_event sha256 event))) (\<lambda>(inserts, deletes).
     bind_st (each_st (trie_step (mt_insert env)) inserts) (\<lambda>_.
       each_st (trie_step (mt_delete env)) deletes))"

section \<open>The shape of a key\<close>

text \<open>The type byte fixes the length of a key, so that no key is a proper prefix of another.\<close>

definition trie_key_ok :: "bytes \<Rightarrow> bool" where
  "trie_key_ok k \<longleftrightarrow> 6 \<le> length k \<and> length k = (if k ! 5 < 7 then 42 else 26)"

lemma trie_keys_prefix_free: "\<forall>k\<in>K. trie_key_ok k \<Longrightarrow> keys_ok K"
  unfolding keys_ok_def prefix_free_def
proof (intro conjI ballI impI)
  fix x y assume K: "\<forall>k\<in>K. trie_key_ok k" "x \<in> K" "y \<in> K" "prefix x y"
  then obtain z where z: "y = x @ z" by (auto simp: prefix_def)
  have "y ! 5 = x ! 5" using K(1,2) z by (simp add: trie_key_ok_def nth_append)
  then have "length y = length x" using K by (auto simp: trie_key_ok_def)
  with z show "x = y" by simp
next
  show "6 \<le> length k" if "\<forall>k\<in>K. trie_key_ok k" "k \<in> K" for k using that by (simp add: trie_key_ok_def)
qed

lemma length_for_fid [simp]: "length (for_fid sha256 fid) = 5"
  by (simp add: for_fid_def)

lemma for_fid_type [simp]: "(for_fid sha256 fid @ t # rest) ! 5 = t"
  by (simp add: nth_append)

lemma key_shapes:
  "length h = 20 \<Longrightarrow> 1 \<le> t \<Longrightarrow> t < 32 \<Longrightarrow> trie_key_ok (for_message_type sha256 fid t @ h)"
  "length (oe_transaction_hash e) = 32 \<Longrightarrow> 1 \<le> oe_type e \<Longrightarrow> oe_type e < 7 \<Longrightarrow> trie_key_ok (for_onchain_event sha256 e)"
  "length name \<le> 20 \<Longrightarrow> trie_key_ok (for_fname sha256 fid name)"
proof -
  have "7 < push_bit 3 t" if "1 \<le> t" "t < 32" for t :: u8
  proof -
    have "1 \<le> unat t" "unat t < 32" using that by (simp_all add: word_le_nat_alt word_less_nat_alt)
    moreover have "unat (push_bit 3 t) = unat t * 8" using calculation
      by (simp add: push_bit_eq_mult unat_word_ariths mult.commute)
    ultimately show ?thesis by (simp add: word_less_nat_alt)
  qed
  then show "length h = 20 \<Longrightarrow> 1 \<le> t \<Longrightarrow> t < 32 \<Longrightarrow> trie_key_ok (for_message_type sha256 fid t @ h)"
    by (simp add: trie_key_ok_def for_message_type_def not_less order_less_imp_le)
  have "(word_of_int n :: u8) < 7" if "1 \<le> n" "n < 7" for n :: int
    using that by (simp add: word_less_def unsigned_of_int take_bit_int_eq_self)
  then show "length (oe_transaction_hash e) = 32 \<Longrightarrow> 1 \<le> oe_type e \<Longrightarrow> oe_type e < 7 \<Longrightarrow> trie_key_ok (for_onchain_event sha256 e)"
    by (simp add: trie_key_ok_def for_onchain_event_def)
  show "length name \<le> 20 \<Longrightarrow> trie_key_ok (for_fname sha256 fid name)"
    by (simp add: trie_key_ok_def for_fname_def)
qed

end
