(* ===== verification/Trie_Sync.thy ===== *)
theory Trie_Sync
  imports Trie_Keys Sample_Env Account_Spec
begin

text \<open>
  The trie follows the stores: after the updates for a sequence of events it holds exactly the keys that the
  events added and did not take away again. Renewing an fname is the case where that is not what the stores hold.
\<close>

section \<open>Events with well-formed keys\<close>

definition trie_message_ok :: "message \<Rightarrow> bool" where
  "trie_message_ok m \<longleftrightarrow> m_data m \<noteq> None \<and> length (m_hash m) = 20 \<and> msg_type m \<noteq> MessageType_None"

definition trie_proof_ok :: "user_name_proof \<Rightarrow> bool" where
  "trie_proof_ok p \<longleftrightarrow> up_type p = 1 \<longrightarrow> valid_utf8 (up_name p) \<and> length (up_name p) \<le> 20"

definition trie_event_ok :: "hub_event \<Rightarrow> bool" where
  "trie_event_ok ev = (case ev_body ev of
     None \<Rightarrow> False
   | Some (MergeMessageBody m ds) \<Rightarrow> pred_option trie_message_ok m \<and> list_all trie_message_ok ds
   | Some (MergeOnChainEventBody e) \<Rightarrow>
       pred_option (\<lambda>x. length (oe_transaction_hash x) = 32 \<and> 1 \<le> oe_type x \<and> oe_type x < 7) e
   | Some (PruneMessageBody m) \<Rightarrow> pred_option trie_message_ok m
   | Some (RevokeMessageBody m) \<Rightarrow> pred_option trie_message_ok m
   | Some (MergeUsernameProofBody p q m d) \<Rightarrow>
       pred_option trie_proof_ok p \<and> pred_option trie_proof_ok q \<and> pred_option trie_message_ok m \<and> pred_option trie_message_ok d
   | _ \<Rightarrow> True)"

lemma message_type_u8_bounds: "t \<noteq> MessageType_None \<Longrightarrow> 1 \<le> message_type_u8 t \<and> message_type_u8 t < 32"
  by (cases t) (simp_all add: message_type_u8_def)

section \<open>What an event does to the set of keys\<close>

text \<open>A message has a key for its account and, when it lends storage, one for the borrower.\<close>

definition message_keys :: "(bytes \<Rightarrow> bytes) \<Rightarrow> message \<Rightarrow> bytes set" where
  "message_keys sha256 m = (\<lambda>fid. for_message_type sha256 fid (message_type_u8 (msg_type m)) @ m_hash m) `
     insert (message_fid m) {ls_to_fid b | d b. m_data m = Some d \<and> md_body d = Some (LendStorageBody b)}"

definition fname_keys :: "(bytes \<Rightarrow> bytes) \<Rightarrow> user_name_proof \<Rightarrow> bytes set" where
  "fname_keys sha256 p = (if up_type p = 1 then {for_fname sha256 (up_fid p) (up_name p)} else {})"

text \<open>The messages, on-chain events and fnames that an event of a store adds, and those it takes away.\<close>

definition event_adds :: "(bytes \<Rightarrow> bytes) \<Rightarrow> hub_event \<Rightarrow> bytes set" where
  "event_adds sha256 ev = (case ev_body ev of
     Some (MergeMessageBody m _) \<Rightarrow> \<Union> (message_keys sha256 ` set_option m)
   | Some (MergeOnChainEventBody e) \<Rightarrow> for_onchain_event sha256 ` set_option e
   | Some (MergeUsernameProofBody p _ m _) \<Rightarrow>
       \<Union> (message_keys sha256 ` set_option m) \<union> \<Union> (fname_keys sha256 ` {x \<in> set_option p. up_fid x \<noteq> 0})
   | _ \<Rightarrow> {})"

definition event_removes :: "(bytes \<Rightarrow> bytes) \<Rightarrow> hub_event \<Rightarrow> bytes set" where
  "event_removes sha256 ev = (case ev_body ev of
     Some (MergeMessageBody _ ds) \<Rightarrow> \<Union> (message_keys sha256 ` set ds)
   | Some (PruneMessageBody m) \<Rightarrow> \<Union> (message_keys sha256 ` set_option m)
   | Some (RevokeMessageBody m) \<Rightarrow> \<Union> (message_keys sha256 ` set_option m)
   | Some (MergeUsernameProofBody _ q _ d) \<Rightarrow>
       \<Union> (message_keys sha256 ` set_option d) \<union> \<Union> (fname_keys sha256 ` set_option q)
   | _ \<Rightarrow> {})"

definition event_change :: "(bytes \<Rightarrow> bytes) \<Rightarrow> hub_event \<Rightarrow> bytes set \<Rightarrow> bytes set" where
  "event_change sha256 ev K = (K \<union> event_adds sha256 ev) - event_removes sha256 ev"

abbreviation keys_are :: "bytes list option \<Rightarrow> bytes set \<Rightarrow> bool" where
  "keys_are r K \<equiv> \<exists>ks. r = Some ks \<and> set ks = K \<and> list_all trie_key_ok ks"

lemma for_message_ok: "trie_message_ok m \<Longrightarrow> keys_are (for_message sha256 m) (message_keys sha256 m)"
  using message_type_u8_bounds[of "msg_type m"]
  by (auto simp: trie_message_ok_def for_message_def Let_def message_keys_def key_shapes(1) split: option.split message_body.split)

lemma keys_of_message_ok:
  "pred_option trie_message_ok m \<Longrightarrow> keys_are (keys_of_message sha256 m) (\<Union> (message_keys sha256 ` set_option m))"
  using for_message_ok by (cases m) (auto simp: keys_of_message_def)

lemma keys_of_messages_ok:
  "list_all trie_message_ok ms \<Longrightarrow> keys_are (keys_of_messages sha256 ms) (\<Union> (message_keys sha256 ` set ms))"
proof (induction ms)
  case (Cons m ms)
  then obtain ks where "keys_of_messages sha256 ms = Some ks" "set ks = \<Union> (message_keys sha256 ` set ms)" "list_all trie_key_ok ks"
    by auto
  moreover from Cons.prems obtain ks' where
    "for_message sha256 m = Some ks'" "set ks' = message_keys sha256 m" "list_all trie_key_ok ks'"
    using for_message_ok[of m sha256] by auto
  ultimately show ?case by simp
qed simp

lemma keys_of_fname_ok:
  "pred_option trie_proof_ok p \<Longrightarrow> keys_are (keys_of_fname sha256 w p) (\<Union> (fname_keys sha256 ` {x \<in> set_option p. w x}))"
  by (cases p) (auto simp: keys_of_fname_def trie_proof_ok_def fname_keys_def key_shapes(3))

lemma for_hub_event_ok:
  assumes "trie_event_ok ev"
  shows "\<exists>i d. for_hub_event sha256 ev = Some (i, d) \<and> set i = event_adds sha256 ev \<and> set d = event_removes sha256 ev
    \<and> list_all trie_key_ok i \<and> list_all trie_key_ok d"
proof (cases "ev_body ev")
  case (Some b)
  note defs = for_hub_event_def event_adds_def event_removes_def
  show ?thesis
  proof (cases b)
    case (MergeMessageBody m ds)
    with assms Some keys_of_message_ok[of m sha256] keys_of_messages_ok[of ds sha256] show ?thesis
      by (auto simp: trie_event_ok_def defs)
  next
    case (MergeUsernameProofBody p q m d)
    with assms Some have ok: "pred_option trie_proof_ok p" "pred_option trie_proof_ok q" "pred_option trie_message_ok m"
      "pred_option trie_message_ok d" by (simp_all add: trie_event_ok_def)
    have q: "{x \<in> set_option q. True} = set_option q" by blast
    from keys_of_message_ok[OF ok(3), of sha256] obtain i1 where
      "keys_of_message sha256 m = Some i1" "set i1 = \<Union> (message_keys sha256 ` set_option m)" "list_all trie_key_ok i1" by blast
    moreover from keys_of_message_ok[OF ok(4), of sha256] obtain d1 where
      "keys_of_message sha256 d = Some d1" "set d1 = \<Union> (message_keys sha256 ` set_option d)" "list_all trie_key_ok d1" by blast
    moreover from keys_of_fname_ok[OF ok(1), of sha256 "\<lambda>p. up_fid p \<noteq> 0"] obtain i2 where
      "keys_of_fname sha256 (\<lambda>p. up_fid p \<noteq> 0) p = Some i2" "set i2 = \<Union> (fname_keys sha256 ` {x \<in> set_option p. up_fid x \<noteq> 0})"
      "list_all trie_key_ok i2" by blast
    moreover from keys_of_fname_ok[OF ok(2), of sha256 "\<lambda>_. True"] obtain d2 where
      "keys_of_fname sha256 (\<lambda>_. True) q = Some d2" "set d2 = \<Union> (fname_keys sha256 ` set_option q)" "list_all trie_key_ok d2"
      unfolding q by blast
    ultimately show ?thesis using Some MergeUsernameProofBody by (simp add: defs)
  next
    case (PruneMessageBody m)
    with assms Some keys_of_message_ok[of m sha256] show ?thesis by (auto simp: defs trie_event_ok_def)
  next
    case (RevokeMessageBody m)
    with assms Some keys_of_message_ok[of m sha256] show ?thesis by (auto simp: defs trie_event_ok_def)
  qed (use assms Some in \<open>auto simp: defs trie_event_ok_def key_shapes(2) split: option.split\<close>)
qed (use assms in \<open>simp add: trie_event_ok_def\<close>)

section \<open>One event\<close>

lemma trie_step_insert:
  assumes "hash32 env" "trie_holds env t K" "\<forall>k\<in>K. trie_key_ok k" "trie_key_ok k"
  shows "\<exists>t' txn'. trie_step (mt_insert env) k (t, txn) = (Inr (), t', txn') \<and> trie_holds env t' (insert k K)"
proof -
  have "keys_ok (K \<union> set [k])" using assms(3,4) by (intro trie_keys_prefix_free) auto
  from mt_insert_ok[OF assms(1,2) this, of txn] obtain t' txn' rs where
    "mt_insert env t txn [k] = Inr (t', txn', rs)" "trie_holds env t' (K \<union> set [k])" by blast
  then show ?thesis by (simp add: trie_step_def of_trie_def)
qed

lemma trie_step_delete:
  assumes "hash32 env" "trie_holds env t K" "\<forall>k\<in>K. trie_key_ok k" "trie_key_ok k"
  shows "\<exists>t' txn'. trie_step (mt_delete env) k (t, txn) = (Inr (), t', txn') \<and> trie_holds env t' (K - {k})"
proof -
  have "keys_ok (K \<union> set [k])" using assms(3,4) by (intro trie_keys_prefix_free) auto
  from mt_delete_ok[OF assms(1,2) this, of txn] obtain t' txn' rs where
    "mt_delete env t txn [k] = Inr (t', txn', rs)" "trie_holds env t' (K - set [k])" by blast
  then show ?thesis by (simp add: trie_step_def of_trie_def)
qed

lemma trie_inserts:
  assumes "hash32 env" "trie_holds env t K" "\<forall>k\<in>K. trie_key_ok k" "list_all trie_key_ok ks"
  shows "\<exists>t' txn'. each_st (trie_step (mt_insert env)) ks (t, txn) = (Inr (), t', txn') \<and> trie_holds env t' (K \<union> set ks)"
  using assms(2-4)
proof (induction ks arbitrary: t txn K)
  case (Cons k ks)
  from trie_step_insert[OF assms(1) Cons.prems(1,2), of k txn] Cons.prems(3) obtain t1 txn1 where
    1: "trie_step (mt_insert env) k (t, txn) = (Inr (), t1, txn1)" "trie_holds env t1 (insert k K)" by auto
  from Cons.IH[OF 1(2), of txn1] Cons.prems obtain t' txn' where
    "each_st (trie_step (mt_insert env)) ks (t1, txn1) = (Inr (), t', txn')" "trie_holds env t' (insert k K \<union> set ks)" by auto
  then show ?case by (simp add: bind_st_def 1(1))
qed simp

lemma trie_deletes:
  assumes "hash32 env" "trie_holds env t K" "\<forall>k\<in>K. trie_key_ok k" "list_all trie_key_ok ks"
  shows "\<exists>t' txn'. each_st (trie_step (mt_delete env)) ks (t, txn) = (Inr (), t', txn') \<and> trie_holds env t' (K - set ks)"
  using assms(2-4)
proof (induction ks arbitrary: t txn K)
  case (Cons k ks)
  from trie_step_delete[OF assms(1) Cons.prems(1,2), of k txn] Cons.prems(3) obtain t1 txn1 where
    1: "trie_step (mt_delete env) k (t, txn) = (Inr (), t1, txn1)" "trie_holds env t1 (K - {k})" by auto
  from Cons.IH[OF 1(2), of txn1] Cons.prems obtain t' txn' where
    "each_st (trie_step (mt_delete env)) ks (t1, txn1) = (Inr (), t', txn')" "trie_holds env t' (K - {k} - set ks)" by auto
  then show ?case by (simp add: bind_st_def 1(1) Diff_insert2[symmetric])
qed simp

lemma update_follows:
  assumes "hash32 env" "trie_holds env t K" "\<forall>k\<in>K. trie_key_ok k" "trie_event_ok ev"
  shows "\<exists>t' txn'. update_for_event env sha256 ev (t, txn) = (Inr (), t', txn')
    \<and> trie_holds env t' (event_change sha256 ev K) \<and> (\<forall>k\<in>event_change sha256 ev K. trie_key_ok k)"
proof -
  from for_hub_event_ok[OF assms(4), of sha256] obtain i d where
    id: "for_hub_event sha256 ev = Some (i, d)" "list_all trie_key_ok i" "list_all trie_key_ok d"
      "set i = event_adds sha256 ev" "set d = event_removes sha256 ev" by blast
  from trie_inserts[OF assms(1-3) id(2), of txn] obtain t1 txn1 where
    1: "each_st (trie_step (mt_insert env)) i (t, txn) = (Inr (), t1, txn1)" "trie_holds env t1 (K \<union> set i)" by blast
  have K1: "\<forall>k\<in>K \<union> set i. trie_key_ok k" using assms(3) id(2) by (auto simp: list_all_iff)
  from trie_deletes[OF assms(1) 1(2) K1 id(3), of txn1] obtain t' txn' where
    "each_st (trie_step (mt_delete env)) d (t1, txn1) = (Inr (), t', txn')" "trie_holds env t' ((K \<union> set i) - set d)" by blast
  with K1 show ?thesis by (simp add: update_for_event_def or_panic_def event_change_def id(1) bind_st_def 1(1) flip: id(4,5))
qed

text \<open>
  C34: The trie follows the events of the stores: starting from a trie that holds the keys K, the updates for a
  sequence of well-formed events all succeed, and the trie then holds exactly the keys that result from adding,
  event by event, the keys of the messages, on-chain events and fnames that were merged and then taking away
  those of the messages and fnames that were replaced, pruned or revoked.
\<close>

theorem trie_follows_events:
  assumes "hash32 env" "trie_holds env t K" "\<forall>k\<in>K. trie_key_ok k" "\<forall>ev\<in>set evs. trie_event_ok ev"
  shows "\<exists>t' txn'. each_st (update_for_event env sha256) evs (t, txn) = (Inr (), t', txn')
    \<and> trie_holds env t' (fold (event_change sha256) evs K)"
  using assms(2-4)
proof (induction evs arbitrary: t txn K)
  case (Cons ev evs)
  have "trie_event_ok ev" using Cons.prems(3) by simp
  from update_follows[OF assms(1) Cons.prems(1,2) this, of sha256 txn] obtain t1 txn1 where
    1: "update_for_event env sha256 ev (t, txn) = (Inr (), t1, txn1)" "trie_holds env t1 (event_change sha256 ev K)"
      "\<forall>k\<in>event_change sha256 ev K. trie_key_ok k" by blast
  from Cons.IH[OF 1(2,3), of txn1] Cons.prems(3) show ?case by (simp add: bind_st_def 1(1))
qed simp

definition zero_sha :: "bytes \<Rightarrow> bytes" where
  "zero_sha x = replicate 32 0"

lemma sample_cast_keys:
  "trie_message_ok sample_cast" "trie_message_ok sample_cast_remove"
  "for_message zero_sha sample_cast = Some [for_message_type zero_sha 5 1 @ replicate 20 1]"
  "message_keys zero_sha sample_cast = {for_message_type zero_sha 5 1 @ replicate 20 1}"
  "message_keys zero_sha sample_cast_remove = {for_message_type zero_sha 5 2 @ replicate 20 2}"
  by (simp_all add: trie_message_ok_def for_message_def message_keys_def msg_type_def message_fid_def sample_cast_def sample_cast_remove_def sample_defs
      message_type_i32_def try_message_type_def message_types_def message_type_u8_def)

theorem trie_follows_events_witness:
  "\<exists>t' txn'. each_st (update_for_event (sample_env Map.empty) zero_sha)
      [default_merge_event sample_cast [], default_merge_event sample_cast_remove [sample_cast]] (empty_trie, []) = (Inr (), t', txn')
    \<and> trie_holds (sample_env Map.empty) t' {for_message_type zero_sha 5 2 @ replicate 20 2}"
proof -
  let ?evs = "[default_merge_event sample_cast [], default_merge_event sample_cast_remove [sample_cast]]"
  have "\<forall>ev\<in>set ?evs. trie_event_ok ev"
    by (simp add: default_merge_event_def new_event_def trie_event_ok_def sample_cast_keys)
  moreover have "fold (event_change zero_sha) ?evs {} = {for_message_type zero_sha 5 2 @ replicate 20 2}"
    by (auto simp: event_change_def event_adds_def event_removes_def default_merge_event_def new_event_def sample_cast_keys
        for_message_type_def for_fid_def)
  ultimately show ?thesis
    using trie_follows_events[of "sample_env Map.empty" empty_trie "{}" ?evs zero_sha "[]"] by simp
qed

section \<open>Renewing an fname\<close>

text \<open>
  C35: When an account proves again, with a newer proof, an fname it already holds, the proof is accepted and
  stored, but the index from the account to its fname loses its row, and the trie no longer holds the key of
  the fname, because the event inserts the key of the new proof and then deletes the same key for the old one.
\<close>

theorem fname_renewal_lost:
  assumes "st_read st = reads m" "get_username_proof (st_codec st) (reads m) (ss_txn s) (up_name p) = Inr (Some old)"
    and same: "up_name old = up_name p" "up_fid old = up_fid p" "up_fid p \<noteq> 0" "up_type p = 1" "up_type old = 1"
    and new: "username_proof_compare old p < 0"
    and codec: "dec_user_name_proof (st_codec st) (enc_user_name_proof (st_codec st) p) = Some p"
    and name: "valid_utf8 (up_name p)" "length (up_name p) \<le> 20" and room: "event_room 1 (ss_gen s)"
    and trie: "hash32 env" "trie_holds env t K" "\<forall>k\<in>K. trie_key_ok k"
  shows "\<exists>ev s' t' txn'. merge_username_proof st p s = (Inr ev, s')
    \<and> get_username_proof (st_codec st) (reads m) (ss_txn s') (up_name p) = Inr (Some p)
    \<and> overlay m (ss_txn s') (make_fname_username_proof_by_fid_key (up_fid p)) = None
    \<and> update_for_event env sha256 ev (t, ss_txn s') = (Inr (), t', txn')
    \<and> trie_holds env t' (K - {for_fname sha256 (up_fid p) (up_name p)})"
proof -
  let ?ev = "new_event MergeUsernameProof (MergeUsernameProofBody (Some p) (Some old) None None)"
  let ?s = "s\<lparr>ss_txn := put_username_proof_transaction (st_codec st) p (Some (up_fid old)) (ss_txn s)\<rparr>"
  have seq: "current_height (ss_gen s) < 2 ^ 50" "current_seq (ss_gen s) < 2 ^ 14" using room by (simp_all add: event_room_def word_less_nat_alt)
  have ty: "ev_type ?ev \<noteq> BlockConfirmed" by (simp add: new_event_def)
  obtain ev s' where c: "commit_transaction (st_codec st) (st_no_persist st) ?ev ?s = (Inr ev, s')"
    and ev: "ev_body ev = ev_body ?ev"
    and txn: "ss_txn s' = ss_txn ?s \<or> (\<exists>k v. ss_txn s' = txn_put (ss_txn ?s) (make_event_key k) v)"
    using commit_transaction_rows[of ?s ?ev "st_codec st" "st_no_persist st"] seq ty by auto
  have run: "merge_username_proof st p s = (Inr ev, s')"
    using c same(2,3) new assms(2) by (simp add: merge_username_proof_def assms(1) on_txn_def on_part_def bind_st_def)
  have rows: "overlay m (ss_txn s') k = overlay m (ss_txn ?s) k" if "\<forall>i. k \<noteq> make_event_key i" for k
    using txn that by auto
  have "overlay m (ss_txn s') (make_fname_username_proof_key (up_name p)) = Some (enc_user_name_proof (st_codec st) p)"
    by (simp add: rows make_event_key_def make_fname_username_proof_key_def put_username_proof_transaction_def Let_def
        make_fname_username_proof_by_fid_key_def)
  then have "get_username_proof (st_codec st) (reads m) (ss_txn s') (up_name p) = Inr (Some p)"
    by (simp add: get_username_proof_def decode_username_proof_def codec)
  moreover have "overlay m (ss_txn s') (make_fname_username_proof_by_fid_key (up_fid p)) = None"
    using same(2) by (simp add: rows make_event_key_def make_fname_username_proof_by_fid_key_def put_username_proof_transaction_def Let_def)
  moreover have "trie_event_ok ev" "event_change sha256 ev K = K - {for_fname sha256 (up_fid p) (up_name p)}"
    using ev same name
    by (auto simp: trie_event_ok_def trie_proof_ok_def new_event_def event_change_def event_adds_def event_removes_def fname_keys_def)
  ultimately show ?thesis using run update_follows[OF trie, of ev sha256 "ss_txn s'"] by fastforce
qed

definition sample_proof :: "u64 \<Rightarrow> user_name_proof" where
  "sample_proof ts = \<lparr>up_timestamp = ts, up_name = [97, 98], up_owner = [], up_signature = [], up_fid = 5, up_type = 1\<rparr>"

text \<open>A store whose batch holds the first proof and whose codec keeps the timestamp.\<close>

definition proof_codec :: proto_codec where
  "proof_codec = (sample_codec [])\<lparr>enc_user_name_proof := (\<lambda>p. replicate (unat (up_timestamp p)) 0),
     dec_user_name_proof := (\<lambda>bs. Some (sample_proof (word_of_nat (length bs))))\<rparr>"

lemma proof_codec_simps:
  "enc_user_name_proof proof_codec p = replicate (unat (up_timestamp p)) 0"
  "dec_user_name_proof proof_codec bs = Some (sample_proof (word_of_nat (length bs)))"
  by (simp_all add: proof_codec_def)

theorem fname_renewal_lost_witness:
  "\<exists>ev s' t' txn'. merge_username_proof (new_with_store_def list_engine (Some (TransactionDb [])) proof_codec False (user_data_store_def 10))
      (sample_proof 2) (sample_state\<lparr>ss_txn := [(make_fname_username_proof_key [97, 98], Some [0])]\<rparr>) = (Inr ev, s')
    \<and> update_for_event (sample_env Map.empty) zero_sha ev (empty_trie, ss_txn s') = (Inr (), t', txn')
    \<and> mt_items t' = Inr 0"
proof -
  let ?st = "new_with_store_def list_engine (Some (TransactionDb [])) proof_codec False (user_data_store_def 10)"
  let ?s = "sample_state\<lparr>ss_txn := [(make_fname_username_proof_key [97, 98], Some [0])]\<rparr>"
  have rd: "st_read ?st = reads Map.empty" "st_codec ?st = proof_codec"
    using db_get_reads[OF list_engine_laws hm_ok_Nil]
    by (simp_all add: st_read_def new_with_store_def_def new_with_store_def_ctx_def)
  have p: "up_name (sample_proof n) = [97, 98]" "up_fid (sample_proof n) = 5" "up_type (sample_proof n) = 1" for n
    by (simp_all add: sample_proof_def)
  have old: "get_username_proof (st_codec ?st) (reads Map.empty) (ss_txn ?s) (up_name (sample_proof 2)) = Inr (Some (sample_proof 1))"
    by (simp add: get_username_proof_def rd p overlay_def decode_username_proof_def proof_codec_simps)
  have new: "username_proof_compare (sample_proof 1) (sample_proof 2) < 0" by (simp add: username_proof_compare_def sample_proof_def)
  have codec: "dec_user_name_proof (st_codec ?st) (enc_user_name_proof (st_codec ?st) (sample_proof 2)) = Some (sample_proof 2)"
    by (simp add: rd proof_codec_simps sample_proof_def)
  have room: "event_room 1 (ss_gen ?s)" using sample_state_room[of 1] by simp
  have utf8: "valid_utf8 (up_name (sample_proof 2))" "length (up_name (sample_proof 2)) \<le> 20" by (simp_all add: p)
  from fname_renewal_lost[OF rd(1) old _ _ _ _ _ new codec utf8 room, of "sample_env Map.empty" empty_trie "{}" zero_sha]
  obtain ev s' t' txn' where "merge_username_proof ?st (sample_proof 2) ?s = (Inr ev, s')"
    "update_for_event (sample_env Map.empty) zero_sha ev (empty_trie, ss_txn s') = (Inr (), t', txn')"
    "trie_holds (sample_env Map.empty) t' {}" by (auto simp: p)
  then show ?thesis using mt_items_ok by fastforce
qed

section \<open>Reading a key\<close>

text \<open>
  C36: The key under which a message enters the trie can be read back: decoding it gives the virtual shard, the
  account (as the 32 bits that are stored), the message type and the hash.
\<close>

theorem trie_key_round_trip:
  assumes "m_data m = Some d" "length (m_hash m) = 20" "msg_type m \<noteq> MessageType_None"
  shows "\<exists>k ks. for_message sha256 m = Some (k # ks) \<and> decode_trie_key k =
    Inr \<lparr>dk_virtual_shard = fid_shard sha256 (md_fid d), dk_fid = ucast (ucast (md_fid d) :: u32), dk_onchain_message_type = None,
         dk_message_type = Some (message_type_u8 (msg_type m)), dk_rest = m_hash m\<rparr>"
proof -
  let ?t = "message_type_u8 (msg_type m)"
  have "\<not> push_bit 3 ?t < 8" "drop_bit 3 (push_bit 3 ?t) = ?t"
    using assms(3) by (cases "msg_type m"; simp add: message_type_u8_def)+
  then show ?thesis using assms
    by (simp add: for_message_def Let_def for_message_type_def for_fid_def message_fid_def decode_trie_key_def UNCOMPACTED_LENGTH_def
        make_fid_key_def nth_append nth_Cons')
qed

theorem trie_key_round_trip_witness:
  "\<exists>k. for_message zero_sha sample_cast = Some [k] \<and> (\<exists>r. decode_trie_key k = Inr r \<and> dk_fid r = 5 \<and> dk_rest r = replicate 20 1)"
proof -
  obtain d where "m_data sample_cast = Some d" "length (m_hash sample_cast) = 20" "msg_type sample_cast \<noteq> MessageType_None" "md_fid d = 5"
    using sample_cast_keys(1) by (auto simp: trie_message_ok_def sample_cast_def sample_defs)
  from trie_key_round_trip[OF this(1-3), of zero_sha] this(4) sample_cast_keys(3) sample_casts(9) show ?thesis by auto
qed

end
