(* ===== verification/Username_Proof_Store.thy ===== *)
theory Username_Proof_Store
  imports Account_Store
begin

text \<open>
  Username proofs that users submit as messages (\<open>storage/store/account/username_proof_store.rs\<close>): one row
  per name and account, and an index from a name to the account that holds it.
\<close>

section \<open>UsernameProofStoreDef\<close>

definition make_username_proof_by_name_key_with_prefix :: "u8 \<Rightarrow> bytes \<Rightarrow> bytes" where
  "make_username_proof_by_name_key_with_prefix root_prefix name = root_prefix # name"

definition make_username_proof_by_fid_key_with_prefix :: "u8 \<Rightarrow> u64 \<Rightarrow> bytes \<Rightarrow> bytes" where
  "make_username_proof_by_fid_key_with_prefix root_prefix fid name =
     make_user_key_with_prefix root_prefix fid @ [postfix_u8 UserNameProofAdds] @ name"

definition username_proof_make_add_key :: "message \<Rightarrow> state_context \<Rightarrow> bytes res" where
  "username_proof_make_add_key m ctx = (case m_data m of
     None \<Rightarrow> hub_err ''bad_request.validation_failure'' ''Message data is missing''
   | Some data \<Rightarrow> (case md_body data of
       Some (UsernameProofBody body) \<Rightarrow>
         Inr (make_username_proof_by_fid_key_with_prefix (ctx_root_prefix ctx Rp_User) (md_fid data) (up_name body))
     | _ \<Rightarrow> hub_err ''bad_request.validation_failure'' ''Message body is missing''))"

definition username_proof_is_add_type :: "message \<Rightarrow> bool" where
  "username_proof_is_add_type m = (case m_data m of
     None \<Rightarrow> False
   | Some data \<Rightarrow> m_signature_scheme m = SignatureScheme_Ed25519 \<and> md_type data = message_type_i32 UsernameProof
       \<and> md_body data \<noteq> None)"

definition username_proof_indices ::
  "(txn_batch \<Rightarrow> bytes \<Rightarrow> u64 \<Rightarrow> txn_batch) \<Rightarrow> string \<Rightarrow> bytes \<Rightarrow> message \<Rightarrow> state_context \<Rightarrow> (txn_batch, unit) action" where
  "username_proof_indices write body_error ts_hash m ctx = (case m_data m of
     None \<Rightarrow> lift_res (hub_err ''bad_request.validation_failure'' ''Message data is missing'')
   | Some data \<Rightarrow> (case md_body data of
       Some (UsernameProofBody body) \<Rightarrow>
         if length (up_name body) = 0 then lift_res (hub_err ''bad_request.invalid_param'' ''name empty'')
         else modify_st (\<lambda>txn. write txn
           (make_username_proof_by_name_key_with_prefix (ctx_root_prefix ctx Rp_UserNameProofByName) (up_name body)) (md_fid data))
     | _ \<Rightarrow> lift_res (hub_err ''bad_request.validation_failure'' body_error)))"

definition username_proof_build_secondary_indices :: "bytes \<Rightarrow> message \<Rightarrow> state_context \<Rightarrow> (txn_batch, unit) action" where
  "username_proof_build_secondary_indices =
     username_proof_indices (\<lambda>txn key fid. txn_put txn key (make_fid_key fid)) ''Message body is missing or incorrect''"

definition username_proof_delete_secondary_indices :: "bytes \<Rightarrow> message \<Rightarrow> state_context \<Rightarrow> (txn_batch, unit) action" where
  "username_proof_delete_secondary_indices =
     username_proof_indices (\<lambda>txn key fid. txn_delete txn key) ''Message data body is missing or incorrect''"

abbreviation username_proof_compare_hashes :: "u8 \<Rightarrow> bytes \<Rightarrow> u8 \<Rightarrow> bytes \<Rightarrow> int res" where
  "username_proof_compare_hashes \<equiv> default_message_compare (message_type_u8 UsernameProof) (message_type_u8 MessageType_None)"

text \<open>The rows it reads are those of the legacy key space, whatever the context is.\<close>

definition username_proof_merge_conflicts :: conflict_finder where
  "username_proof_merge_conflicts pc rd txn m ts_hash ctx = (case m_data m of
     None \<Rightarrow> hub_err ''bad_request.validation_failure'' ''Message data is missing''
   | Some data \<Rightarrow> (case md_body data of
       Some (UsernameProofBody body) \<Rightarrow>
         (case get_from_db_or_txn rd txn (make_username_proof_by_name_key_with_prefix (rp_u8 Rp_UserNameProofByName) (up_name body)) of
            Inr (Some fid_bytes) \<Rightarrow>
              bind_res (read_fid_key fid_bytes 0) (\<lambda>fid.
                if fid > 0 then
                  (case get_from_db_or_txn rd txn (make_username_proof_by_fid_key_with_prefix (rp_u8 Rp_User) fid (up_name body)) of
                     Inl _ \<Rightarrow> Inr []
                   | Inr existing \<Rightarrow>
                       bind_res (vec_to_u8_24 existing) (\<lambda>existing_ts_hash.
                         case get_message pc rd txn fid (postfix_u8 UsernameProofMessage) existing_ts_hash of
                           Inr (Some existing_message) \<Rightarrow>
                             bind_res (username_proof_compare_hashes (message_type_u8 UsernameProof) existing_ts_hash
                                 (message_type_u8 UsernameProof) ts_hash) (\<lambda>message_compare.
                               if message_compare > 0 then hub_err ''bad_request.conflict'' ''message conflicts with a more recent add''
                               else if message_compare = 0 then hub_err ''bad_request.duplicate'' ''message has already been merged''
                               else Inr [existing_message])
                         | Inl Panic \<Rightarrow> Inl Panic
                         | _ \<Rightarrow> Inr []))
                else Inr [])
          | _ \<Rightarrow> Inr [])
     | _ \<Rightarrow> hub_err ''bad_request.validation_failure'' ''Message data body is missing''))"

definition proof_body :: "message \<Rightarrow> user_name_proof option" where
  "proof_body m = (case m_data m of
     Some data \<Rightarrow> (case md_body data of Some (UsernameProofBody body) \<Rightarrow> Some body | _ \<Rightarrow> None)
   | None \<Rightarrow> None)"

definition username_proof_revoke_event :: "message \<Rightarrow> hub_event" where
  "username_proof_revoke_event m =
     new_event MergeUsernameProof (MergeUsernameProofBody None (proof_body m) None (Some m))"

definition username_proof_merge_event :: "message \<Rightarrow> message list \<Rightarrow> hub_event" where
  "username_proof_merge_event m merge_conflicts =
     (let (deleted_proof, deleted_message) = (case merge_conflicts of
            [] \<Rightarrow> (None, None)
          | c # _ \<Rightarrow> (case proof_body c of Some p \<Rightarrow> (Some p, Some c) | None \<Rightarrow> (None, None)))
      in new_event MergeUsernameProof (MergeUsernameProofBody (proof_body m) deleted_proof (Some m) deleted_message))"

definition username_proof_store_def :: "u32 \<Rightarrow> store_def" where
  "username_proof_store_def prune_size_limit =
     \<lparr>sd_postfix = postfix_u8 UsernameProofMessage,
      sd_add_message_type = message_type_u8 UsernameProof,
      sd_remove_message_type = message_type_u8 MessageType_None,
      sd_compact_state_message_type = message_type_u8 MessageType_None,
      sd_is_add_type = username_proof_is_add_type,
      sd_is_remove_type = (\<lambda>_. False),
      sd_is_compact_state_type = (\<lambda>_. False),
      sd_build_secondary_indices = username_proof_build_secondary_indices,
      sd_delete_secondary_indices = username_proof_delete_secondary_indices,
      sd_make_add_key = username_proof_make_add_key,
      sd_make_remove_key = (\<lambda>_ _. hub_err ''bad_request.validation_failure'' ''Remove not supported''),
      sd_make_compact_state_add_key = (\<lambda>_ _. hub_err ''bad_request.invalid_param'' ''Username Proof Store doesn't support compact state''),
      sd_make_compact_state_prefix = (\<lambda>_ _. hub_err ''bad_request.invalid_param'' ''Username Proof Store doesn't support compact state''),
      sd_prune_size_limit = prune_size_limit,
      sd_message_compare = username_proof_compare_hashes,
      sd_get_merge_conflicts = Some username_proof_merge_conflicts,
      sd_revoke_event_args = username_proof_revoke_event,
      sd_merge_event_args = username_proof_merge_event,
      sd_prune_event_args = username_proof_revoke_event\<rparr>"

section \<open>UsernameProofStore\<close>

definition username_proof_partial :: "u64 \<Rightarrow> bytes \<Rightarrow> message" where
  "username_proof_partial fid name =
     default_message\<lparr>m_data := Some (default_data\<lparr>md_fid := fid,
       md_body := Some (UsernameProofBody \<lparr>up_timestamp = 0, up_name = name, up_owner = [], up_signature = [], up_fid = 0, up_type = 0\<rparr>)\<rparr>)\<rparr>"

text \<open>\<open>String::from_utf8_lossy\<close> of the name in the error text is a parameter.\<close>

definition username_store_get_proof :: "(bytes \<Rightarrow> string) \<Rightarrow> 'e store \<Rightarrow> bytes \<Rightarrow> txn_batch \<Rightarrow> message option res" where
  "username_store_get_proof lossy st name txn =
     bind_res (from_hub (get_from_db_or_txn (st_read st) txn (make_username_proof_by_name_key_with_prefix (rp_u8 Rp_UserNameProofByName) name)))
       (\<lambda>fid_result. case fid_result of
          None \<Rightarrow> Inl (HubFailure (not_found (''NotFound: Username proof not found for name '' @ lossy name)))
        | Some fid_bytes \<Rightarrow>
            bind_res (read_fid_key fid_bytes 0) (\<lambda>fid. get_add st (username_proof_partial fid name) (Some txn)))"

definition get_username_proofs_by_fid :: "'e store \<Rightarrow> u64 \<Rightarrow> page_options \<Rightarrow> messages_page res" where
  "get_username_proofs_by_fid st fid po = get_adds_by_fid st fid po None"

definition get_username_proof_by_fid_and_name :: "'e store \<Rightarrow> bytes \<Rightarrow> u64 \<Rightarrow> message option res" where
  "get_username_proof_by_fid_and_name st name fid = get_add st (username_proof_partial fid name) None"

end
