(* ===== verification/Username_Spec.thy ===== *)
theory Username_Spec
  imports Username_Proof_Store Account_Spec
begin

text \<open>
  The shadow store of username proofs never accepts a proof: its search for conflicts reads the rows of the
  regular store, where the same message has just been merged.
\<close>

definition username_proof_message :: "message \<Rightarrow> message_data \<Rightarrow> user_name_proof \<Rightarrow> bool" where
  "username_proof_message m d p \<longleftrightarrow> m_data m = Some d \<and> md_body d = Some (UsernameProofBody p) \<and> length (m_hash m) = 20
     \<and> m_signature_scheme m = SignatureScheme_Ed25519 \<and> md_type d = message_type_i32 UsernameProof
     \<and> ucast (md_fid d) \<noteq> (0 :: u32) \<and> up_name p \<noteq> []"

abbreviation proof_ts_hash :: "message \<Rightarrow> message_data \<Rightarrow> bytes" where
  "proof_ts_hash m d \<equiv> u32_to_be (md_timestamp d) @ m_hash m"

lemma username_proof_store_def_fields:
  "sd_merge_event_args (username_proof_store_def n) = username_proof_merge_event"
  "sd_is_add_type (username_proof_store_def n) = username_proof_is_add_type"
  "sd_is_compact_state_type (username_proof_store_def n) m = False"
  "compact_state_type_supported (username_proof_store_def n) = False"
  "get_merge_conflicts (username_proof_store_def n) = username_proof_merge_conflicts"
  by (simp_all add: username_proof_store_def_def compact_state_type_supported_def get_merge_conflicts_def)

lemma username_proof_put:
  assumes "username_proof_message m d p" "st_def st = username_proof_store_def n" "st_ctx st = Legacy"
  shows "put_add_transaction st (proof_ts_hash m d) m txn = (Inr (), txn_put (txn_put
      (txn_put txn (make_message_primary_key (md_fid d) (postfix_u8 UsernameProofMessage) (Some (proof_ts_hash m d))) (message_encode (st_codec st) m))
      (make_username_proof_by_fid_key_with_prefix (rp_u8 Rp_User) (md_fid d) (up_name p)) (proof_ts_hash m d))
      (rp_u8 Rp_UserNameProofByName # up_name p) (make_fid_key (md_fid d)))"
  using assms
  by (simp add: put_add_transaction_def username_proof_message_def username_proof_store_def_def username_proof_make_add_key_def bind_st_def
      username_proof_build_secondary_indices_def username_proof_indices_def put_message_transaction_with_prefix_def message_row_key_def
      make_ts_hash_def HASH_LENGTH_def user_prefix_def make_message_primary_key_def make_username_proof_by_name_key_with_prefix_def
      ctx_root_prefix_def is_hyper_def)

lemma username_proof_rows:
  assumes "username_proof_message m d p" "st_def st = username_proof_store_def n" "st_ctx st = Legacy"
    and "store_merge st m s = (Inr ev, s')"
  shows "overlay m0 (ss_txn s') (rp_u8 Rp_UserNameProofByName # up_name p) = Some (make_fid_key (md_fid d))"
    and "overlay m0 (ss_txn s') (make_username_proof_by_fid_key_with_prefix (rp_u8 Rp_User) (md_fid d) (up_name p)) = Some (proof_ts_hash m d)"
    and "overlay m0 (ss_txn s') (make_message_primary_key (md_fid d) (postfix_u8 UsernameProofMessage) (Some (proof_ts_hash m d)))
      = Some (message_encode (st_codec st) m)"
proof -
  have "sd_is_add_type (username_proof_store_def n) m" "\<not> sd_is_compact_state_type (username_proof_store_def n) m"
    using assms(1) by (simp_all add: username_proof_store_def_fields username_proof_is_add_type_def username_proof_message_def)
  moreover have "message_ts_hash m = Inr (proof_ts_hash m d)"
    using assms(1) by (simp add: message_ts_hash_def username_proof_message_def make_ts_hash_def HASH_LENGTH_def)
  ultimately have "merge_add st (proof_ts_hash m d) m s = (Inr ev, s')"
    using assms(2,4) by (simp add: store_merge_def Let_def)
  then obtain cs s1 s2 where "on_txn (put_add_transaction st (proof_ts_hash m d) m) s1 = (Inr (), s2)"
    and fin: "finish_merge st m cs s2 = (Inr ev, s')"
    by (auto simp: merge_add_def bind_st_Inr)
  then have s2: "ss_txn s2 = snd (put_add_transaction st (proof_ts_hash m d) m (ss_txn s1))"
    by (auto simp: on_txn_def on_part_def split: prod.splits)
  have rows: "overlay m0 (ss_txn s') k = overlay m0 (ss_txn s2) k" if "\<forall>i. k \<noteq> make_event_key i" for k
    using fin that by (cases "save_hub_events (st_opts st)"; cases "st_no_persist st")
      (auto simp: finish_merge_def Let_def commit_transaction_def bind_st_Inr on_gen_def on_txn_def on_part_def put_event_transaction_def
        split: prod.splits)
  note keys = make_event_key_def make_username_proof_by_fid_key_with_prefix_def make_user_key_with_prefix_def make_message_primary_key_def
    make_message_primary_key_with_prefix_def
  show "overlay m0 (ss_txn s') (rp_u8 Rp_UserNameProofByName # up_name p) = Some (make_fid_key (md_fid d))"
    by (simp add: rows make_event_key_def s2 username_proof_put[OF assms(1-3)])
  show "overlay m0 (ss_txn s') (make_username_proof_by_fid_key_with_prefix (rp_u8 Rp_User) (md_fid d) (up_name p)) = Some (proof_ts_hash m d)"
    by (simp add: rows keys s2 username_proof_put[OF assms(1-3)])
  show "overlay m0 (ss_txn s') (make_message_primary_key (md_fid d) (postfix_u8 UsernameProofMessage) (Some (proof_ts_hash m d)))
      = Some (message_encode (st_codec st) m)"
    by (simp add: rows keys s2 username_proof_put[OF assms(1-3)])
qed

text \<open>
  C37: After a username proof was merged into the regular store, merging the same message into the shadow store
  over the same batch always fails as a duplicate and changes nothing, so the shadow store never holds a
  username proof.
\<close>

theorem shadow_username_proof_refused:
  assumes "username_proof_message m d p" "st_def st = username_proof_store_def n" "st_ctx st = Legacy"
    and "store_merge st m s = (Inr ev, s')" "st_read st = reads m0" "stored_ok (st_codec st) m" "\<not> conflict_free (st_opts st)"
  shows "store_merge (with_event_handler (with_state_context st Hyper) True) m (s'\<lparr>ss_gen := g\<rparr>)
    = (hub_err ''bad_request.duplicate'' ''message has already been merged'', s'\<lparr>ss_gen := g\<rparr>)"
proof -
  let ?h = "with_event_handler (with_state_context st Hyper) True"
  note h = with_event_handler_def with_state_context_def
  have "sd_is_add_type (username_proof_store_def n) m" "\<not> sd_is_compact_state_type (username_proof_store_def n) m"
    "\<not> compact_state_type_supported (username_proof_store_def n)"
    using assms(1) by (simp_all add: username_proof_store_def_fields username_proof_is_add_type_def username_proof_message_def)
  moreover have ts: "message_ts_hash m = Inr (proof_ts_hash m d)"
    using assms(1) by (simp add: message_ts_hash_def username_proof_message_def make_ts_hash_def HASH_LENGTH_def)
  ultimately have run: "store_merge ?h m = merge_add ?h (proof_ts_hash m d) m" "check_add_compact ?h m txn = Inr ()" for txn
    using assms(2) by (simp_all add: store_merge_def Let_def fun_eq_iff check_add_compact_def current_compact_state_def h)
  let ?fid = "ucast (ucast (md_fid d) :: u32) :: u64"
  have "(ucast (ucast x :: u64) :: u32) = x" for x :: u32 by transfer simp
  then have low: "(ucast ?fid :: u32) = ucast (md_fid d)" .
  then have "?fid \<noteq> 0" using assms(1) by (metis username_proof_message_def unsigned_0)
  with low have fid: "make_fid_key ?fid = make_fid_key (md_fid d)" "?fid > 0" by (simp_all add: make_fid_key_def word_gt_0)
  note rows = username_proof_rows[OF assms(1-4), of m0]
  have "get_message (st_codec st) (reads m0) (ss_txn s') ?fid (postfix_u8 UsernameProofMessage) (proof_ts_hash m d) = Inr (Some m)"
    using rows(3) assms(6) fid(1)
    by (simp add: get_message_def get_message_with_prefix_def get_message_by_key_def make_message_primary_key_def stored_ok_def
        make_message_primary_key_with_prefix_def make_user_key_with_prefix_def message_decode_res_def)
  moreover have "overlay m0 (ss_txn s') (make_username_proof_by_fid_key_with_prefix (rp_u8 Rp_User) ?fid (up_name p)) = Some (proof_ts_hash m d)"
    using rows(2) fid(1) by (simp add: make_username_proof_by_fid_key_with_prefix_def make_user_key_with_prefix_def)
  ultimately have "username_proof_merge_conflicts (st_codec st) (reads m0) (ss_txn s') m (proof_ts_hash m d) Hyper
      = hub_err ''bad_request.duplicate'' ''message has already been merged''"
    using assms(1) rows(1) fid
    by (simp add: username_proof_merge_conflicts_def username_proof_message_def make_username_proof_by_name_key_with_prefix_def
        read_fid_key_def FID_BYTES_def make_fid_key_def vec_to_u8_24_def default_message_compare_def)
  moreover have "st_def ?h = username_proof_store_def n" "st_codec ?h = st_codec st" "st_read ?h = reads m0" "st_ctx ?h = Hyper" "\<not> conflict_free (st_opts ?h)"
    using assms(2,5,7) by (simp_all add: h st_read_def)
  ultimately have "clear_conflicts ?h (proof_ts_hash m d) m (s'\<lparr>ss_gen := g\<rparr>)
      = (hub_err ''bad_request.duplicate'' ''message has already been merged'', s'\<lparr>ss_gen := g\<rparr>)"
    by (simp add: clear_conflicts_def bind_st_def hub_err_def username_proof_store_def_fields)
  then show ?thesis by (simp add: run merge_add_def bind_st_def hub_err_def)
qed

definition sample_username_data :: message_data where
  "sample_username_data = default_data\<lparr>md_fid := 5, md_timestamp := 100, md_type := message_type_i32 UsernameProof, md_body :=
     Some (UsernameProofBody \<lparr>up_timestamp = 1, up_name = [97], up_owner = [], up_signature = [], up_fid = 5, up_type = 2\<rparr>)\<rparr>"

definition sample_username :: message where
  "sample_username = default_message\<lparr>m_data := Some sample_username_data, m_hash := replicate 20 1, m_signature_scheme := SignatureScheme_Ed25519\<rparr>"

theorem shadow_username_proof_refused_witness:
  "\<exists>ev s'. store_merge (sample_store (username_proof_store_def 10) [sample_username]) sample_username sample_state = (Inr ev, s')
    \<and> fst (store_merge (with_event_handler (with_state_context (sample_store (username_proof_store_def 10) [sample_username]) Hyper) True)
         sample_username s') = hub_err ''bad_request.duplicate'' ''message has already been merged''"
proof -
  let ?st = "sample_store (username_proof_store_def 10) [sample_username]"
  let ?p = "\<lparr>up_timestamp = 1, up_name = [97], up_owner = [], up_signature = [], up_fid = 5, up_type = 2\<rparr> :: user_name_proof"
  have m: "username_proof_message sample_username sample_username_data ?p"
    by (simp add: username_proof_message_def sample_username_def sample_username_data_def default_message_def default_data_def)
  have uses: "st_def ?st = username_proof_store_def 10" "st_ctx ?st = Legacy" "st_read ?st = reads Map.empty" "\<not> conflict_free (st_opts ?st)"
    "st_codec ?st = sample_codec [sample_username]"
    using sample_store_uses[of "username_proof_store_def 10" "[sample_username]"] by (simp_all add: store_uses_def)
  have ok: "stored_ok (sample_codec [sample_username]) sample_username"
    by (rule sample_stored_ok) (simp_all add: sample_username_def default_message_def)
  have "\<exists>ev s'. store_merge ?st sample_username sample_state = (Inr ev, s')"
  proof -
    let ?ts = "proof_ts_hash sample_username sample_username_data"
    have "username_proof_merge_conflicts (st_codec ?st) (reads Map.empty) (ss_txn sample_state) sample_username ?ts Legacy = Inr []"
      using m by (simp add: username_proof_merge_conflicts_def username_proof_message_def sample_state_def)
    then have clear: "clear_conflicts ?st ?ts sample_username sample_state = (Inr [], sample_state)"
      using uses by (simp add: clear_conflicts_def bind_st_def username_proof_store_def_fields on_txn_def on_part_def delete_many_transaction_def)
    have check: "check_add_compact ?st sample_username txn = Inr ()" for txn
      using uses(1) by (simp add: check_add_compact_def current_compact_state_def username_proof_store_def_fields)
    let ?s = "sample_state\<lparr>ss_txn := snd (put_add_transaction ?st ?ts sample_username (ss_txn sample_state))\<rparr>"
    have put: "on_txn (put_add_transaction ?st ?ts sample_username) sample_state = (Inr (), ?s)"
      by (simp add: on_txn_def on_part_def username_proof_put[OF m uses(1,2)])
    have "\<exists>ev s'. finish_merge ?st sample_username [] ?s = (Inr ev, s')"
      using commit_transaction_rows[of ?s "sd_merge_event_args (st_def ?st) sample_username []" "st_codec ?st" "st_no_persist ?st"]
      by (auto simp: finish_merge_def Let_def uses(1) username_proof_store_def_fields username_proof_merge_event_def new_event_def sample_state_def)
    then have "\<exists>ev s'. merge_add ?st ?ts sample_username sample_state = (Inr ev, s')"
      by (simp add: merge_add_def bind_st_def check clear put)
    moreover have "store_merge ?st sample_username = merge_add ?st ?ts sample_username"
      using m uses(1) by (simp add: store_merge_def Let_def username_proof_store_def_fields username_proof_is_add_type_def username_proof_message_def
          message_ts_hash_def make_ts_hash_def HASH_LENGTH_def fun_eq_iff)
    ultimately show ?thesis by simp
  qed
  then obtain ev s' where run: "store_merge ?st sample_username sample_state = (Inr ev, s')" by blast
  have "s'\<lparr>ss_gen := ss_gen s'\<rparr> = s'" by simp
  with shadow_username_proof_refused[OF m uses(1,2) run uses(3) _ uses(4), of "ss_gen s'"] ok uses(5) run show ?thesis by auto
qed

end
