(* ===== verification/Onchain_Spec.thy ===== *)
theory Onchain_Spec
  imports Onchain_Store Account_Spec
begin

text \<open>
  Reading the on-chain events of an account: the loop over the pages ends and returns every event.
\<close>

section \<open>The page loop of the store as the general one\<close>

definition decode_onchain :: "proto_codec \<Rightarrow> bytes \<Rightarrow> hub_error + onchain_event" where
  "decode_onchain pc value = map_err hub_error_from_decode (dec_onchain_event pc value)"

lemma onchain_step_collects:
  "page_size po = Some n \<Longrightarrow> onchain_page_step pc po (\<lambda>_. True) = collect_step (decode_onchain pc) n"
  by (intro ext) (simp add: onchain_page_step_def collect_step_def decode_onchain_def Let_def split: sum.split)

lemma onchain_page_collects:
  "page_size po = Some n \<Longrightarrow> get_onchain_events os po lo hi =
    (case collect_page (decode_onchain (os_codec os)) n (os_ops os) (os_db os) lo hi po of
       Inl e \<Rightarrow> Inl (OnchainHubError e)
     | Inr (evs, token) \<Rightarrow> Inr \<lparr>op_onchain_events = evs, op_next_page_token = token\<rparr>)"
  by (simp add: get_onchain_events_def onchain_page_def collect_page_def onchain_step_collects split: sum.split prod.split)

lemma onchain_loop_collects:
  "onchain_events_loop fuel os lo hi token acc = map_option (map_err OnchainHubError) (pages_loop fuel
     (\<lambda>t. collect_page (decode_onchain (os_codec os)) 1000 (os_ops os) (os_db os) lo hi
            \<lparr>page_size = Some 1000, page_token = t, page_reverse = False\<rparr>) token acc)"
  by (induction fuel arbitrary: token acc)
    (auto simp: onchain_page_collects[of _ 1000] Let_def split: sum.split option.split prod.split)

section \<open>The rows of an account\<close>

text \<open>Every row of the primary keyspace is the row of the event it decodes to.\<close>

definition onchain_rows_ok :: "proto_codec \<Rightarrow> (bytes \<rightharpoonup> bytes) \<Rightarrow> bool" where
  "onchain_rows_ok pc m \<longleftrightarrow> (\<forall>k v. m k = Some v \<and> prefix [rp_u8 Rp_OnChainEvent, 1] k \<longrightarrow>
     (\<exists>ev. dec_onchain_event pc v = Inr ev \<and> k = make_onchain_event_primary_key ev))"

lemma length_primary_key [simp]: "length (make_onchain_event_primary_key ev) = 15"
  by (simp add: make_onchain_event_primary_key_def make_onchain_event_type_prefix_def)

lemma increment_keeps_front:
  assumes "b \<noteq> 255"
  shows "\<exists>z. increment_vec_u8 (xs @ b # ys) = xs @ z"
proof (cases rule: increment_vec_u8_cases[of "xs @ b # ys"])
  case overflow
  then have "b \<in> set (replicate (length (xs @ b # ys)) 255)" by (metis in_set_conv_decomp)
  with assms show ?thesis by simp
next
  case (stem s c m)
  have "length xs \<le> length s"
  proof (rule ccontr)
    assume "\<not> length xs \<le> length s"
    then have "(s @ c # replicate m 255) ! length xs \<in> set (replicate m 255)"
      using arg_cong[OF stem(1), of length] by (auto simp: nth_append nth_Cons')
    with assms show False by (simp flip: stem(1))
  qed
  then have "prefix xs s" using stem(1) by (metis prefixI prefix_length_prefix)
  with stem(3) show ?thesis by (auto simp: prefix_def)
qed

lemma between_same_front: "[a, b] @ x \<le> k \<Longrightarrow> k < [a, b] @ y \<Longrightarrow> prefix [a, b] k" for a b :: u8
  by (cases k; cases "tl k") (auto split: if_splits)

lemma type_fid_window:
  assumes "onchain_rows_ok pc m" "m k = Some v"
  shows "type_fid_prefix t fid \<le> k \<and> k < increment_vec_u8 (type_fid_prefix t fid) \<longleftrightarrow> prefix (type_fid_prefix t fid) k"
proof -
  let ?P = "type_fid_prefix t fid"
  let ?n = "word_of_nat (onchain_event_type_num t) :: u8"
  obtain ys where P: "?P = [rp_u8 Rp_OnChainEvent, 1] @ ?n # ys"
    by (simp add: type_fid_prefix_def make_onchain_event_type_prefix_def)
  have n: "?n \<noteq> 255" by (cases t) (simp_all add: onchain_event_type_num_def)
  have "length ?P \<le> 15" by (simp add: type_fid_prefix_def make_onchain_event_type_prefix_def split: option.split)
  moreover have "prefix [rp_u8 Rp_OnChainEvent, 1] k \<Longrightarrow> length k = 15"
    using assms length_primary_key unfolding onchain_rows_ok_def by metis
  ultimately have row: "prefix [rp_u8 Rp_OnChainEvent, 1] k \<Longrightarrow> length ?P \<le> length k" by simp
  have ne: "?P \<noteq> replicate (length ?P) 255" by (simp add: P)
  obtain z where "increment_vec_u8 ?P = [rp_u8 Rp_OnChainEvent, 1] @ z" using increment_keeps_front[OF n] P by metis
  then have "?P \<le> k \<Longrightarrow> k < increment_vec_u8 ?P \<Longrightarrow> length ?P \<le> length k"
    using row between_same_front[of "rp_u8 Rp_OnChainEvent" 1 "?n # ys" k z] P by simp
  moreover have "prefix ?P k \<Longrightarrow> length ?P \<le> length k" by (rule prefix_length_le)
  ultimately show ?thesis using increment_range_iff_prefix[OF _ ne, of k] by blast
qed

section \<open>All events are read\<close>

text \<open>
  C38: Reading the on-chain events of a type, of one account or of all, ends and is complete: whenever the loop
  may make more steps than there are rows, it returns the decoded events of all rows under the prefix, in the
  order of their keys, however many pages of 1000 events they fill.
\<close>

theorem onchain_events_complete:
  assumes "engine_laws (os_ops os) rows einv" "einv e" "os_db os = Some (TransactionDb e)"
    and "onchain_rows_ok (os_codec os) (rows e)"
  shows "\<exists>rs. hm_ok rs \<and> set rs = {(k, v). rows e k = Some v \<and> prefix (type_fid_prefix t fid) k}
    \<and> (\<forall>fuel > length rs. get_onchain_events_by_type fuel os t fid
          = Some (Inr (map (\<lambda>(k, v). projr (dec_onchain_event (os_codec os) v)) rs)))"
proof -
  let ?P = "type_fid_prefix t fid" and ?ev = "\<lambda>v. projr (dec_onchain_event (os_codec os) v)"
  let ?rs = "raw_range (os_ops os) e ?P (increment_vec_u8 ?P)"
  have set: "set ?rs = {(k, v). rows e k = Some v \<and> prefix ?P k}"
    using engine_range[OF assms(1,2)] type_fid_window[OF assms(4)] by blast
  have "decode_onchain (os_codec os) (snd r) = Inr (?ev (snd r)) \<and> fst r \<noteq> []" if "r \<in> set ?rs" for r
  proof -
    obtain k v where r: "r = (k, v)" "rows e k = Some v" "prefix ?P k" using \<open>r \<in> set ?rs\<close> set by auto
    then have k: "prefix [rp_u8 Rp_OnChainEvent, 1] k"
      by (auto simp: type_fid_prefix_def make_onchain_event_type_prefix_def prefix_def)
    with assms(4) r(2) obtain ev where "dec_onchain_event (os_codec os) v = Inr ev" unfolding onchain_rows_ok_def by blast
    with r(1) k show ?thesis by (auto simp: decode_onchain_def)
  qed
  then have "get_onchain_events_by_type fuel os t fid = Some (Inr (map (\<lambda>r. ?ev (snd r)) ?rs))" if "length ?rs < fuel" for fuel
    using pages_complete[OF assms(1,2), where n = 1000 and lo = ?P and hi = "increment_vec_u8 ?P" and token = None
        and dec = "decode_onchain (os_codec os)" and f = ?ev and fuel = fuel and acc = "[]"] that
    by (simp add: get_onchain_events_by_type_def onchain_loop_collects assms(3))
  with set engine_range_ok[OF assms(1,2)] show ?thesis by (intro exI[of _ ?rs]) (simp add: case_prod_beta)
qed

text \<open>A registration of account 5 in block 7, stored beside a row of another kind.\<close>

definition one_event :: onchain_event where
  "one_event = \<lparr>oe_type = 3, oe_chain_id = 10, oe_block_number = 7, oe_block_hash = [], oe_block_timestamp = 0, oe_transaction_hash = [],
     oe_log_index = 2, oe_fid = 5, oe_body = None, oe_tx_index = 0, oe_version = 0\<rparr>"

definition one_event_db :: "(bytes \<times> bytes) list" where
  "one_event_db = [([1], [9]), ([12, 1, 3, 0, 0, 0, 5, 0, 0, 0, 7, 0, 0, 0, 2], [1])]"

definition one_event_store :: "(bytes \<times> bytes) list onchain_store" where
  "one_event_store = \<lparr>os_ops = list_engine, os_db = Some (TransactionDb one_event_db),
     os_opts = \<lparr>conflict_free = False, save_hub_events = True\<rparr>, os_codec = (sample_codec [])\<lparr>dec_onchain_event := (\<lambda>_. Inr one_event)\<rparr>\<rparr>"

theorem onchain_events_complete_witness:
  "get_onchain_events_by_type 2 one_event_store EventTypeIdRegister (Some 5) = Some (Inr [one_event])"
proof -
  have key: "make_onchain_event_primary_key one_event = [12, 1, 3, 0, 0, 0, 5, 0, 0, 0, 7, 0, 0, 0, 2]" by code_simp
  have "hm_ok one_event_db" by (simp add: one_event_db_def hm_ok_def)
  moreover have "onchain_rows_ok (os_codec one_event_store) (map_of one_event_db)"
    by (auto simp: onchain_rows_ok_def one_event_db_def one_event_store_def key split: if_splits)
  ultimately obtain rs where rs: "hm_ok rs" "set rs = {(k, v). map_of one_event_db k = Some v \<and> prefix (type_fid_prefix EventTypeIdRegister (Some 5)) k}"
    "\<forall>fuel > length rs. get_onchain_events_by_type fuel one_event_store EventTypeIdRegister (Some 5)
       = Some (Inr (map (\<lambda>(k, v). projr (dec_onchain_event (os_codec one_event_store) v)) rs))"
    using onchain_events_complete[of one_event_store map_of hm_ok one_event_db EventTypeIdRegister "Some 5"] list_engine_laws
    by (auto simp: one_event_store_def)
  have "type_fid_prefix EventTypeIdRegister (Some 5) = [12, 1, 3, 0, 0, 0, 5]" by code_simp
  then have "set rs = {([12, 1, 3, 0, 0, 0, 5, 0, 0, 0, 7, 0, 0, 0, 2], [1])}"
    using rs(2) by (auto simp: one_event_db_def split: if_splits)
  with hm_ok_distinct[OF rs(1)] have "rs = [([12, 1, 3, 0, 0, 0, 5, 0, 0, 0, 7, 0, 0, 0, 2], [1])]"
    by (cases rs; cases "tl rs") auto
  with rs(3) show ?thesis by (simp add: one_event_store_def)
qed

end
