(* ===== verification/Storage_Lend_Store.thy ===== *)
theory Storage_Lend_Store
  imports Onchain_Store
begin

text \<open>
  Storage that accounts lend to each other (\<open>storage/store/account/storage_lend_store.rs\<close>): one row per lender
  and borrower, an index by borrower, and the storage slots they add up to. \<open>now\<close> is the wall clock that
  merging storage slots reads.
\<close>

section \<open>StorageLendStoreDef\<close>

definition make_storage_lend_primary_key_with_prefix :: "u8 \<Rightarrow> u64 \<Rightarrow> u64 \<Rightarrow> bytes" where
  "make_storage_lend_primary_key_with_prefix root_prefix from_fid to_fid =
     make_user_key_with_prefix root_prefix from_fid @ [postfix_u8 LendStorages] @ make_fid_key to_fid"

definition lend_to_fid :: "message \<Rightarrow> u64 res" where
  "lend_to_fid m = bind_res (unwrap (m_data m)) (\<lambda>data. case md_body data of
     Some (LendStorageBody b) \<Rightarrow> Inr (ls_to_fid b)
   | _ \<Rightarrow> hub_err ''bad_request.invalid_param'' ''LendStorage message missing body'')"

definition storage_lend_make_add_key :: "message \<Rightarrow> state_context \<Rightarrow> bytes res" where
  "storage_lend_make_add_key m ctx =
     bind_res (lend_to_fid m) (\<lambda>to_fid. bind_res (unwrap (m_data m)) (\<lambda>data.
       Inr (make_storage_lend_primary_key_with_prefix (ctx_root_prefix ctx Rp_User) (md_fid data) to_fid)))"

definition by_borrower_secondary_index_key_with_prefix :: "u8 \<Rightarrow> message \<Rightarrow> bytes res" where
  "by_borrower_secondary_index_key_with_prefix root_prefix m =
     bind_res (lend_to_fid m) (\<lambda>to_fid. bind_res (unwrap (m_data m)) (\<lambda>data.
       Inr (root_prefix # make_fid_key to_fid @ make_fid_key (md_fid data))))"

definition storage_lend_index :: "(txn_batch \<Rightarrow> bytes \<Rightarrow> txn_batch) \<Rightarrow> bytes \<Rightarrow> message \<Rightarrow> state_context \<Rightarrow> (txn_batch, unit) action" where
  "storage_lend_index write ts_hash m ctx =
     (case by_borrower_secondary_index_key_with_prefix (ctx_root_prefix ctx Rp_LendStorageByRecipient) m of
        Inr key \<Rightarrow> modify_st (\<lambda>txn. write txn key)
      | Inl (HubFailure _) \<Rightarrow> return_st ()
      | Inl Panic \<Rightarrow> lift_res (Inl Panic))"

definition storage_lend_is_add_type :: "message \<Rightarrow> bool" where
  "storage_lend_is_add_type m = (case m_data m of
     None \<Rightarrow> False
   | Some data \<Rightarrow> m_signature_scheme m = SignatureScheme_Ed25519 \<and> md_type data = message_type_i32 LendStorage
       \<and> md_body data \<noteq> None)"

definition storage_lend_store_def :: "u32 \<Rightarrow> store_def" where
  "storage_lend_store_def prune_size_limit =
     \<lparr>sd_postfix = postfix_u8 LendStorageMessage,
      sd_add_message_type = message_type_u8 LendStorage,
      sd_remove_message_type = message_type_u8 MessageType_None,
      sd_compact_state_message_type = message_type_u8 MessageType_None,
      sd_is_add_type = storage_lend_is_add_type,
      sd_is_remove_type = (\<lambda>_. False),
      sd_is_compact_state_type = (\<lambda>_. False),
      sd_build_secondary_indices = storage_lend_index (\<lambda>txn key. txn_put txn key [TRUE_VALUE]),
      sd_delete_secondary_indices = storage_lend_index txn_delete,
      sd_make_add_key = storage_lend_make_add_key,
      sd_make_remove_key = (\<lambda>_ _. hub_err ''bad_request.invalid_param'' ''removes not supported''),
      sd_make_compact_state_add_key = (\<lambda>_ _. hub_err ''bad_request.invalid_param'' ''StorageLendStore doesn't support compact state''),
      sd_make_compact_state_prefix = (\<lambda>_ _. hub_err ''bad_request.invalid_param'' ''StorageLendStore doesn't support compact state''),
      sd_prune_size_limit = prune_size_limit,
      sd_message_compare = default_message_compare (message_type_u8 LendStorage) (message_type_u8 MessageType_None),
      sd_get_merge_conflicts = None,
      sd_revoke_event_args = default_revoke_event,
      sd_merge_event_args = default_merge_event,
      sd_prune_event_args = default_prune_event\<rparr>"

section \<open>StorageLendStore\<close>

fun merge_lends :: "u32 \<Rightarrow> message list \<Rightarrow> storage_slot \<Rightarrow> storage_slot res" where
  "merge_lends now [] slot = Inr slot"
| "merge_lends now (m # ms) slot =
     bind_res (unwrap (m_data m)) (\<lambda>data. bind_res (unwrap (md_body data)) (\<lambda>body. case body of
       LendStorageBody b \<Rightarrow> merge_lends now ms (slot_merge now slot (from_storage_lend b))
     | _ \<Rightarrow> merge_lends now ms slot))"

text \<open>The loop over the pages of an account's lends; \<open>fuel\<close> bounds the number of pages.\<close>

primrec lent_storage_loop :: "nat \<Rightarrow> u32 \<Rightarrow> 'e store \<Rightarrow> u64 \<Rightarrow> bytes option \<Rightarrow> storage_slot \<Rightarrow> storage_slot res option" where
  "lent_storage_loop 0 now st fid next_page_token slot = None"
| "lent_storage_loop (Suc fuel) now st fid next_page_token slot =
     (case get_adds_by_fid st fid \<lparr>page_size = None, page_token = next_page_token, page_reverse = False\<rparr> None of
        Inl e \<Rightarrow> Some (Inl e)
      | Inr page \<Rightarrow>
          (case merge_lends now (mp_messages page) slot of
             Inl e \<Rightarrow> Some (Inl e)
           | Inr slot' \<Rightarrow>
               (case mp_next_page_token page of
                  None \<Rightarrow> Some (Inr slot')
                | Some t \<Rightarrow> lent_storage_loop fuel now st fid (Some t) slot')))"

definition get_lent_storage :: "nat \<Rightarrow> u32 \<Rightarrow> 'e store \<Rightarrow> u64 \<Rightarrow> storage_slot res option" where
  "get_lent_storage fuel now st fid = lent_storage_loop fuel now st fid None (slot_new 0 0 0 0)"

definition lend_partial :: "u64 \<Rightarrow> u64 \<Rightarrow> message" where
  "lend_partial lender_fid borrower_fid =
     default_message\<lparr>m_data := Some (default_data\<lparr>md_fid := lender_fid,
       md_body := Some (LendStorageBody \<lparr>ls_to_fid = borrower_fid, ls_num_units = 0, ls_unit_type = 0\<rparr>)\<rparr>)\<rparr>"

text \<open>The message behind a row of the index by borrower; a row that leads nowhere is skipped.\<close>

definition borrowed_message :: "'e store \<Rightarrow> bytes \<Rightarrow> message option res" where
  "borrowed_message st secondary_key =
     bind_res (read_fid_key secondary_key 5) (\<lambda>lender_fid. bind_res (read_fid_key secondary_key 1) (\<lambda>borrower_fid.
       case get_add st (lend_partial lender_fid borrower_fid) None of
         Inr r \<Rightarrow> Inr r
       | Inl Panic \<Rightarrow> Inl Panic
       | Inl (HubFailure _) \<Rightarrow> Inr None))"

abbreviation borrower_prefix :: "u64 \<Rightarrow> bytes" where
  "borrower_prefix fid \<equiv> rp_u8 Rp_LendStorageByRecipient # make_fid_key fid"

definition borrowed_step :: "u32 \<Rightarrow> 'e store \<Rightarrow> bytes \<Rightarrow> bytes \<Rightarrow> (storage_slot, bool) action" where
  "borrowed_step now st secondary_key value =
     bind_st (lift_res (borrowed_message st secondary_key)) (\<lambda>found.
     bind_st (modify_st (\<lambda>slot. case found of
         Some m \<Rightarrow> (case m_data m of
             Some data \<Rightarrow> (case md_body data of Some (LendStorageBody b) \<Rightarrow> slot_merge now slot (from_storage_lend b) | _ \<Rightarrow> slot)
           | None \<Rightarrow> slot)
       | None \<Rightarrow> slot)) (\<lambda>_. return_st False))"

definition get_borrowed_storage :: "u32 \<Rightarrow> 'e store \<Rightarrow> u64 \<Rightarrow> storage_slot res" where
  "get_borrowed_storage now st fid =
     (case for_each_action (st_ops st) (st_db st) (borrower_prefix fid) default_page_options (borrowed_step now st) (slot_new 0 0 0 0) of
        (Inl e, _) \<Rightarrow> Inl e
      | (Inr _, slot) \<Rightarrow> Inr slot)"

definition get_messages_by_borrower_fid :: "'e store \<Rightarrow> u64 \<Rightarrow> message list res" where
  "get_messages_by_borrower_fid st borrower_fid =
     (case for_each_action (st_ops st) (st_db st) (borrower_prefix borrower_fid) default_page_options
             (\<lambda>secondary_key value. bind_st (lift_res (borrowed_message st secondary_key)) (\<lambda>found.
                bind_st (modify_st (\<lambda>messages. case found of Some m \<Rightarrow> messages @ [m] | None \<Rightarrow> messages)) (\<lambda>_. return_st False))) [] of
        (Inl e, _) \<Rightarrow> Inl e
      | (Inr _, messages) \<Rightarrow> Inr messages)"

text \<open>A lend of no units is merged, which ends an earlier lend, and pruned at once.\<close>

definition storage_lend_merge :: "'e store \<Rightarrow> message \<Rightarrow> (store_state, hub_event list) action" where
  "storage_lend_merge st m =
     bind_st (store_merge st m) (\<lambda>event.
     bind_st (lift_res (bind_res (unwrap (m_data m)) (\<lambda>data. unwrap (md_body data)))) (\<lambda>body s. case body of
       LendStorageBody b \<Rightarrow>
         if ls_num_units b = 0 then
           (case prune_message st m s of
              (Inr (Some pruned), s') \<Rightarrow> (Inr [event, pruned], s')
            | (Inl Panic, s') \<Rightarrow> (Inl Panic, s')
            | (_, s') \<Rightarrow> (Inr [event], s'))
         else (Inr [event], s)
     | _ \<Rightarrow> (Inr [event], s)))"

end
