(* ===== verification/Spec2Isabelle.thy ===== *)
theory Spec2Isabelle
  imports Trie_Scenarios Storage_Spec Account_Upkeep Protocol_Spec Gasless_Spec Trie_Sync Username_Spec Onchain_Spec Storage_Lend_Store
begin

text \<open>
  Hypersnap: the state of a shard.

  A node keeps the messages of accounts in a key-value database and authenticates them by a Merkle trie. A
  message passes static validation, is merged by the store of its type into the batch of the current block, and
  yields an event; the event tells the trie which keys to add and which to drop; at the end of the block the
  batch is committed. This development models that path: bytes and rows, the trie, the stores, the rules, and
  the update of the trie from the events. Paths below are relative to \<open>src/src\<close>.

  \<^bold>\<open>Conventions.\<close> Integers keep their width as words, byte strings are lists of 8-bit words, a \<open>HashMap\<close> is a
  sorted association list, and a transaction batch is an association list of pending writes and deletes.
  Code that may fail returns a sum; a panic is a value of its own. Code that changes a state is a function that
  returns the result and the new state (\<open>Fallible\<close>, \<open>Results\<close>), and a failure keeps the writes made before it.
  What is not in the repository is an argument: the key-value engine (\<open>engine_ops\<close> with the laws
  \<open>engine_laws\<close>, which \<open>list_engine\<close> satisfies), the hashes, the protobuf codecs (\<open>proto_codec\<close>,
  \<open>block_codec\<close>), signatures, regular expressions and typed-data hashes (\<open>validation_env\<close>), base64, and the wall
  clock.

  \<^bold>\<open>Bytes and rows.\<close>
  \<^item> \<open>Prelude\<close>: words, byte strings, sorted association lists, big-endian numbers, generic lemmas.
  \<^item> \<open>Byte_Utils\<close>: \<open>storage/util.rs\<close> and \<open>storage/trie/util.rs\<close>; incrementing a prefix bounds its extensions.
  \<^item> \<open>Kv_Store\<close>: \<open>storage/db/rocksdb.rs\<close>; batches, reads, commit, iteration, paging, bulk deletion.
  \<^item> \<open>Paging\<close>: the page loops that several readers share; following the tokens reads every row.
  \<^item> \<open>Storage_Spec\<close>: scans are exact, pages resume after their token, bulk deletion ends and is complete, and
    the tokens of the trie iterator survive their textual form.

  \<^bold>\<open>The trie.\<close>
  \<^item> \<open>Trie_Node\<close> and \<open>Merkle_Trie\<close>: \<open>storage/trie/trie_node.rs\<close> and \<open>storage/trie/merkle_trie.rs\<close>, every
    operation of a node and of the trie.
  \<^item> \<open>Trie_Invariant\<close>, \<open>Trie_Insert\<close>, \<open>Trie_Delete\<close>, \<open>Trie_Lookup\<close>: the representation invariant and its
    preservation by every operation.
  \<^item> \<open>Trie_Spec\<close>: the contract \<open>authenticated_set\<close> and its interpretation on the trie: insertions and deletions
    act as on a set, the root hash is determined by the set, a committed trie is read back.
  \<^item> \<open>Trie_Scenarios\<close>: runs where the code departs from that contract. \<open>Sample_Env\<close> holds a hash and a codec for
    concrete runs.
  \<^item> \<open>Trie_Keys\<close> and \<open>Trie_Sync\<close>: \<open>TrieKey\<close> and \<open>update_for_event\<close> of \<open>merkle_trie.rs\<close> and \<open>mempool/routing.rs\<close>.
    After any sequence of events the trie holds exactly what was merged and not taken away; keys can be decoded;
    renewing an fname loses its key.

  \<^bold>\<open>The account stores\<close> (\<open>storage/store/account\<close>).
  \<^item> \<open>Messages\<close>, \<open>Block_Data\<close>, \<open>Keys\<close>, \<open>Hub_Events\<close>: the protobuf messages, the key space and the rows of
    messages (\<open>message.rs\<close>, \<open>storage/constants.rs\<close>, \<open>hyper/mod.rs\<close>), identifiers and the log of events
    (\<open>event.rs\<close>).
  \<^item> \<open>Account_Store\<close>: \<open>store.rs\<close>; the trait \<open>StoreDef\<close> is a record of functions and \<open>Store\<close> works on any such
    record. \<open>Batch_Order\<close> shows that no operation leaves a key in the batch twice.
  \<^item> \<open>Message_Set\<close> and \<open>Keyed_Set\<close>: the contracts of a store as locales: for everything a message may be about the
    store keeps the message that wins. \<open>Cast_Store\<close>, \<open>Reaction_Store\<close>, \<open>Verification_Store\<close>, \<open>Link_Store\<close> and
    \<open>User_Data_Store\<close> model the stores and interpret the locales. \<open>Store_Scans\<close> adds the operations that walk over
    all messages of an account.
  \<^item> \<open>Account_Spec\<close>, \<open>Link_Spec\<close>, \<open>Account_Upkeep\<close>: merging refines an update of a map, the order of arrival does
    not matter, removes win, compact states replace what they cover, pruning takes the oldest messages, and
    revoking takes those of the signer.
  \<^item> \<open>Username_Proof_Store\<close>, \<open>Username_Spec\<close>: \<open>username_proof_store.rs\<close>; the shadow state refuses every proof that
    the regular state has just merged.
  \<^item> \<open>Onchain_Store\<close>, \<open>Onchain_Spec\<close>: \<open>onchain_event_store.rs\<close>; all events of an account are read.
    \<open>Storage_Lend_Store\<close>: \<open>storage_lend_store.rs\<close>.
  \<^item> \<open>Gasless_Keys\<close>, \<open>Gasless_Indices\<close>, \<open>Gasless_Spec\<close>: keys that are added and removed by messages
    (\<open>key_add_store.rs\<close>, \<open>key_last_used_at_store.rs\<close>, \<open>key_nonce_store.rs\<close>, \<open>active_key.rs\<close>,
    \<open>gasless_key_merge.rs\<close>); the indices agree, an added key admits what it names, deadlines are not enforced.

  \<^bold>\<open>The rules.\<close>
  \<^item> \<open>Protocol_Version\<close>: \<open>version/version.rs\<close> and the clock of \<open>core/util.rs\<close>.
  \<^item> \<open>Content_Rules\<close>, \<open>Profile_Rules\<close>, \<open>Message_Rules\<close>: \<open>core/validations\<close>.
  \<^item> \<open>Protocol_Spec\<close>: versions never go back, the clock is exact in its range, a validated message has the shape
    the stores ask for, and two places where validation is not what it seems.

  \<^bold>\<open>Fuel.\<close> Insertion and deletion in the trie recurse on the nibbles of a key; \<open>key_fuel\<close> is one more than the
  longest key and is proved to be enough. The traversal for all values takes its depth as an argument, and more
  than the length of every key in nibbles is enough. The loops over pages of the key-value layer and of the
  on-chain events take the number of pages; more than the number of rows is enough
  (\<open>Storage_Spec\<close>, \<open>Onchain_Spec\<close>). The page iterator of the trie, the search of an admin reset and the
  loop over storage lends are defined with fuel, without a property of their own.

  \<^bold>\<open>Not modelled.\<close> Opening, backing up and tuning the database; read counters and access times of trie nodes;
  the iterator over account numbers; the control flow of the shard and block engines, which drives the stores
  and the trie modelled here from timers and channels; the rows of blocks and chunks; mempool, consensus, network
  services, replication, connectors, migrations, jobs, and the optional API. These are asynchronous or consist of
  calls into other packages. The state of a trie after a failed insertion is not described.
\<close>

end
